(* ===== verification/Bus_Prelude.thy ===== *)
theory Bus_Prelude
  imports Main "HOL-Library.Word" "HOL-Library.Char_ord" "HOL-Library.List_Lexorder"
    "HOL-Library.Sublist"
begin

text \<open>
  Shared ground of the development: the machine types of the Rust source, Rust strings and
  their UTF-8 bytes, little-endian integers, the slice iterators \<open>split\<close> and \<open>splitn\<close>, the
  incoming byte stream of a connection with \<open>read_exact\<close>, and the outcome of an asynchronous
  operation.  The lemmas here are the generic facts the components use.
\<close>

unbundle bit_operations_syntax

named_theorems bus_defs \<open>definitions unfolded when a concrete run is evaluated\<close>
named_theorems wire_simps \<open>encode/decode facts of the wire format\<close>

section \<open>Machine types\<close>

type_synonym u8 = "8 word"
type_synonym u16 = "16 word"
type_synonym u32 = "32 word"
type_synonym u64 = "64 word"
type_synonym i16 = "16 word"
type_synonym bytes = "u8 list"

text \<open>\<open>usize\<close> and \<open>Duration\<close> are natural numbers: no computation of the model reaches
  \<open>2^64\<close>.\<close>

type_synonym usize = nat
type_synonym duration = nat

section \<open>Strings\<close>

text \<open>A Rust \<open>str\<close> is its UTF-8 bytes; an Isabelle \<^typ>\<open>char\<close> is one byte.\<close>

definition byte_of_char :: "char \<Rightarrow> u8" where
  "byte_of_char c = word_of_nat (of_char c)"

definition char_of_byte :: "u8 \<Rightarrow> char" where
  "char_of_byte b = char_of (unat b)"

definition as_bytes :: "string \<Rightarrow> bytes" where
  "as_bytes s = map byte_of_char s"

lemma char_of_byte_of_char [simp]: "char_of_byte (byte_of_char c) = c"
proof -
  have "unat (word_of_nat (of_char c) :: u8) = of_char c"
    using nat_of_char_less_256 [of c] by (simp add: unat_of_nat take_bit_nat_eq_self)
  then show ?thesis by (simp add: char_of_byte_def byte_of_char_def)
qed

lemma byte_of_char_of_byte [simp]: "byte_of_char (char_of_byte b) = b"
proof -
  have "unat b < 256" using unsigned_less [of b] by simp
  then show ?thesis by (simp add: char_of_byte_def byte_of_char_def)
qed

lemma byte_of_char_inject [simp]: "byte_of_char c = byte_of_char d \<longleftrightarrow> c = d"
  by (metis char_of_byte_of_char)

lemma as_bytes_Nil [simp]: "as_bytes [] = []"
  and as_bytes_Cons [simp]: "as_bytes (c # s) = byte_of_char c # as_bytes s"
  and as_bytes_append [simp]: "as_bytes (s @ t) = as_bytes s @ as_bytes t"
  and length_as_bytes [simp]: "length (as_bytes s) = length s"
  by (simp_all add: as_bytes_def)

lemma as_bytes_eq_Nil [simp]: "as_bytes s = [] \<longleftrightarrow> s = []"
  by (cases s) simp_all

lemma map_char_of_byte_as_bytes [simp]: "map char_of_byte (as_bytes s) = s"
  by (induction s) simp_all

lemma as_bytes_inject [simp]: "as_bytes s = as_bytes t \<longleftrightarrow> s = t"
  by (metis map_char_of_byte_as_bytes)

lemma as_bytes_map_char_of_byte [simp]: "as_bytes (map char_of_byte bs) = bs"
  by (induction bs) simp_all

text \<open>\<open>std::str::from_utf8\<close>: the well-formed UTF-8 byte sequences.\<close>

definition is_cont :: "u8 \<Rightarrow> bool" where
  "is_cont b \<longleftrightarrow> 0x80 \<le> b \<and> b \<le> 0xBF"

fun utf8_valid :: "bytes \<Rightarrow> bool" where
  "utf8_valid [] = True"
| "utf8_valid (b # bs) =
     (if b < 0x80 then utf8_valid bs
      else if 0xC2 \<le> b \<and> b \<le> 0xDF then
        (case bs of c # r \<Rightarrow> is_cont c \<and> utf8_valid r | _ \<Rightarrow> False)
      else if 0xE0 \<le> b \<and> b \<le> 0xEF then
        (case bs of c # d # r \<Rightarrow>
           (if b = 0xE0 then 0xA0 \<le> c \<and> c \<le> 0xBF
            else if b = 0xED then 0x80 \<le> c \<and> c \<le> 0x9F else is_cont c)
           \<and> is_cont d \<and> utf8_valid r
         | _ \<Rightarrow> False)
      else if 0xF0 \<le> b \<and> b \<le> 0xF4 then
        (case bs of c # d # e # r \<Rightarrow>
           (if b = 0xF0 then 0x90 \<le> c \<and> c \<le> 0xBF
            else if b = 0xF4 then 0x80 \<le> c \<and> c \<le> 0x8F else is_cont c)
           \<and> is_cont d \<and> is_cont e \<and> utf8_valid r
         | _ \<Rightarrow> False)
      else False)"

definition from_utf8 :: "bytes \<Rightarrow> string option" where
  "from_utf8 bs = (if utf8_valid bs then Some (map char_of_byte bs) else None)"

text \<open>The values a Rust \<open>String\<close> can have.\<close>

definition str_ok :: "string \<Rightarrow> bool" where
  "str_ok s \<longleftrightarrow> utf8_valid (as_bytes s)"

lemma from_utf8_as_bytes [wire_simps]: "str_ok s \<Longrightarrow> from_utf8 (as_bytes s) = Some s"
  by (simp add: from_utf8_def str_ok_def)

lemma from_utf8_SomeD: "from_utf8 bs = Some s \<Longrightarrow> bs = as_bytes s \<and> str_ok s"
  by (auto simp: from_utf8_def str_ok_def split: if_splits)

lemma str_ok_Nil [simp]: "str_ok []"
  by (simp add: str_ok_def)

text \<open>A string without the NUL character; the wire format separates strings by NUL.\<close>

definition nul_free :: "string \<Rightarrow> bool" where
  "nul_free s \<longleftrightarrow> 0 \<notin> set (as_bytes s)"

text \<open>Decimal and hexadecimal \<open>Display\<close> of an unsigned number.\<close>

definition digit_char :: "nat \<Rightarrow> char" where
  "digit_char d = char_of (if d < 10 then 48 + d else 87 + d)"

fun show_base :: "nat \<Rightarrow> nat \<Rightarrow> string" where
  "show_base k n =
     (if n < k + 2 then [digit_char n] else show_base k (n div (k + 2)) @ [digit_char (n mod (k + 2))])"

declare show_base.simps [simp del]

definition show_nat :: "nat \<Rightarrow> string" where
  "show_nat n = show_base 8 n"

definition show_hex :: "nat \<Rightarrow> string" where
  "show_hex n = show_base 14 n"

lemma digit_char_inj: "d < 16 \<Longrightarrow> e < 16 \<Longrightarrow> digit_char d = digit_char e \<Longrightarrow> d = e"
proof -
  assume "d < 16" "e < 16" "digit_char d = digit_char e"
  then have "of_char (digit_char d) = (of_char (digit_char e) :: nat)" by simp
  with \<open>d < 16\<close> \<open>e < 16\<close> show "d = e"
    by (simp add: digit_char_def split: if_splits)
qed

lemma show_base_nonempty [simp]: "show_base k n \<noteq> []"
  by (subst show_base.simps) simp

lemma show_base_inj:
  "k \<le> 14 \<Longrightarrow> show_base k m = show_base k n \<Longrightarrow> m = n"
proof (induction k m arbitrary: n rule: show_base.induct)
  case (1 k m)
  have d16: "x mod (k + 2) < 16" for x :: nat
    using "1.prems"(1) by (intro less_le_trans [OF mod_less_divisor [of "k + 2" x]]) simp_all
  show ?case
  proof (cases "m < k + 2")
    case True
    with "1.prems" have "n < k + 2"
      by (metis append_self_conv2 append1_eq_conv show_base.simps show_base_nonempty)
    with True "1.prems" show ?thesis
      by (auto simp: show_base.simps [of k m] show_base.simps [of k n] dest: digit_char_inj [rotated -1])
  next
    case False
    with "1.prems" have n: "\<not> n < k + 2"
      by (metis append_self_conv2 append1_eq_conv show_base.simps show_base_nonempty)
    from False n "1.prems"
    have q: "show_base k (m div (k + 2)) = show_base k (n div (k + 2))"
      and r: "digit_char (m mod (k + 2)) = digit_char (n mod (k + 2))"
      by (simp_all add: show_base.simps [of k m] show_base.simps [of k n])
    have "m div (k + 2) = n div (k + 2)" using "1.IH" [OF False "1.prems"(1) q] .
    moreover have "m mod (k + 2) = n mod (k + 2)" using digit_char_inj [OF d16 d16 r] .
    ultimately show ?thesis by (metis div_mult_mod_eq)
  qed
qed

lemma show_nat_inject [simp]: "show_nat m = show_nat n \<longleftrightarrow> m = n"
  using show_base_inj [of 8 m n] by (auto simp: show_nat_def)


section \<open>Lists\<close>

lemma nth_upd: "xs[i := x] ! j = (if i = j \<and> i < length xs then x else xs ! j)"
  by (cases "i < length xs") (simp_all add: nth_list_update not_less list_update_beyond)

lemma length_filter_by_map: "map P xs = map P ys \<Longrightarrow> length (filter P xs) = length (filter P ys)"
proof (induction xs arbitrary: ys)
  case (Cons x xs)
  then show ?case by (cases ys) auto
qed simp

section \<open>Little-endian integers\<close>

definition le16 :: "u16 \<Rightarrow> bytes" where
  "le16 w = [ucast w, ucast (drop_bit 8 w)]"

definition of_le16 :: "bytes \<Rightarrow> u16" where
  "of_le16 bs = ucast (bs ! 0) OR push_bit 8 (ucast (bs ! 1))"

definition le32 :: "u32 \<Rightarrow> bytes" where
  "le32 w = [ucast w, ucast (drop_bit 8 w), ucast (drop_bit 16 w), ucast (drop_bit 24 w)]"

definition of_le32 :: "bytes \<Rightarrow> u32" where
  "of_le32 bs = ucast (bs ! 0) OR push_bit 8 (ucast (bs ! 1))
     OR push_bit 16 (ucast (bs ! 2)) OR push_bit 24 (ucast (bs ! 3))"

lemma length_le16 [simp]: "length (le16 w) = 2"
  and length_le32 [simp]: "length (le32 v) = 4"
  by (simp_all add: le16_def le32_def)

lemma of_le16_le16 [simp]: "of_le16 (le16 w) = w"
  by (rule bit_word_eqI) (auto simp: of_le16_def le16_def bit_simps)

lemma of_le32_le32 [simp]: "of_le32 (le32 w) = w"
proof (rule bit_word_eqI)
  fix n assume "n < LENGTH(32)"
  then consider "n < 8" | "8 \<le> n" "n < 16" | "16 \<le> n" "n < 24" | "24 \<le> n" "n < 32"
    by fastforce
  then show "bit (of_le32 (le32 w)) n \<longleftrightarrow> bit w n"
    by cases (auto simp: of_le32_def le32_def bit_simps)
qed

lemma le32_inject [simp]: "le32 v = le32 w \<longleftrightarrow> v = w"
  by (metis of_le32_le32)

lemma le32_of_le32 [simp]: "le32 (of_le32 [a, b, c, d]) = [a, b, c, d]"
  by (auto simp: of_le32_def le32_def bit_simps impossible_bit intro!: bit_word_eqI)

lemma unat_of_nat_u32: "n < 2 ^ 32 \<Longrightarrow> unat (word_of_nat n :: u32) = n"
  by (simp add: unat_of_nat take_bit_nat_eq_self)

lemma unat_of_nat_u16: "n < 2 ^ 16 \<Longrightarrow> unat (word_of_nat n :: u16) = n"
  by (simp add: unat_of_nat take_bit_nat_eq_self)

section \<open>Slice iterators\<close>

text \<open>\<open>buf.split(|c| *c == 0)\<close>: always at least one piece.\<close>

fun split0 :: "bytes \<Rightarrow> bytes list" where
  "split0 [] = [[]]"
| "split0 (b # bs) =
     (if b = 0 then [] # split0 bs
      else (case split0 bs of p # ps \<Rightarrow> (b # p) # ps | [] \<Rightarrow> [[b]]))"

text \<open>\<open>buf.splitn(n, |c| *c == 0)\<close>: at most \<open>n\<close> pieces, the last one is the rest.\<close>

fun splitn0 :: "nat \<Rightarrow> bytes \<Rightarrow> bytes list" where
  "splitn0 0 bs = []"
| "splitn0 (Suc 0) bs = [bs]"
| "splitn0 (Suc (Suc n)) bs =
     (if 0 \<in> set bs
      then takeWhile (\<lambda>b. b \<noteq> 0) bs # splitn0 (Suc n) (tl (dropWhile (\<lambda>b. b \<noteq> 0) bs))
      else [bs])"

lemma split0_nonempty [simp]: "split0 bs \<noteq> []"
  by (induction bs) (auto split: list.splits)

lemma split0_nul_free: "0 \<notin> set p \<Longrightarrow> split0 p = [p]"
  by (induction p) auto

lemma split0_append_nul: "0 \<notin> set p \<Longrightarrow> split0 (p @ 0 # bs) = p # split0 bs"
  by (induction p) auto

lemma takeWhile_nul: "0 \<notin> set p \<Longrightarrow> takeWhile (\<lambda>b. b \<noteq> 0) (p @ 0 # bs) = (p :: bytes)"
  and dropWhile_nul: "0 \<notin> set p \<Longrightarrow> dropWhile (\<lambda>b. b \<noteq> 0) (p @ 0 # bs) = 0 # (bs :: bytes)"
  by (induction p) auto

lemma splitn0_append_nul [wire_simps]:
  "0 \<notin> set p \<Longrightarrow> splitn0 (Suc (Suc n)) (p @ 0 # bs) = p # splitn0 (Suc n) bs"
  by (simp add: takeWhile_nul dropWhile_nul)

lemma splitn0_2_conv:
  "splitn0 2 bs = [t, r] \<longleftrightarrow> 0 \<notin> set t \<and> bs = t @ 0 # r"
proof
  assume *: "splitn0 2 bs = [t, r]"
  then have m: "0 \<in> set bs" by (auto simp: numeral_2_eq_2 split: if_splits)
  with * have t: "t = takeWhile (\<lambda>b. b \<noteq> 0) bs" and r: "r = tl (dropWhile (\<lambda>b. b \<noteq> 0) bs)"
    by (auto simp: numeral_2_eq_2)
  have "dropWhile (\<lambda>b. b \<noteq> 0) bs \<noteq> []" using m by (simp add: dropWhile_eq_Nil_conv)
  moreover from this have "hd (dropWhile (\<lambda>b. b \<noteq> 0) bs) = 0"
    using hd_dropWhile [of "\<lambda>b. b \<noteq> 0" bs] by simp
  ultimately have "dropWhile (\<lambda>b. b \<noteq> 0) bs = 0 # r" using r by (metis list.collapse)
  then have "bs = t @ 0 # r" using t by (metis takeWhile_dropWhile_id)
  moreover have "0 \<notin> set t" using t by (auto dest: set_takeWhileD)
  ultimately show "0 \<notin> set t \<and> bs = t @ 0 # r" by simp
next
  assume "0 \<notin> set t \<and> bs = t @ 0 # r"
  then show "splitn0 2 bs = [t, r]"
    by (simp add: numeral_2_eq_2 takeWhile_nul dropWhile_nul)
qed

lemma splitn0_2_length: "splitn0 2 bs = m # rest \<Longrightarrow> rest \<noteq> [] \<Longrightarrow> length m < length bs"
proof -
  assume s: "splitn0 2 bs = m # rest" "rest \<noteq> []"
  then obtain r where "rest = [r]" by (auto simp: numeral_2_eq_2 split: if_splits)
  with s have "bs = m @ 0 # r" using splitn0_2_conv by blast
  then show ?thesis by simp
qed

text \<open>\<open>s.split(c)\<close>: always at least one piece.\<close>

fun split_on :: "char \<Rightarrow> string \<Rightarrow> string list" where
  "split_on c [] = [[]]"
| "split_on c (x # s) =
     (if x = c then [] # split_on c s
      else (case split_on c s of p # ps \<Rightarrow> (x # p) # ps | [] \<Rightarrow> [[x]]))"

lemma split_on_nonempty [simp]: "split_on c s \<noteq> []"
  by (induction s) (auto split: list.splits)

lemma split_on_none: "c \<notin> set s \<Longrightarrow> split_on c s = [s]"
  by (induction s) auto

lemma split_on_append: "c \<notin> set p \<Longrightarrow> split_on c (p @ c # s) = p # split_on c s"
  by (induction p) auto

lemma split_on_pieces: "c \<notin> \<Union> (set ` set (split_on c s))"
proof (induction s)
  case (Cons x s)
  then show ?case by (cases "split_on c s") auto
qed simp

lemma split_on_words:
  assumes "c \<notin> set w" and "\<forall>w \<in> set ws. c \<notin> set w"
  shows "split_on c (w @ concat (map (Cons c) ws)) = w # ws"
  using assms
proof (induction ws arbitrary: w)
  case Nil
  then show ?case by (simp add: split_on_none)
next
  case (Cons v ws)
  from Cons.prems(1) have "split_on c (w @ c # (v @ concat (map (Cons c) ws))) = w # split_on c (v @ concat (map (Cons c) ws))"
    by (rule split_on_append)
  with Cons show ?case by simp
qed

text \<open>\<open>str::find\<close> of a sub-string: the position of its first occurrence.\<close>

fun str_find :: "string \<Rightarrow> string \<Rightarrow> nat option" where
  "str_find p [] = (if p = [] then Some 0 else None)"
| "str_find p (c # s) = (if prefix p (c # s) then Some 0 else map_option Suc (str_find p s))"

lemma str_find_Some: "str_find p s = Some n \<Longrightarrow> n \<le> length s \<and> prefix p (drop n s)"
  by (induction p s arbitrary: n rule: str_find.induct) (auto split: if_splits)

lemma str_find_first: "str_find p s = Some n \<Longrightarrow> m < n \<Longrightarrow> \<not> prefix p (drop m s)"
proof (induction p s arbitrary: n m rule: str_find.induct)
  case (2 p c s)
  then show ?case by (cases m) (auto split: if_splits)
qed (auto split: if_splits)

lemma str_find_None: "str_find p s = None \<longleftrightarrow> (\<forall>n \<le> length s. \<not> prefix p (drop n s))"
proof (induction p s rule: str_find.induct)
  case (2 p c s)
  show ?case
  proof (cases "prefix p (c # s)")
    case True
    then show ?thesis by (auto intro: exI [of _ 0])
  next
    case False
    have "(\<forall>n \<le> length (c # s). \<not> prefix p (drop n (c # s))) \<longleftrightarrow>
        (\<forall>n \<le> length s. \<not> prefix p (drop n s))" (is "?l = ?r")
    proof
      assume ?l
      then show ?r by (metis Suc_le_mono drop_Suc_Cons length_Cons)
    next
      assume r: ?r
      show ?l
      proof (intro allI impI)
        fix n assume "n \<le> length (c # s)"
        with r False show "\<not> prefix p (drop n (c # s))" by (cases n) auto
      qed
    qed
    with 2 False show ?thesis by simp
  qed
qed simp

section \<open>The incoming byte stream\<close>

text \<open>
  What a peer sends on a connection: the bytes that arrive, and what happens when they run
  out (the peer closed the stream, it stays silent until the timeout of the read elapses, or the
  operating system reports an error).  \<open>read_exact\<close> of \<open>n\<close> bytes takes the next
  \<open>n\<close> bytes or ends that way.
\<close>

datatype io_kind = UnexpectedEof | BrokenPipe | ConnectionReset | OtherIo string

datatype stream_end = Closed | Silent | Broken io_kind

record stream =
  s_bytes :: bytes
  s_end :: stream_end

datatype 'a read_result = Got 'a stream | ReadErr io_kind | ReadElapsed

definition read_exact :: "nat \<Rightarrow> stream \<Rightarrow> bytes read_result" where
  "read_exact n s =
     (if n \<le> length (s_bytes s)
      then Got (take n (s_bytes s)) (s\<lparr>s_bytes := drop n (s_bytes s)\<rparr>)
      else (case s_end s of
              Closed \<Rightarrow> ReadErr UnexpectedEof
            | Silent \<Rightarrow> ReadElapsed
            | Broken k \<Rightarrow> ReadErr k))"

definition feed :: "bytes \<Rightarrow> stream \<Rightarrow> stream" where
  "feed bs s = s\<lparr>s_bytes := bs @ s_bytes s\<rparr>"

lemma read_exact_feed [simp]: "length bs = n \<Longrightarrow> read_exact n (feed bs s) = Got bs s"
  by (simp add: read_exact_def feed_def)

lemma read_exact_feed_append: "length p = n \<Longrightarrow> read_exact n (feed (p @ q) s) = Got p (feed q s)"
  by (simp add: read_exact_def feed_def)

lemma feed_append: "feed (p @ q) s = feed p (feed q s)"
  by (simp add: feed_def)

lemma feed_simps [simp]: "s_bytes (feed p s) = p @ s_bytes s" "s_end (feed p s) = s_end s"
  by (simp_all add: feed_def)

lemma read_exact_Got:
  "read_exact n s = Got bs s' \<longleftrightarrow> length bs = n \<and> s = feed bs s'"
  by (cases s; cases s')
     (auto simp: read_exact_def feed_def min_def append_eq_conv_conj split: if_splits stream_end.splits)

section \<open>Outcomes of asynchronous code\<close>

text \<open>
  An expression of an async function ends with its value, leaves the enclosing function by the
  \<open>?\<close> operator with an error, or waits for something that does not come.
\<close>

datatype ('e, 'a) eff = Done 'a | Bail 'e | Pending

type_synonym ('s, 'e, 'a) act = "'s \<Rightarrow> ('e, 'a) eff \<times> 's"

definition act_then :: "('s, 'e, 'a) act \<Rightarrow> ('a \<Rightarrow> ('s, 'e, 'b) act) \<Rightarrow> ('s, 'e, 'b) act" where
  "act_then m k s =
     (case m s of (Done x, s') \<Rightarrow> k x s' | (Bail e, s') \<Rightarrow> (Bail e, s') | (Pending, s') \<Rightarrow> (Pending, s'))"

lemma act_then_simps:
  "m s = (Done x, s') \<Longrightarrow> act_then m k s = k x s'"
  "m s = (Bail e, s') \<Longrightarrow> act_then m k s = (Bail e, s')"
  "m s = (Pending, s') \<Longrightarrow> act_then m k s = (Pending, s')"
  by (simp_all add: act_then_def)

lemma act_then_Done:
  "act_then m k s = (Done y, t) \<longleftrightarrow> (\<exists>x s'. m s = (Done x, s') \<and> k x s' = (Done y, t))"
  by (auto simp: act_then_def split: prod.splits eff.splits)

text \<open>A state predicate every step keeps is kept by a sequence.\<close>

lemma act_then_keeps:
  assumes "P s" and "\<And>s. P s \<Longrightarrow> P (snd (m s))" and "\<And>x s. P s \<Longrightarrow> P (snd (k x s))"
  shows "P (snd (act_then m k s))"
proof -
  have p: "P (snd (m s))" using assms(1,2) by blast
  then show ?thesis using assms(3) [of "snd (m s)"]
    by (auto simp: act_then_def split: prod.splits eff.splits)
qed

end
