(* ===== verification/Bus_Core.thy ===== *)
theory Bus_Core
  imports Bus_Prelude
begin

text \<open>
  The crate root \<open>src/src/lib.rs\<close> with \<open>borrow.rs\<close> and the \<open>Flush\<close> type of \<open>comm.rs\<close>: the
  protocol constants, error kinds and errors, frame operations, QoS levels, frame kinds and the
  frame itself.  The lemmas show how the enums correspond to their wire codes and that the flags
  byte carries an operation and a QoS level without loss.
\<close>

section \<open>Constants\<close>

definition OP_NOP :: u8 where [simp]: "OP_NOP = 0x00"
definition OP_PUBLISH :: u8 where [simp]: "OP_PUBLISH = 0x01"
definition OP_SUBSCRIBE :: u8 where [simp]: "OP_SUBSCRIBE = 0x02"
definition OP_UNSUBSCRIBE :: u8 where [simp]: "OP_UNSUBSCRIBE = 0x03"
definition OP_EXCLUDE :: u8 where [simp]: "OP_EXCLUDE = 0x04"
definition OP_UNEXCLUDE :: u8 where [simp]: "OP_UNEXCLUDE = 0x05"
definition OP_PUBLISH_FOR :: u8 where [simp]: "OP_PUBLISH_FOR = 0x06"
definition OP_MESSAGE :: u8 where [simp]: "OP_MESSAGE = 0x12"
definition OP_BROADCAST :: u8 where [simp]: "OP_BROADCAST = 0x13"
definition OP_ACK :: u8 where [simp]: "OP_ACK = 0xFE"

definition PROTOCOL_VERSION :: u16 where [simp]: "PROTOCOL_VERSION = 0x01"
definition RESPONSE_OK :: u8 where [simp]: "RESPONSE_OK = 0x01"
definition PING_FRAME :: bytes where "PING_FRAME = [0, 0, 0, 0, 0, 0, 0, 0, 0]"

definition ERR_CLIENT_NOT_REGISTERED :: u8 where [simp]: "ERR_CLIENT_NOT_REGISTERED = 0x71"
definition ERR_DATA :: u8 where [simp]: "ERR_DATA = 0x72"
definition ERR_IO :: u8 where [simp]: "ERR_IO = 0x73"
definition ERR_OTHER :: u8 where [simp]: "ERR_OTHER = 0x74"
definition ERR_NOT_SUPPORTED :: u8 where [simp]: "ERR_NOT_SUPPORTED = 0x75"
definition ERR_BUSY :: u8 where [simp]: "ERR_BUSY = 0x76"
definition ERR_NOT_DELIVERED :: u8 where [simp]: "ERR_NOT_DELIVERED = 0x77"
definition ERR_TIMEOUT :: u8 where [simp]: "ERR_TIMEOUT = 0x78"
definition ERR_ACCESS :: u8 where [simp]: "ERR_ACCESS = 0x79"

definition GREETINGS :: bytes where "GREETINGS = [0xEB]"
definition SECONDARY_SEP :: string where "SECONDARY_SEP = ''%%''"

lemmas const_defs [bus_defs] = PING_FRAME_def GREETINGS_def SECONDARY_SEP_def

section \<open>Errors\<close>

datatype ErrorKind =
  NotRegistered | NotSupported | Io | Timeout | Data | Busy | NotDelivered | Access | Other | Eof

fun kind_code :: "ErrorKind \<Rightarrow> u8" where
  "kind_code NotRegistered = ERR_CLIENT_NOT_REGISTERED"
| "kind_code NotSupported = ERR_NOT_SUPPORTED"
| "kind_code Io = ERR_IO"
| "kind_code Timeout = ERR_TIMEOUT"
| "kind_code Data = ERR_DATA"
| "kind_code Busy = ERR_BUSY"
| "kind_code NotDelivered = ERR_NOT_DELIVERED"
| "kind_code Access = ERR_ACCESS"
| "kind_code Other = ERR_OTHER"
| "kind_code Eof = 0xff"

definition kind_from :: "u8 \<Rightarrow> ErrorKind" where
  "kind_from code =
     (if code = ERR_CLIENT_NOT_REGISTERED then NotRegistered
      else if code = ERR_NOT_SUPPORTED then NotSupported
      else if code = ERR_IO then Io
      else if code = ERR_DATA then Data
      else if code = ERR_BUSY then Busy
      else if code = ERR_NOT_DELIVERED then NotDelivered
      else if code = ERR_ACCESS then Access
      else Other)"

fun kind_display :: "ErrorKind \<Rightarrow> string" where
  "kind_display NotRegistered = ''Client not registered''"
| "kind_display NotSupported = ''Feature not supported''"
| "kind_display Io = ''I/O Error''"
| "kind_display Timeout = ''Timeout''"
| "kind_display Data = ''Data Error''"
| "kind_display Busy = ''Busy''"
| "kind_display NotDelivered = ''Frame not delivered''"
| "kind_display Other = ''Error''"
| "kind_display Access = ''Access denied''"
| "kind_display Eof = ''Eof''"

text \<open>
  Error texts are built from the literals of the source and from what the \<open>Display\<close> of an
  error of the standard library or of another crate prints, which is kept uninterpreted.
\<close>

datatype foreign = Utf8Error bytes | TryFromSliceError | IoError io_kind | ExternError string

datatype frag = Lit string | Shown foreign

type_synonym etext = "frag list"

record error =
  e_kind :: ErrorKind
  e_message :: "etext option"

definition error_new :: "ErrorKind \<Rightarrow> etext option \<Rightarrow> error" where
  "error_new k m = \<lparr>e_kind = k, e_message = m\<rparr>"

definition err_io :: "etext \<Rightarrow> error" where "err_io t = error_new Io (Some t)"
definition err_data :: "etext \<Rightarrow> error" where "err_data t = error_new Data (Some t)"
definition err_access :: "etext \<Rightarrow> error" where "err_access t = error_new Access (Some t)"
definition err_not_supported :: "etext \<Rightarrow> error" where
  "err_not_supported t = error_new NotSupported (Some t)"
definition err_not_registered :: error where "err_not_registered = error_new NotRegistered None"
definition err_not_delivered :: error where "err_not_delivered = error_new NotDelivered None"
definition err_timeout :: error where "err_timeout = error_new Timeout None"
definition err_busy :: "etext \<Rightarrow> error" where "err_busy t = error_new Busy (Some t)"
definition err_eof :: error where "err_eof = error_new Eof None"

lemmas err_defs [bus_defs] = error_new_def err_io_def err_data_def err_access_def
  err_not_supported_def err_not_registered_def err_not_delivered_def err_timeout_def
  err_busy_def err_eof_def

lemma err_kinds [simp]:
  "e_kind (error_new k m) = k" "e_kind (err_io t) = Io" "e_kind (err_data t) = Data"
  "e_kind (err_access t) = Access" "e_kind (err_not_supported t) = NotSupported"
  "e_kind err_not_registered = NotRegistered" "e_kind err_not_delivered = NotDelivered"
  "e_kind err_timeout = Timeout" "e_kind (err_busy t) = Busy" "e_kind err_eof = Eof"
  by (simp_all add: err_defs)

definition error_display :: "error \<Rightarrow> etext" where
  "error_display e = (case e_message e of
     Some m \<Rightarrow> [Lit (kind_display (e_kind e)), Lit '': ''] @ m
   | None \<Rightarrow> [Lit (kind_display (e_kind e))])"

definition to_busrt_result :: "u8 \<Rightarrow> error + unit" where
  "to_busrt_result code =
     (if code = RESPONSE_OK then Inr () else Inl (error_new (kind_from code) None))"

text \<open>\<open>impl From<std::io::Error> for Error\<close>, by value and by reference.\<close>

definition err_from_io :: "io_kind \<Rightarrow> error" where
  "err_from_io k =
     (if k = UnexpectedEof \<or> k = BrokenPipe \<or> k = ConnectionReset then err_eof
      else err_io [Shown (IoError k)])"

definition err_from_utf8 :: "bytes \<Rightarrow> error" where
  "err_from_utf8 bs = err_data [Shown (Utf8Error bs)]"

text \<open>\<open>std::str::from_utf8(bs)?\<close>\<close>

definition parse_str :: "bytes \<Rightarrow> error + string" where
  "parse_str bs = (case from_utf8 bs of Some s \<Rightarrow> Inr s | None \<Rightarrow> Inl (err_from_utf8 bs))"

lemma parse_str_as_bytes [wire_simps]: "str_ok s \<Longrightarrow> parse_str (as_bytes s) = Inr s"
  by (simp add: parse_str_def from_utf8_as_bytes)

lemma parse_str_InrD: "parse_str bs = Inr s \<Longrightarrow> bs = as_bytes s \<and> str_ok s"
  by (auto simp: parse_str_def dest: from_utf8_SomeD split: option.splits)

section \<open>Frame operations, QoS, frame kinds\<close>

datatype FrameOp =
  OpNop | OpMessage | OpBroadcast | OpPublishTopic | OpPublishTopicFor | OpSubscribeTopic
| OpUnsubscribeTopic | OpExcludeTopic | OpUnexcludeTopic

fun op_code :: "FrameOp \<Rightarrow> u8" where
  "op_code OpNop = OP_NOP"
| "op_code OpMessage = OP_MESSAGE"
| "op_code OpBroadcast = OP_BROADCAST"
| "op_code OpPublishTopic = OP_PUBLISH"
| "op_code OpPublishTopicFor = OP_PUBLISH_FOR"
| "op_code OpSubscribeTopic = OP_SUBSCRIBE"
| "op_code OpUnsubscribeTopic = OP_UNSUBSCRIBE"
| "op_code OpExcludeTopic = OP_EXCLUDE"
| "op_code OpUnexcludeTopic = OP_UNEXCLUDE"

definition op_try_from :: "u8 \<Rightarrow> error + FrameOp" where
  "op_try_from tp =
     (if tp = OP_NOP then Inr OpNop
      else if tp = OP_MESSAGE then Inr OpMessage
      else if tp = OP_BROADCAST then Inr OpBroadcast
      else if tp = OP_PUBLISH then Inr OpPublishTopic
      else if tp = OP_PUBLISH_FOR then Inr OpPublishTopicFor
      else if tp = OP_SUBSCRIBE then Inr OpSubscribeTopic
      else if tp = OP_UNSUBSCRIBE then Inr OpUnsubscribeTopic
      else if tp = OP_EXCLUDE then Inr OpExcludeTopic
      else if tp = OP_UNEXCLUDE then Inr OpUnexcludeTopic
      else Inl (err_data [Lit ''Invalid frame type: '', Lit (show_nat (unat tp))]))"

datatype QoS = QosNo | Processed | Realtime | RealtimeProcessed

fun qos_code :: "QoS \<Rightarrow> u8" where
  "qos_code QosNo = 0"
| "qos_code Processed = 1"
| "qos_code Realtime = 2"
| "qos_code RealtimeProcessed = 3"

definition is_realtime :: "QoS \<Rightarrow> bool" where
  "is_realtime q \<longleftrightarrow> qos_code q AND 0b10 \<noteq> 0"

definition needs_ack :: "QoS \<Rightarrow> bool" where
  "needs_ack q \<longleftrightarrow> qos_code q AND 0b1 \<noteq> 0"

lemma qos_bits [simp]:
  "\<not> is_realtime QosNo" "\<not> is_realtime Processed" "is_realtime Realtime" "is_realtime RealtimeProcessed"
  "\<not> needs_ack QosNo" "needs_ack Processed" "\<not> needs_ack Realtime" "needs_ack RealtimeProcessed"
  by (simp_all add: is_realtime_def needs_ack_def)

definition qos_try_from :: "u8 \<Rightarrow> error + QoS" where
  "qos_try_from q =
     (if q = 0 then Inr QosNo
      else if q = 1 then Inr Processed
      else if q = 2 then Inr Realtime
      else if q = 3 then Inr RealtimeProcessed
      else Inl (err_data [Lit ''Invalid QoS: '', Lit (show_nat (unat q))]))"

datatype FrameKind = KPrepared | KMessage | KBroadcast | KPublish | KAcknowledge | KNop

fun frame_kind_code :: "FrameKind \<Rightarrow> u8" where
  "frame_kind_code KPrepared = 0xff"
| "frame_kind_code KMessage = OP_MESSAGE"
| "frame_kind_code KBroadcast = OP_BROADCAST"
| "frame_kind_code KPublish = OP_PUBLISH"
| "frame_kind_code KAcknowledge = OP_ACK"
| "frame_kind_code KNop = OP_NOP"

definition frame_kind_try_from :: "u8 \<Rightarrow> error + FrameKind" where
  "frame_kind_try_from code =
     (if code = OP_MESSAGE then Inr KMessage
      else if code = OP_BROADCAST then Inr KBroadcast
      else if code = OP_PUBLISH then Inr KPublish
      else if code = OP_ACK then Inr KAcknowledge
      else if code = OP_NOP then Inr KNop
      else Inl (err_data [Lit ''Invalid frame type: '', Lit (show_hex (unat code))]))"

section \<open>Frames\<close>

record frame =
  f_kind :: FrameKind
  f_sender :: "string option"
  f_topic :: "string option"
  f_header :: "bytes option"
  f_buf :: bytes
  f_payload_pos :: usize
  f_realtime :: bool

definition frame_new ::
  "FrameKind \<Rightarrow> string option \<Rightarrow> string option \<Rightarrow> bytes option \<Rightarrow> bytes \<Rightarrow> usize \<Rightarrow> bool \<Rightarrow> frame" where
  "frame_new kind sender topic header buf payload_pos realtime =
     \<lparr>f_kind = kind, f_sender = sender, f_topic = topic, f_header = header, f_buf = buf,
      f_payload_pos = payload_pos, f_realtime = realtime\<rparr>"

definition new_nop :: frame where
  "new_nop = frame_new KNop None None None [] 0 False"

text \<open>\<open>None\<close> is a panic: \<open>unwrap\<close> of a missing sender, a slice past the end of the buffer.\<close>

definition frame_sender :: "frame \<Rightarrow> string option" where
  "frame_sender f = f_sender f"

definition primary_of :: "string \<Rightarrow> string" where
  "primary_of name = (case str_find SECONDARY_SEP name of Some pos \<Rightarrow> take pos name | None \<Rightarrow> name)"

definition frame_primary_sender :: "frame \<Rightarrow> string option" where
  "frame_primary_sender f = map_option primary_of (f_sender f)"

definition frame_payload :: "frame \<Rightarrow> bytes option" where
  "frame_payload f = (if f_payload_pos f \<le> length (f_buf f) then Some (drop (f_payload_pos f) (f_buf f)) else None)"

lemmas frame_defs [bus_defs] = frame_new_def new_nop_def frame_payload_def

section \<open>Borrowed payloads and flush modes\<close>

datatype cow = Borrowed bytes | Owned bytes | Referenced bytes

fun cow_slice :: "cow \<Rightarrow> bytes" where
  "cow_slice (Borrowed v) = v"
| "cow_slice (Owned v) = v"
| "cow_slice (Referenced v) = v"

fun cow_to_vec :: "cow \<Rightarrow> bytes" where
  "cow_to_vec (Borrowed v) = v"
| "cow_to_vec (Owned v) = v"
| "cow_to_vec (Referenced v) = v"

fun cow_len :: "cow \<Rightarrow> usize" where
  "cow_len (Borrowed v) = length v"
| "cow_len (Owned v) = length v"
| "cow_len (Referenced v) = length v"

fun cow_is_empty :: "cow \<Rightarrow> bool" where
  "cow_is_empty (Borrowed v) = (v = [])"
| "cow_is_empty (Owned v) = (v = [])"
| "cow_is_empty (Referenced v) = (v = [])"

lemma cow_views [simp]:
  "cow_to_vec c = cow_slice c" "cow_len c = length (cow_slice c)" "cow_is_empty c \<longleftrightarrow> cow_slice c = []"
  by (cases c; simp)+

datatype Flush = FlushNo | FlushScheduled | FlushInstant

definition flush_from :: "bool \<Rightarrow> Flush" where
  "flush_from realtime = (if realtime then FlushInstant else FlushScheduled)"

section \<open>Codes and enums\<close>

lemma op_try_from_code [wire_simps]: "op_try_from (op_code op) = Inr op"
  by (cases op) (simp_all add: op_try_from_def)

lemma op_try_from_Inr: "op_try_from b = Inr op \<Longrightarrow> b = op_code op"
  by (auto simp: op_try_from_def split: if_splits)

lemma qos_try_from_code [wire_simps]: "qos_try_from (qos_code q) = Inr q"
  by (cases q) (simp_all add: qos_try_from_def)

lemma frame_kind_try_from_code [wire_simps]:
  "k \<noteq> KPrepared \<Longrightarrow> frame_kind_try_from (frame_kind_code k) = Inr k"
  by (cases k) (simp_all add: frame_kind_try_from_def)

lemma frame_kind_try_from_Inr: "frame_kind_try_from b = Inr k \<Longrightarrow> b = frame_kind_code k \<and> k \<noteq> KPrepared"
  by (auto simp: frame_kind_try_from_def split: if_splits)

text \<open>The flags byte \<open>op as u8 | (qos as u8) << 6\<close> of a client frame.\<close>

definition frame_flags :: "FrameOp \<Rightarrow> QoS \<Rightarrow> u8" where
  "frame_flags op qos = op_code op OR push_bit 6 (qos_code qos)"

definition flags_op :: "u8 \<Rightarrow> error + FrameOp" where
  "flags_op flags = op_try_from (flags AND 0b00111111)"

definition flags_qos :: "u8 \<Rightarrow> error + QoS" where
  "flags_qos flags = qos_try_from (drop_bit 6 flags AND 0b00111111)"

lemma flags_op_frame_flags [wire_simps]: "flags_op (frame_flags op qos) = Inr op"
  by (cases op; cases qos) (simp_all add: flags_op_def frame_flags_def op_try_from_def push_bit_eq_mult)

lemma flags_qos_frame_flags [wire_simps]: "flags_qos (frame_flags op qos) = Inr qos"
  by (cases op; cases qos)
     (simp_all add: flags_qos_def frame_flags_def qos_try_from_def push_bit_eq_mult drop_bit_eq_div)

lemma frame_flags_zero: "frame_flags op qos = 0 \<longleftrightarrow> op = OpNop \<and> qos = QosNo"
  by (cases op; cases qos) (simp_all add: frame_flags_def push_bit_eq_mult)

lemma primary_of_idem [simp]: "primary_of (primary_of name) = primary_of name"
proof (cases "str_find SECONDARY_SEP name")
  case None
  then show ?thesis by (simp add: primary_of_def)
next
  case (Some n)
  have "str_find SECONDARY_SEP (take n name) = None"
  proof (rule ccontr)
    assume "str_find SECONDARY_SEP (take n name) \<noteq> None"
    then obtain m where m: "str_find SECONDARY_SEP (take n name) = Some m" by blast
    then have "prefix SECONDARY_SEP (drop m (take n name))" and le: "m \<le> length (take n name)"
      using str_find_Some by blast+
    then have p: "prefix SECONDARY_SEP (take (n - m) (drop m name))"
      by (simp add: drop_take)
    then have "prefix SECONDARY_SEP (drop m name)"
      using take_is_prefix prefix_order.trans by blast
    moreover have "m < n"
    proof -
      have "0 < length SECONDARY_SEP" by (simp add: SECONDARY_SEP_def)
      also have "\<dots> \<le> length (take (n - m) (drop m name))" using p by (rule prefix_length_le)
      finally show ?thesis by simp
    qed
    ultimately show False using str_find_first [OF Some] by blast
  qed
  with Some show ?thesis by (simp add: primary_of_def)
qed

end
