(* ===== verification/Bus_Libs.thy ===== *)
theory Bus_Libs
  imports Bus_Core
begin

text \<open>
  The crates the broker is built on and whose code is not part of the repository: \<open>submap\<close>
  (subscription map, broadcast map, access-control map, digest), \<open>async_channel\<close>,
  \<open>rmp_serde\<close> and \<open>ipnetwork\<close>.  Their operations are the fields of a record, an argument of
  every definition that calls them.  The locales state the behaviour the broker relies on, through a
  view of each structure; \<open>ref_ctx\<close> is an executable implementation that satisfies them, used to
  evaluate concrete runs.

  The same record carries what the environment does during one call: the clock, and how a send that
  waits for room in the queue of an internal client ends.
\<close>

section \<open>Interfaces\<close>

type_synonym cid = nat
type_synonym digest = bytes

text \<open>An \<open>Arc<BusRtClient>\<close> as the maps see it: compared by its digest.\<close>

type_synonym cref = "digest \<times> cid"

datatype 'ch send_poll = Sent 'ch | SendClosed | SendFull

datatype waited = Drained nat | ReceiverGone | Elapsed

datatype ip_addr = V4 "32 word" | V6 "128 word"

type_synonym ip_network = string

record ('sm, 'bm, 'am, 'ch) ctx =
  sha256 :: "string \<Rightarrow> digest"
  sm_new :: "char \<Rightarrow> string \<Rightarrow> string \<Rightarrow> 'sm"
  sm_register_client :: "cref \<Rightarrow> 'sm \<Rightarrow> 'sm"
  sm_unregister_client :: "cref \<Rightarrow> 'sm \<Rightarrow> 'sm"
  sm_subscribe :: "string \<Rightarrow> cref \<Rightarrow> 'sm \<Rightarrow> bool \<times> 'sm"
  sm_unsubscribe :: "string \<Rightarrow> cref \<Rightarrow> 'sm \<Rightarrow> bool \<times> 'sm"
  sm_get_subscribers :: "string \<Rightarrow> 'sm \<Rightarrow> cref list"
  bm_new :: "char \<Rightarrow> string \<Rightarrow> string \<Rightarrow> 'bm"
  bm_register_client :: "string \<Rightarrow> cref \<Rightarrow> 'bm \<Rightarrow> 'bm"
  bm_unregister_client :: "string \<Rightarrow> cref \<Rightarrow> 'bm \<Rightarrow> 'bm"
  bm_get_clients_by_mask :: "string \<Rightarrow> 'bm \<Rightarrow> cref list"
  am_default :: "'am"
  am_new :: "char \<Rightarrow> string \<Rightarrow> string \<Rightarrow> 'am"
  am_insert :: "string \<Rightarrow> 'am \<Rightarrow> 'am"
  am_remove :: "string \<Rightarrow> 'am \<Rightarrow> 'am"
  am_matches :: "string \<Rightarrow> 'am \<Rightarrow> bool"
  am_is_empty :: "'am \<Rightarrow> bool"
  ch_bounded :: "usize \<Rightarrow> 'ch"
  ch_is_full :: "'ch \<Rightarrow> bool"
  ch_len :: "'ch \<Rightarrow> usize"
  ch_send :: "frame \<Rightarrow> 'ch \<Rightarrow> 'ch send_poll"
  ch_close :: "'ch \<Rightarrow> 'ch"
  ch_drain :: "nat \<Rightarrow> 'ch \<Rightarrow> 'ch"
  rmp_event :: "string \<Rightarrow> string option \<Rightarrow> u64 \<Rightarrow> string + bytes"
  net_contains :: "ip_network \<Rightarrow> ip_addr \<Rightarrow> bool"
  now_ns :: u64
  waits :: "cid \<Rightarrow> waited"

section \<open>What the broker relies on\<close>

text \<open>
  \<open>submap::SubMap\<close>: a client is registered at most once (clients are equal when their digests
  are), a registered client has a set of subscribed masks, and the subscribers of a topic are the
  registered clients with a mask that matches it, each once.  Operations through another object with the same
  digest, which is what is left of a client that was replaced by force, act on the registered one; the
  documentation of the crate does not say which of the two objects it keeps for the topics subscribed this way.
\<close>

locale sub_map =
  fixes X :: "('sm, 'bm, 'am, 'ch) ctx"
    and smv :: "'sm \<Rightarrow> digest \<Rightarrow> (cid \<times> string set) option"
    and topic_match :: "string \<Rightarrow> string \<Rightarrow> bool"
  assumes smv_new: "smv (sm_new X sep any wild) = (\<lambda>_. None)"
    and smv_register: "smv (sm_register_client X (d, c) m) =
      (if smv m d = None then (smv m)(d \<mapsto> (c, {})) else smv m)"
    and smv_unregister: "smv (sm_unregister_client X (d, c) m) = (smv m)(d := None)"
    and smv_subscribe: "sm_subscribe X t (d, c) m = (ok, m') \<Longrightarrow>
      ok = (smv m d \<noteq> None) \<and>
      smv m' = (case smv m d of Some (c', S) \<Rightarrow> (smv m)(d \<mapsto> (c', insert t S)) | None \<Rightarrow> smv m)"
    and smv_unsubscribe: "sm_unsubscribe X t (d, c) m = (ok, m') \<Longrightarrow>
      ok = (smv m d \<noteq> None) \<and>
      smv m' = (case smv m d of Some (c', S) \<Rightarrow> (smv m)(d \<mapsto> (c', S - {t})) | None \<Rightarrow> smv m)"
    and smv_subscribers: "set (sm_get_subscribers X t m) =
      {(d, c). \<exists>S. smv m d = Some (c, S) \<and> (\<exists>k \<in> S. topic_match k t)}"
    and smv_distinct: "distinct (sm_get_subscribers X t m)"
    and topic_match_self: "topic_match t t"

text \<open>\<open>submap::BroadcastMap\<close>: registered clients by name, found by a name mask.\<close>

locale broadcast_map =
  fixes X :: "('sm, 'bm, 'am, 'ch) ctx"
    and bmv :: "'bm \<Rightarrow> digest \<Rightarrow> (cid \<times> string) option"
    and name_match :: "string \<Rightarrow> string \<Rightarrow> bool"
  assumes bmv_new: "bmv (bm_new X sep any wild) = (\<lambda>_. None)"
    and bmv_register: "bmv (bm_register_client X n (d, c) m) =
      (if bmv m d = None then (bmv m)(d \<mapsto> (c, n)) else bmv m)"
    and bmv_unregister: "bmv (bm_unregister_client X n (d, c) m) = (bmv m)(d := None)"
    and bmv_by_mask: "set (bm_get_clients_by_mask X k m) =
      {(d, c). \<exists>n. bmv m d = Some (c, n) \<and> name_match k n}"
    and bmv_distinct: "distinct (bm_get_clients_by_mask X k m)"

text \<open>\<open>submap::AclMap\<close>: a set of masks.\<close>

locale acl_map =
  fixes X :: "('sm, 'bm, 'am, 'ch) ctx"
    and amv :: "'am \<Rightarrow> string set"
    and acl_match :: "'am \<Rightarrow> string \<Rightarrow> string \<Rightarrow> bool"
  assumes amv_default: "amv (am_default X) = {}"
    and amv_new: "amv (am_new X sep any wild) = {}"
    and amv_insert: "amv (am_insert X k a) = insert k (amv a)"
    and amv_remove: "amv (am_remove X k a) = amv a - {k}"
    and amv_matches: "am_matches X t a \<longleftrightarrow> (\<exists>k \<in> amv a. acl_match a k t)"
    and amv_is_empty: "am_is_empty X a \<longleftrightarrow> amv a = {}"
    and acl_match_insert: "acl_match (am_insert X k a) = acl_match a"
    and acl_match_remove: "acl_match (am_remove X k a) = acl_match a"

text \<open>
  \<open>async_channel::bounded\<close>: a queue with a capacity; sending to a closed channel fails, sending to
  a full one waits, otherwise the value is appended.
\<close>

locale bounded_channel =
  fixes X :: "('sm, 'bm, 'am, 'ch) ctx"
    and chq :: "'ch \<Rightarrow> frame list"
    and chcap :: "'ch \<Rightarrow> nat"
    and chclosed :: "'ch \<Rightarrow> bool"
  assumes ch_bounded: "0 < n \<Longrightarrow> chq (ch_bounded X n) = [] \<and> chcap (ch_bounded X n) = n
      \<and> \<not> chclosed (ch_bounded X n)"
    and ch_is_full: "ch_is_full X ch \<longleftrightarrow> chcap ch \<le> length (chq ch)"
    and ch_len: "ch_len X ch = length (chq ch)"
    and ch_send_closed: "chclosed ch \<Longrightarrow> ch_send X f ch = SendClosed"
    and ch_send_full: "\<not> chclosed ch \<Longrightarrow> chcap ch \<le> length (chq ch) \<Longrightarrow> ch_send X f ch = SendFull"
    and ch_send_ok: "\<not> chclosed ch \<Longrightarrow> length (chq ch) < chcap ch \<Longrightarrow>
      \<exists>ch'. ch_send X f ch = Sent ch' \<and> chq ch' = chq ch @ [f] \<and> chcap ch' = chcap ch \<and> \<not> chclosed ch'"
    and ch_close: "chq (ch_close X ch) = chq ch \<and> chcap (ch_close X ch) = chcap ch
      \<and> chclosed (ch_close X ch)"
    and ch_drain: "chq (ch_drain X n ch) = drop n (chq ch) \<and> chcap (ch_drain X n ch) = chcap ch
      \<and> (chclosed (ch_drain X n ch) \<longleftrightarrow> chclosed ch)"
begin

lemma ch_send_Sent:
  "ch_send X f ch = Sent ch' \<longleftrightarrow>
     \<not> chclosed ch \<and> length (chq ch) < chcap ch \<and> ch_send X f ch = Sent ch'
     \<and> chq ch' = chq ch @ [f] \<and> chcap ch' = chcap ch \<and> \<not> chclosed ch'"
  using ch_send_closed [of ch f] ch_send_full [of ch f] ch_send_ok [of ch f]
  by (cases "chclosed ch"; cases "length (chq ch) < chcap ch") auto

lemma ch_send_not_full: "\<not> ch_is_full X ch \<Longrightarrow> ch_send X f ch \<noteq> SendFull"
  using ch_send_closed [of ch f] ch_send_ok [of ch f]
  by (cases "chclosed ch") (auto simp: ch_is_full)

end

text \<open>All of them together, as the broker uses them.\<close>

locale broker_libs =
  sub_map X smv topic_match + broadcast_map X bmv name_match + acl_map X amv acl_match +
  bounded_channel X chq chcap chclosed
  for X :: "('sm, 'bm, 'am, 'ch) ctx" and smv topic_match bmv name_match amv acl_match chq chcap chclosed

section \<open>An executable implementation\<close>

text \<open>Masks: levels separated by \<open>sep\<close>, one level for any, the rest for the wildcard.\<close>

fun levels_match :: "string \<Rightarrow> string \<Rightarrow> string list \<Rightarrow> string list \<Rightarrow> bool" where
  "levels_match any wild [] ts = (ts = [])"
| "levels_match any wild (k # ks) ts =
     (k = wild \<or> (case ts of [] \<Rightarrow> False | t # ts' \<Rightarrow> (k = any \<or> k = t) \<and> levels_match any wild ks ts'))"

definition mask_match :: "char \<Rightarrow> string \<Rightarrow> string \<Rightarrow> string \<Rightarrow> string \<Rightarrow> bool" where
  "mask_match sep any wild k t = levels_match any wild (split_on sep k) (split_on sep t)"

lemma levels_match_self: "levels_match any wild ks ks"
  by (induction ks) auto

type_synonym ref_sm = "(digest \<times> cid \<times> string list) list"
type_synonym ref_bm = "(digest \<times> cid \<times> string) list"
type_synonym ref_am = "(char \<times> string \<times> string) \<times> string list"
type_synonym ref_ch = "nat \<times> bool \<times> frame list"

definition ref_lookup :: "(digest \<times> 'v) list \<Rightarrow> digest \<Rightarrow> 'v option" where
  "ref_lookup m d = map_of m d"

definition ref_delete :: "digest \<Rightarrow> (digest \<times> 'v) list \<Rightarrow> (digest \<times> 'v) list" where
  "ref_delete d m = filter (\<lambda>e. fst e \<noteq> d) m"

fun ref_update :: "digest \<Rightarrow> ('v \<Rightarrow> 'v) \<Rightarrow> (digest \<times> 'v) list \<Rightarrow> (digest \<times> 'v) list" where
  "ref_update d f [] = []"
| "ref_update d f ((e, v) # m) = (if e = d then (e, f v) # m else (e, v) # ref_update d f m)"

lemma map_of_ref_delete: "map_of (ref_delete d m) = (map_of m)(d := None)"
  by (induction m) (auto simp: ref_delete_def fun_eq_iff)

lemma map_of_ref_update:
  "map_of (ref_update d f m) =
     (case map_of m d of Some v \<Rightarrow> (map_of m)(d \<mapsto> f v) | None \<Rightarrow> map_of m)"
  by (induction m) (auto simp: fun_eq_iff split: option.splits)

text \<open>The first entry of each key: the view of an association list as a finite set of entries.\<close>

fun entries :: "(digest \<times> 'v) list \<Rightarrow> (digest \<times> 'v) list" where
  "entries [] = []"
| "entries ((d, v) # m) = (d, v) # filter (\<lambda>e. fst e \<noteq> d) (entries m)"

lemma set_entries: "set (entries m) = {(d, v). map_of m d = Some v}"
proof (induction m)
  case (Cons e m)
  then show ?case by (cases e) (auto split: if_splits)
qed simp

lemma distinct_entries: "distinct (map fst (entries m))"
proof (induction m)
  case (Cons e m)
  have "distinct (map fst (filter P (entries m)))" for P
    using Cons by (induction "entries m" arbitrary: m) (auto simp: distinct_map intro: inj_on_subset)
  then show ?case by (cases e) auto
qed simp

definition ref_ctx :: "(ref_sm, ref_bm, ref_am, ref_ch) ctx" where
  "ref_ctx = \<lparr>
     sha256 = as_bytes,
     sm_new = (\<lambda>_ _ _. []),
     sm_register_client = (\<lambda>(d, c) m. if map_of m d = None then (d, c, []) # m else m),
     sm_unregister_client = (\<lambda>(d, c) m. ref_delete d m),
     sm_subscribe = (\<lambda>t (d, c) m.
       (map_of m d \<noteq> None, ref_update d (\<lambda>(c', ts). (c', List.insert t ts)) m)),
     sm_unsubscribe = (\<lambda>t (d, c) m.
       (map_of m d \<noteq> None, ref_update d (\<lambda>(c', ts). (c', removeAll t ts)) m)),
     sm_get_subscribers = (\<lambda>t m. map (\<lambda>(d, c, ts). (d, c))
       (filter (\<lambda>(d, c, ts). list_ex (\<lambda>k. mask_match CHR ''/'' ''+'' ''#'' k t) ts) (entries m))),
     bm_new = (\<lambda>_ _ _. []),
     bm_register_client = (\<lambda>n (d, c) m. if map_of m d = None then (d, c, n) # m else m),
     bm_unregister_client = (\<lambda>n (d, c) m. ref_delete d m),
     bm_get_clients_by_mask = (\<lambda>k m. map (\<lambda>(d, c, n). (d, c))
       (filter (\<lambda>(d, c, n). mask_match CHR ''.'' ''?'' ''*'' k n) (entries m))),
     am_default = ((CHR ''/'', ''+'', ''#''), []),
     am_new = (\<lambda>sep any wild. ((sep, any, wild), [])),
     am_insert = (\<lambda>k (cfg, ks). (cfg, List.insert k ks)),
     am_remove = (\<lambda>k (cfg, ks). (cfg, removeAll k ks)),
     am_matches = (\<lambda>t ((sep, any, wild), ks). list_ex (\<lambda>k. mask_match sep any wild k t) ks),
     am_is_empty = (\<lambda>(cfg, ks). ks = []),
     ch_bounded = (\<lambda>n. (n, False, [])),
     ch_is_full = (\<lambda>(n, cl, q). n \<le> length q),
     ch_len = (\<lambda>(n, cl, q). length q),
     ch_send = (\<lambda>f (n, cl, q). if cl then SendClosed else if n \<le> length q then SendFull
                              else Sent (n, cl, q @ [f])),
     ch_close = (\<lambda>(n, cl, q). (n, True, q)),
     ch_drain = (\<lambda>k (n, cl, q). (n, cl, drop k q)),
     rmp_event = (\<lambda>s d t. Inr (as_bytes s)),
     net_contains = (\<lambda>net ip. net = ''0.0.0.0/0''),
     now_ns = 0,
     waits = (\<lambda>_. Elapsed)\<rparr>"

definition ref_smv :: "ref_sm \<Rightarrow> digest \<Rightarrow> (cid \<times> string set) option" where
  "ref_smv m d = map_option (\<lambda>(c, ts). (c, set ts)) (map_of m d)"

definition ref_acl_match :: "ref_am \<Rightarrow> string \<Rightarrow> string \<Rightarrow> bool" where
  "ref_acl_match a k t = (case fst a of (sep, any, wild) \<Rightarrow> mask_match sep any wild k t)"

lemma ref_projected:
  assumes "distinct (map fst xs)"
  shows "distinct (map (\<lambda>(d, c, v). (d, c)) (filter P xs))"
  using assms by (induction xs) (auto simp: image_iff)

interpretation ref: sub_map ref_ctx ref_smv "mask_match CHR ''/'' ''+'' ''#''"
proof
  fix t d c m ok m'
  show "sm_subscribe ref_ctx t (d, c) m = (ok, m') \<Longrightarrow> ok = (ref_smv m d \<noteq> None) \<and>
    ref_smv m' = (case ref_smv m d of Some (c', S) \<Rightarrow> (ref_smv m)(d \<mapsto> (c', insert t S)) | None \<Rightarrow> ref_smv m)"
    by (auto simp: ref_ctx_def ref_smv_def fun_eq_iff map_of_ref_update split: option.splits)
  show "sm_unsubscribe ref_ctx t (d, c) m = (ok, m') \<Longrightarrow> ok = (ref_smv m d \<noteq> None) \<and>
    ref_smv m' = (case ref_smv m d of Some (c', S) \<Rightarrow> (ref_smv m)(d \<mapsto> (c', S - {t})) | None \<Rightarrow> ref_smv m)"
    by (auto simp: ref_ctx_def ref_smv_def fun_eq_iff map_of_ref_update split: option.splits)
  show "set (sm_get_subscribers ref_ctx t m) =
    {(d, c). \<exists>S. ref_smv m d = Some (c, S) \<and> (\<exists>k\<in>S. mask_match CHR ''/'' ''+'' ''#'' k t)}"
    by (force simp: ref_ctx_def ref_smv_def set_entries list_ex_iff image_iff)
  show "distinct (sm_get_subscribers ref_ctx t m)"
    by (simp add: ref_ctx_def ref_projected distinct_entries)
qed (auto simp: ref_ctx_def ref_smv_def fun_eq_iff map_of_ref_delete mask_match_def levels_match_self)

interpretation ref: broadcast_map ref_ctx map_of "mask_match CHR ''.'' ''?'' ''*''"
proof
  fix k m
  show "set (bm_get_clients_by_mask ref_ctx k m) =
    {(d, c). \<exists>n. map_of m d = Some (c, n) \<and> mask_match CHR ''.'' ''?'' ''*'' k n}"
    by (force simp: ref_ctx_def set_entries image_iff)
  show "distinct (bm_get_clients_by_mask ref_ctx k m)"
    by (simp add: ref_ctx_def ref_projected distinct_entries)
qed (auto simp: ref_ctx_def fun_eq_iff map_of_ref_delete)

interpretation ref: acl_map ref_ctx "\<lambda>a. set (snd a)" ref_acl_match
  by unfold_locales (auto simp: ref_ctx_def ref_acl_match_def list_ex_iff fun_eq_iff split: prod.splits)

interpretation ref: bounded_channel ref_ctx "\<lambda>ch. snd (snd ch)" fst "\<lambda>ch. fst (snd ch)"
  by unfold_locales (auto simp: ref_ctx_def split: prod.splits)

interpretation ref: broker_libs ref_ctx ref_smv "mask_match CHR ''/'' ''+'' ''#''"
  map_of "mask_match CHR ''.'' ''?'' ''*''" "\<lambda>a. set (snd a)" ref_acl_match
  "\<lambda>ch. snd (snd ch)" fst "\<lambda>ch. fst (snd ch)"
  by unfold_locales

end
