(* ===== verification/Bus_Registry.thy ===== *)
theory Bus_Registry
  imports Bus_Libs
begin

text \<open>
  The broker database of \<open>src/src/broker.rs\<close>: the client objects (\<open>BusRtClient\<close>), the database
  (\<open>BrokerDb\<close>), and the synchronous operations on it, \<open>insert_client\<close>, \<open>drop_client\<close> and
  \<open>trigger_disconnect\<close>.  Client objects live in a store indexed by \<^typ>\<open>cid\<close> (the \<open>Arc\<close>
  pointers), because the database, the maps and the tasks of a client share them.
\<close>

section \<open>State\<close>

datatype client_kind = Internal | LocalIpc | Tcp | WebSocket

fun client_kind_str :: "client_kind \<Rightarrow> string" where
  "client_kind_str Internal = ''internal''"
| "client_kind_str LocalIpc = ''local_ipc''"
| "client_kind_str Tcp = ''tcp''"
| "client_kind_str WebSocket = ''websocket''"

text \<open>
  \<open>c_disconnect_trig\<close> says whether \<open>trigger()\<close> was called; \<open>c_secondaries\<close> lists the elements
  of the hash set in the order the loop visits them.
\<close>

record ('am, 'ch) bus_client =
  c_name :: string
  c_digest :: digest
  c_primary_name :: string
  c_kind :: client_kind
  c_source :: "string option"
  c_port :: "string option"
  c_disconnect_trig :: bool
  c_tx :: 'ch
  c_registered :: bool
  c_r_frames :: u64
  c_r_bytes :: u64
  c_w_frames :: u64
  c_w_bytes :: u64
  c_primary :: bool
  c_secondaries :: "string list"
  c_has_exclusions :: bool
  c_exclusions :: 'am

definition bus_client_new ::
  "('sm, 'bm, 'am, 'ch) ctx \<Rightarrow> string \<Rightarrow> string \<Rightarrow> usize \<Rightarrow> client_kind \<Rightarrow> string option \<Rightarrow> string option
     \<Rightarrow> ('am, 'ch) bus_client" where
  "bus_client_new X name primary_name queue_size kind source port =
     \<lparr>c_name = name, c_digest = sha256 X name, c_primary_name = primary_name, c_kind = kind,
      c_source = source, c_port = port, c_disconnect_trig = False, c_tx = ch_bounded X queue_size,
      c_registered = False, c_r_frames = 0, c_r_bytes = 0, c_w_frames = 0, c_w_bytes = 0,
      c_primary = (name = primary_name), c_secondaries = [], c_has_exclusions = False,
      c_exclusions = am_new X CHR ''/'' ''+'' ''#''\<rparr>"

record ('sm, 'bm, 'am, 'ch) broker =
  b_objs :: "('am, 'ch) bus_client list"
  b_clients :: "string \<rightharpoonup> cid"
  b_broadcasts :: 'bm
  b_subscriptions :: 'sm
  b_rpc_client :: "cid option"
  b_rpc_locked :: bool
  b_core_locked :: bool
  b_r_frames :: u64
  b_r_bytes :: u64
  b_w_frames :: u64
  b_w_bytes :: u64
  b_force_register :: bool

text \<open>
  \<open>b_rpc_client\<close> is the internal client of the core RPC client, \<open>b_rpc_locked\<close> the mutex around
  it, \<open>b_core_locked\<close> the mutex around the client inside it.
\<close>

definition broker_db_default :: "('sm, 'bm, 'am, 'ch) ctx \<Rightarrow> ('sm, 'bm, 'am, 'ch) broker" where
  "broker_db_default X =
     \<lparr>b_objs = [], b_clients = Map.empty, b_broadcasts = bm_new X CHR ''.'' ''?'' ''*'',
      b_subscriptions = sm_new X CHR ''/'' ''+'' ''#'', b_rpc_client = None, b_rpc_locked = False,
      b_core_locked = False, b_r_frames = 0, b_r_bytes = 0, b_w_frames = 0, b_w_bytes = 0,
      b_force_register = False\<rparr>"

definition BROKER_INFO_TOPIC :: string where "BROKER_INFO_TOPIC = ''.broker/info''"
definition BROKER_WARN_TOPIC :: string where "BROKER_WARN_TOPIC = ''.broker/warn''"
definition BROKER_NAME :: string where "BROKER_NAME = ''.broker''"

abbreviation obj :: "('sm, 'bm, 'am, 'ch) broker \<Rightarrow> cid \<Rightarrow> ('am, 'ch) bus_client" where
  "obj b c \<equiv> b_objs b ! c"

definition upd_obj ::
  "cid \<Rightarrow> (('am, 'ch) bus_client \<Rightarrow> ('am, 'ch) bus_client) \<Rightarrow> ('sm, 'bm, 'am, 'ch) broker
     \<Rightarrow> ('sm, 'bm, 'am, 'ch) broker" where
  "upd_obj c f b = b\<lparr>b_objs := (b_objs b)[c := f (obj b c)]\<rparr>"

definition cref_of :: "('sm, 'bm, 'am, 'ch) broker \<Rightarrow> cid \<Rightarrow> cref" where
  "cref_of b c = (c_digest (obj b c), c)"

text \<open>\<open>Arc::new\<close>: a new object at the next address.\<close>

definition alloc :: "('am, 'ch) bus_client \<Rightarrow> ('sm, 'bm, 'am, 'ch) broker \<Rightarrow> cid \<times> ('sm, 'bm, 'am, 'ch) broker" where
  "alloc o' b = (length (b_objs b), b\<lparr>b_objs := b_objs b @ [o']\<rparr>)"

section \<open>Operations\<close>

definition insert_client ::
  "('sm, 'bm, 'am, 'ch) ctx \<Rightarrow> cid \<Rightarrow> ('sm, 'bm, 'am, 'ch) broker \<Rightarrow> (error + unit) \<times> ('sm, 'bm, 'am, 'ch) broker" where
  "insert_client X c b =
     (let cl = obj b c in
      if \<not> c_primary cl \<and> b_clients b (c_primary_name cl) = None
      then (Inl err_not_registered, b)
      else if b_clients b (c_name cl) = None then
        let b1 = (if c_primary cl then b
                  else upd_obj (the (b_clients b (c_primary_name cl)))
                         (\<lambda>pc. pc\<lparr>c_secondaries := List.insert (c_name cl) (c_secondaries pc)\<rparr>) b);
            b2 = b1\<lparr>b_broadcasts := bm_register_client X (c_name cl) (cref_of b c) (b_broadcasts b1)\<rparr>;
            b3 = b2\<lparr>b_subscriptions := sm_register_client X (cref_of b c) (b_subscriptions b2)\<rparr>;
            b4 = b3\<lparr>b_subscriptions :=
                   snd (sm_subscribe X BROKER_WARN_TOPIC (cref_of b c) (b_subscriptions b3))\<rparr>;
            b5 = upd_obj c (\<lambda>cl. cl\<lparr>c_registered := True\<rparr>) b4
        in (Inr (), b5\<lparr>b_clients := (b_clients b5)(c_name cl \<mapsto> c)\<rparr>)
      else (Inl (err_busy [Lit ''the client is already registred: '', Lit (c_name cl)]), b))"

text \<open>
  \<open>drop_client\<close> calls itself for the secondaries of a primary client.  Each call first clears the
  \<open>registered\<close> flag of its client, so the number of registered clients bounds the recursion.
\<close>

definition registered_count :: "('sm, 'bm, 'am, 'ch) broker \<Rightarrow> nat" where
  "registered_count b = length (filter c_registered (b_objs b))"

definition deregister ::
  "('sm, 'bm, 'am, 'ch) ctx \<Rightarrow> cid \<Rightarrow> ('sm, 'bm, 'am, 'ch) broker \<Rightarrow> ('sm, 'bm, 'am, 'ch) broker" where
  "deregister X c b =
     (let r = cref_of b c;
          n = c_name (obj b c);
          b1 = upd_obj c (\<lambda>cl. cl\<lparr>c_registered := False\<rparr>) b;
          b2 = b1\<lparr>b_subscriptions := sm_unregister_client X r (b_subscriptions b1)\<rparr>;
          b3 = b2\<lparr>b_broadcasts := bm_unregister_client X n r (b_broadcasts b2)\<rparr>
      in b3\<lparr>b_clients := (b_clients b3)(n := None)\<rparr>)"

definition trigger :: "cid \<Rightarrow> ('sm, 'bm, 'am, 'ch) broker \<Rightarrow> ('sm, 'bm, 'am, 'ch) broker" where
  "trigger c b = upd_obj c (\<lambda>cl. cl\<lparr>c_disconnect_trig := True\<rparr>) b"

lemma registered_count_upd_same:
  assumes "\<And>cl. c_registered (f cl) = c_registered cl"
  shows "registered_count (upd_obj c f b) = registered_count b"
proof -
  have "map c_registered ((b_objs b)[c := f (obj b c)]) = map c_registered (b_objs b)"
    by (cases "c < length (b_objs b)") (simp_all add: map_update assms list_update_same_conv not_less list_update_beyond)
  from length_filter_by_map [OF this] show ?thesis by (simp add: registered_count_def upd_obj_def)
qed

lemma length_filter_update_less:
  "c < length xs \<Longrightarrow> P (xs ! c) \<Longrightarrow> \<not> P y \<Longrightarrow> length (filter P (xs[c := y])) < length (filter P xs)"
proof (induction xs arbitrary: c)
  case (Cons x xs)
  then show ?case by (cases c) auto
qed simp

lemma registered_count_deregister:
  assumes "c < length (b_objs b)" and "c_registered (obj b c)"
  shows "registered_count (deregister X c b) < registered_count b"
  using length_filter_update_less [of c "b_objs b" c_registered "(obj b c)\<lparr>c_registered := False\<rparr>"] assms
  by (simp add: registered_count_def deregister_def upd_obj_def Let_def)

lemma registered_count_trigger [simp]: "registered_count (trigger c b) = registered_count b"
  by (simp add: trigger_def registered_count_upd_same)

function (sequential) drop_client ::
    "('sm, 'bm, 'am, 'ch) ctx \<Rightarrow> cid \<Rightarrow> ('sm, 'bm, 'am, 'ch) broker \<Rightarrow> ('sm, 'bm, 'am, 'ch) broker"
  and drop_secondaries ::
    "('sm, 'bm, 'am, 'ch) ctx \<Rightarrow> string list \<Rightarrow> ('sm, 'bm, 'am, 'ch) broker \<Rightarrow> ('sm, 'bm, 'am, 'ch) broker" where
  "drop_client X c b =
     (if c < length (b_objs b) \<and> c_registered (obj b c) then
        let b1 = deregister X c b in
        if c_primary (obj b c) then
          upd_obj c (\<lambda>cl. cl\<lparr>c_secondaries := []\<rparr>)
            (drop_secondaries X (c_secondaries (obj b c)) b1)
        else (case b_clients b1 (c_primary_name (obj b c)) of
                Some p \<Rightarrow> upd_obj p
                  (\<lambda>pc. pc\<lparr>c_secondaries := removeAll (c_name (obj b c)) (c_secondaries pc)\<rparr>) b1
              | None \<Rightarrow> b1)
      else b)"
| "drop_secondaries X [] b = b"
| "drop_secondaries X (s # ss) b =
     (case b_clients b s of
        None \<Rightarrow> drop_secondaries X ss b
      | Some sec \<Rightarrow>
          drop_secondaries X ss
            (drop_client X sec (if c_kind (obj b sec) \<noteq> Internal then trigger sec b else b)))"
  by pat_completeness auto

lemma drop_count_le:
  "drop_client_drop_secondaries_dom (Inl (X, c, b)) \<Longrightarrow>
     registered_count (drop_client X c b) \<le> registered_count b"
  "drop_client_drop_secondaries_dom (Inr (X, ss, b)) \<Longrightarrow>
     registered_count (drop_secondaries X ss b) \<le> registered_count b"
proof (induction X c b and X ss b rule: drop_client_drop_secondaries.pinduct)
  case (1 X c b)
  show ?case
  proof (cases "c < length (b_objs b) \<and> c_registered (obj b c)")
    case True
    then have "registered_count (deregister X c b) < registered_count b"
      by (simp add: registered_count_deregister)
    with 1 True show ?thesis
      by (auto simp: drop_client.psimps Let_def registered_count_upd_same split: option.splits)
  next
    case False
    with 1 have "drop_client X c b = b" by (auto simp: drop_client.psimps)
    then show ?thesis by simp
  qed
next
  case (2 X b)
  then show ?case by (simp add: drop_secondaries.psimps)
next
  case (3 X s ss b)
  show ?case
  proof (cases "b_clients b s")
    case None
    with 3 show ?thesis by (simp add: drop_secondaries.psimps)
  next
    case (Some sec)
    with 3 show ?thesis
      by (fastforce simp: drop_secondaries.psimps split: if_splits intro: order.trans)
  qed
qed

termination drop_client
proof (relation "measures [\<lambda>q. case q of Inl (X, c, b) \<Rightarrow> registered_count b | Inr (X, ss, b) \<Rightarrow> registered_count b,
                    \<lambda>q. case q of Inl _ \<Rightarrow> 0 | Inr (X, ss, b) \<Rightarrow> Suc (length ss)]", goal_cases)
  case 1
  then show ?case by simp
next
  case (2 X c b x)
  then show ?case by (simp add: registered_count_deregister)
next
  case (3 X s ss b)
  then show ?case by simp
next
  case (4 X s ss b x2)
  then show ?case by simp
next
  case (5 X s ss b x2)
  then have "registered_count (drop_client X x2 (if c_kind (obj b x2) \<noteq> Internal then trigger x2 b else b))
      \<le> registered_count (if c_kind (obj b x2) \<noteq> Internal then trigger x2 b else b)"
    by (intro drop_count_le)
  also have "\<dots> = registered_count b" by simp
  finally show ?case by auto
qed

declare drop_client.simps [simp del] drop_secondaries.simps [simp del]

lemma drop_secondaries_Nil [simp]: "drop_secondaries X [] b = b"
  by (simp add: drop_secondaries.simps)

lemma drop_client_unregistered [simp]:
  "\<not> (c < length (b_objs b) \<and> c_registered (obj b c)) \<Longrightarrow> drop_client X c b = b"
  by (subst drop_client.simps) auto

definition trigger_disconnect ::
  "string \<Rightarrow> ('sm, 'bm, 'am, 'ch) broker \<Rightarrow> (error + unit) \<times> ('sm, 'bm, 'am, 'ch) broker" where
  "trigger_disconnect name b =
     (case b_clients b name of
        Some c \<Rightarrow>
          if c_kind (obj b c) = Internal
          then (Inl (err_not_supported [Lit ''the client is internal'']), b)
          else (Inr (), trigger c b)
      | None \<Rightarrow> (Inl err_not_registered, b))"


section \<open>What dropping a client leaves alone\<close>

text \<open>
  Dropping clients changes nothing of a client object but its registration, its secondaries and its
  disconnect trigger, and nothing of the database but the three maps.
\<close>

definition obj_frame :: "('am, 'ch) bus_client \<Rightarrow> ('am, 'ch) bus_client \<Rightarrow> bool" where
  "obj_frame cl cl' \<longleftrightarrow>
     cl' = cl\<lparr>c_registered := c_registered cl', c_secondaries := c_secondaries cl',
              c_disconnect_trig := c_disconnect_trig cl'\<rparr>"

definition db_frame :: "('sm, 'bm, 'am, 'ch) broker \<Rightarrow> ('sm, 'bm, 'am, 'ch) broker \<Rightarrow> bool" where
  "db_frame b b' \<longleftrightarrow>
     list_all2 obj_frame (b_objs b) (b_objs b') \<and>
     b' = b\<lparr>b_objs := b_objs b', b_clients := b_clients b', b_broadcasts := b_broadcasts b',
            b_subscriptions := b_subscriptions b'\<rparr>"

lemma obj_frame_refl [simp]: "obj_frame cl cl"
  by (simp add: obj_frame_def)

lemma obj_frame_trans: "obj_frame a b \<Longrightarrow> obj_frame b c \<Longrightarrow> obj_frame a c"
  by (cases a; cases b; cases c) (simp add: obj_frame_def)

lemma db_frame_refl [simp]: "db_frame b b"
  by (simp add: db_frame_def list_all2_refl)

lemma db_frame_trans [trans]: "db_frame a b \<Longrightarrow> db_frame b c \<Longrightarrow> db_frame a c"
  by (cases a; cases b; cases c)
     (auto simp: db_frame_def intro: list_all2_trans [OF obj_frame_trans])

lemma db_frame_upd_obj:
  assumes "\<And>cl. obj_frame cl (f cl)"
  shows "db_frame b (upd_obj c f b)"
  using assms by (cases b)
    (auto simp: db_frame_def upd_obj_def list_all2_conv_all_nth nth_upd)

lemma db_frame_deregister: "db_frame b (deregister X c b)"
  by (cases b)
     (auto simp: db_frame_def deregister_def Let_def upd_obj_def list_all2_conv_all_nth
        nth_upd obj_frame_def)

lemma db_frame_trigger: "db_frame b (trigger c b)"
  unfolding trigger_def by (rule db_frame_upd_obj) (simp add: obj_frame_def)

lemma db_frame_secondaries:
  "db_frame b b' \<Longrightarrow> db_frame b (upd_obj c (\<lambda>cl. cl\<lparr>c_secondaries := g cl\<rparr>) b')"
  by (rule db_frame_trans, assumption, rule db_frame_upd_obj) (simp add: obj_frame_def)

lemma db_frame_drop:
  "db_frame b (drop_client X c b)"
  "db_frame b (drop_secondaries X ss b)"
proof (induction X c b and X ss b rule: drop_client_drop_secondaries.induct)
  case (1 X c b)
  show ?case
  proof (cases "c < length (b_objs b) \<and> c_registered (obj b c)")
    case True
    note d = db_frame_deregister [of b X c]
    have "db_frame b (drop_secondaries X (c_secondaries (obj b c)) (deregister X c b))"
      if "c_primary (obj b c)"
      using 1 True that d by (blast intro: db_frame_trans)
    with True d show ?thesis
      by (subst drop_client.simps)
         (auto simp: Let_def db_frame_secondaries split: option.splits)
  next
    case False
    then show ?thesis by auto
  qed
next
  case (3 X s ss b)
  show ?case
  proof (cases "b_clients b s")
    case None
    with 3 show ?thesis by (simp add: drop_secondaries.simps)
  next
    case (Some sec)
    let ?b = "if c_kind (obj b sec) \<noteq> Internal then trigger sec b else b"
    have "db_frame b ?b" by (simp add: db_frame_trigger)
    also have "db_frame ?b (drop_client X sec ?b)" using 3 Some by simp
    also have "db_frame (drop_client X sec ?b) (drop_secondaries X ss (drop_client X sec ?b))"
      using 3 Some by simp
    finally show ?thesis using Some by (simp add: drop_secondaries.simps)
  qed
qed simp

lemma db_frame_length: "db_frame b b' \<Longrightarrow> length (b_objs b') = length (b_objs b)"
  by (auto simp: db_frame_def dest: list_all2_lengthD)

lemma db_frame_obj: "db_frame b b' \<Longrightarrow> c < length (b_objs b) \<Longrightarrow> obj_frame (obj b c) (obj b' c)"
  by (simp add: db_frame_def list_all2_nthD)

lemma obj_frameD:
  assumes "obj_frame cl cl'"
  shows "c_name cl' = c_name cl" "c_digest cl' = c_digest cl" "c_primary_name cl' = c_primary_name cl"
    "c_kind cl' = c_kind cl" "c_tx cl' = c_tx cl" "c_primary cl' = c_primary cl"
    "c_exclusions cl' = c_exclusions cl" "c_has_exclusions cl' = c_has_exclusions cl"
  using assms by (cases cl; cases cl'; simp add: obj_frame_def)+

section \<open>The registry invariant\<close>

text \<open>
  Every client object carries the digest and the primary name of its name; the client table, the
  subscription map and the broadcast map hold exactly the clients whose \<open>registered\<close> flag is set; a
  registered secondary client has a registered primary that lists it, and a primary lists registered
  secondaries only.  \<open>N\<close> is a set of names without digest collisions.  During \<open>drop_client\<close> the
  secondaries named in \<open>Or\<close> may have lost their primary and the clients in \<open>D\<close> are being dropped.
\<close>

definition obj_wf :: "('sm, 'bm, 'am, 'ch) ctx \<Rightarrow> ('am, 'ch) bus_client \<Rightarrow> bool" where
  "obj_wf X cl \<longleftrightarrow>
     c_digest cl = sha256 X (c_name cl) \<and> c_primary_name cl = primary_of (c_name cl) \<and>
     (c_primary cl \<longleftrightarrow> primary_of (c_name cl) = c_name cl)"

definition live :: "('sm, 'bm, 'am, 'ch) broker \<Rightarrow> cid \<Rightarrow> bool" where
  "live b c \<longleftrightarrow> c < length (b_objs b) \<and> c_registered (obj b c)"

definition objs_ok :: "('sm, 'bm, 'am, 'ch) ctx \<Rightarrow> string set \<Rightarrow> ('sm, 'bm, 'am, 'ch) broker \<Rightarrow> bool" where
  "objs_ok X N b \<longleftrightarrow> (\<forall>c < length (b_objs b). obj_wf X (obj b c) \<and> c_name (obj b c) \<in> N)"

definition clients_ok :: "('sm, 'bm, 'am, 'ch) broker \<Rightarrow> bool" where
  "clients_ok b \<longleftrightarrow> (\<forall>n c. b_clients b n = Some c \<longleftrightarrow> live b c \<and> c_name (obj b c) = n)"

definition subs_ok ::
  "('sm \<Rightarrow> digest \<Rightarrow> (cid \<times> string set) option) \<Rightarrow> ('sm, 'bm, 'am, 'ch) broker \<Rightarrow> bool" where
  "subs_ok smv b \<longleftrightarrow>
     (\<forall>d c. (\<exists>S. smv (b_subscriptions b) d = Some (c, S)) \<longleftrightarrow> live b c \<and> c_digest (obj b c) = d)"

definition bcast_ok ::
  "('bm \<Rightarrow> digest \<Rightarrow> (cid \<times> string) option) \<Rightarrow> ('sm, 'bm, 'am, 'ch) broker \<Rightarrow> bool" where
  "bcast_ok bmv b \<longleftrightarrow>
     (\<forall>d c n. bmv (b_broadcasts b) d = Some (c, n) \<longleftrightarrow>
        live b c \<and> c_digest (obj b c) = d \<and> c_name (obj b c) = n)"

definition orphans_ok :: "string set \<Rightarrow> ('sm, 'bm, 'am, 'ch) broker \<Rightarrow> bool" where
  "orphans_ok Or b \<longleftrightarrow>
     (\<forall>c. live b c \<and> \<not> c_primary (obj b c) \<and> c_name (obj b c) \<notin> Or \<longrightarrow>
        (\<exists>p. b_clients b (c_primary_name (obj b c)) = Some p \<and>
             c_name (obj b c) \<in> set (c_secondaries (obj b p))))"

definition secs_ok :: "cid set \<Rightarrow> ('sm, 'bm, 'am, 'ch) broker \<Rightarrow> bool" where
  "secs_ok D b \<longleftrightarrow>
     (\<forall>c < length (b_objs b). c \<notin> D \<longrightarrow>
        (\<forall>s \<in> set (c_secondaries (obj b c)). live b c \<and> b_clients b s \<noteq> None \<and>
           primary_of s = c_name (obj b c) \<and> s \<noteq> c_name (obj b c)))"

definition db_inv_ex ::
  "('sm, 'bm, 'am, 'ch) ctx \<Rightarrow> ('sm \<Rightarrow> digest \<Rightarrow> (cid \<times> string set) option)
     \<Rightarrow> ('bm \<Rightarrow> digest \<Rightarrow> (cid \<times> string) option) \<Rightarrow> string set \<Rightarrow> string set \<Rightarrow> cid set
     \<Rightarrow> ('sm, 'bm, 'am, 'ch) broker \<Rightarrow> bool" where
  "db_inv_ex X smv bmv N Or D b \<longleftrightarrow>
     objs_ok X N b \<and> clients_ok b \<and> subs_ok smv b \<and> bcast_ok bmv b \<and> orphans_ok Or b \<and> secs_ok D b"

definition db_inv ::
  "('sm, 'bm, 'am, 'ch) ctx \<Rightarrow> ('sm \<Rightarrow> digest \<Rightarrow> (cid \<times> string set) option)
     \<Rightarrow> ('bm \<Rightarrow> digest \<Rightarrow> (cid \<times> string) option) \<Rightarrow> string set
     \<Rightarrow> ('sm, 'bm, 'am, 'ch) broker \<Rightarrow> bool" where
  "db_inv X smv bmv N b \<longleftrightarrow> db_inv_ex X smv bmv N {} {} b \<and> inj_on (sha256 X) N"

lemmas db_inv_parts = objs_ok_def clients_ok_def subs_ok_def bcast_ok_def orphans_ok_def secs_ok_def

lemma objs_okD: "objs_ok X N b \<Longrightarrow> c < length (b_objs b) \<Longrightarrow> obj_wf X (obj b c) \<and> c_name (obj b c) \<in> N"
  by (simp add: objs_ok_def)

lemma clients_okD: "clients_ok b \<Longrightarrow> b_clients b n = Some c \<longleftrightarrow> live b c \<and> c_name (obj b c) = n"
  by (simp add: clients_ok_def)

lemma orphans_okD:
  "orphans_ok Or b \<Longrightarrow> live b c \<Longrightarrow> \<not> c_primary (obj b c) \<Longrightarrow> c_name (obj b c) \<notin> Or \<Longrightarrow>
     \<exists>p. b_clients b (c_primary_name (obj b c)) = Some p \<and> c_name (obj b c) \<in> set (c_secondaries (obj b p))"
  by (simp add: orphans_ok_def)

lemma secs_okD:
  "secs_ok D b \<Longrightarrow> c < length (b_objs b) \<Longrightarrow> c \<notin> D \<Longrightarrow> s \<in> set (c_secondaries (obj b c)) \<Longrightarrow>
     live b c \<and> b_clients b s \<noteq> None \<and> primary_of s = c_name (obj b c) \<and> s \<noteq> c_name (obj b c)"
  by (simp add: secs_ok_def)

lemma live_less: "live b c \<Longrightarrow> c < length (b_objs b)"
  by (simp add: live_def)

lemma clients_ok_unique:
  assumes "clients_ok b" "live b c" "live b c'" "c_name (obj b c) = c_name (obj b c')"
  shows "c = c'"
  using clients_okD [OF assms(1)] assms(2-) by (metis option.inject)

lemma clients_ok_None:
  assumes "clients_ok b"
  shows "b_clients b n = None \<longleftrightarrow> (\<forall>c. live b c \<longrightarrow> c_name (obj b c) \<noteq> n)"
  using clients_okD [OF assms] by (metis not_None_eq)

text \<open>An orphan that is not registered needs no excuse.\<close>

lemma db_inv_ex_forget:
  assumes "db_inv_ex X smv bmv N (insert s Or) D b" and "b_clients b s = None"
  shows "db_inv_ex X smv bmv N Or D b"
proof -
  have c: "clients_ok b" using assms(1) by (simp add: db_inv_ex_def)
  have "c_name (obj b c) \<noteq> s" if "live b c" for c
    using clients_ok_None [OF c] assms(2) that by blast
  with assms(1) have "orphans_ok Or b" by (simp add: db_inv_ex_def orphans_ok_def)
  with assms(1) show ?thesis by (simp add: db_inv_ex_def)
qed

text \<open>Setting a trigger is invisible to the invariant.\<close>

lemma trigger_simps [simp]:
  "b_clients (trigger c b) = b_clients b" "b_subscriptions (trigger c b) = b_subscriptions b"
  "b_broadcasts (trigger c b) = b_broadcasts b" "length (b_objs (trigger c b)) = length (b_objs b)"
  by (simp_all add: trigger_def upd_obj_def)

lemma obj_trigger:
  "c_name (obj (trigger c b) k) = c_name (obj b k)"
  "c_digest (obj (trigger c b) k) = c_digest (obj b k)"
  "c_primary_name (obj (trigger c b) k) = c_primary_name (obj b k)"
  "c_primary (obj (trigger c b) k) = c_primary (obj b k)"
  "c_registered (obj (trigger c b) k) = c_registered (obj b k)"
  "c_secondaries (obj (trigger c b) k) = c_secondaries (obj b k)"
  "c_kind (obj (trigger c b) k) = c_kind (obj b k)"
  "c_tx (obj (trigger c b) k) = c_tx (obj b k)"
  by (simp_all add: trigger_def upd_obj_def nth_upd)

lemma live_trigger [simp]: "live (trigger c b) k \<longleftrightarrow> live b k"
  by (simp add: live_def obj_trigger)

lemma db_inv_ex_trigger [simp]:
  "db_inv_ex X smv bmv N Or D (trigger c b) \<longleftrightarrow> db_inv_ex X smv bmv N Or D b"
  by (simp add: db_inv_ex_def db_inv_parts obj_wf_def obj_trigger)

end
