(* ===== verification/Bus_Registry_Inv.thy ===== *)
theory Bus_Registry_Inv
  imports Bus_Registry
begin

text \<open>
  The registry operations keep the registry invariant, and what they do to the client table: a client
  is added under its name only if the name is free, and dropping a client removes it and, if it is a
  primary one, all its secondaries.
\<close>

section \<open>Removing one client from the maps\<close>

lemma deregister_simps:
  "b_clients (deregister X c b) = (b_clients b)(c_name (obj b c) := None)"
  "b_subscriptions (deregister X c b) = sm_unregister_client X (cref_of b c) (b_subscriptions b)"
  "b_broadcasts (deregister X c b) =
     bm_unregister_client X (c_name (obj b c)) (cref_of b c) (b_broadcasts b)"
  "length (b_objs (deregister X c b)) = length (b_objs b)"
  by (simp_all add: deregister_def Let_def upd_obj_def)

lemma obj_deregister:
  "c_name (obj (deregister X c b) k) = c_name (obj b k)"
  "c_digest (obj (deregister X c b) k) = c_digest (obj b k)"
  "c_primary_name (obj (deregister X c b) k) = c_primary_name (obj b k)"
  "c_primary (obj (deregister X c b) k) = c_primary (obj b k)"
  "c_secondaries (obj (deregister X c b) k) = c_secondaries (obj b k)"
  "c_kind (obj (deregister X c b) k) = c_kind (obj b k)"
  "c_tx (obj (deregister X c b) k) = c_tx (obj b k)"
  by (simp_all add: deregister_def Let_def upd_obj_def nth_upd)

lemma live_deregister: "live b c \<Longrightarrow> live (deregister X c b) k \<longleftrightarrow> live b k \<and> k \<noteq> c"
  by (auto simp: live_def deregister_def Let_def upd_obj_def nth_upd)

lemma upd_secondaries_simps:
  "b_clients (upd_obj c (\<lambda>cl. cl\<lparr>c_secondaries := g cl\<rparr>) b) = b_clients b"
  "b_subscriptions (upd_obj c (\<lambda>cl. cl\<lparr>c_secondaries := g cl\<rparr>) b) = b_subscriptions b"
  "b_broadcasts (upd_obj c (\<lambda>cl. cl\<lparr>c_secondaries := g cl\<rparr>) b) = b_broadcasts b"
  "length (b_objs (upd_obj c (\<lambda>cl. cl\<lparr>c_secondaries := g cl\<rparr>) b)) = length (b_objs b)"
  by (simp_all add: upd_obj_def)

lemma obj_upd_secondaries:
  "c_name (obj (upd_obj c (\<lambda>cl. cl\<lparr>c_secondaries := g cl\<rparr>) b) k) = c_name (obj b k)"
  "c_digest (obj (upd_obj c (\<lambda>cl. cl\<lparr>c_secondaries := g cl\<rparr>) b) k) = c_digest (obj b k)"
  "c_primary_name (obj (upd_obj c (\<lambda>cl. cl\<lparr>c_secondaries := g cl\<rparr>) b) k) = c_primary_name (obj b k)"
  "c_primary (obj (upd_obj c (\<lambda>cl. cl\<lparr>c_secondaries := g cl\<rparr>) b) k) = c_primary (obj b k)"
  "c_registered (obj (upd_obj c (\<lambda>cl. cl\<lparr>c_secondaries := g cl\<rparr>) b) k) = c_registered (obj b k)"
  "c_secondaries (obj (upd_obj c (\<lambda>cl. cl\<lparr>c_secondaries := g cl\<rparr>) b) k) =
     (if c = k \<and> c < length (b_objs b) then g (obj b k) else c_secondaries (obj b k))"
  by (simp_all add: upd_obj_def nth_upd)

lemma live_upd_secondaries: "live (upd_obj c (\<lambda>cl. cl\<lparr>c_secondaries := g cl\<rparr>) b) k \<longleftrightarrow> live b k"
  by (simp add: live_def upd_secondaries_simps obj_upd_secondaries)

lemmas secondaries_upd = upd_secondaries_simps obj_upd_secondaries live_upd_secondaries

lemma digest_unique:
  assumes "objs_ok X N b" "clients_ok b" "inj_on (sha256 X) N"
    and "live b c" "live b k" "c_digest (obj b c) = c_digest (obj b k)"
  shows "c = k"
proof -
  have "c_digest (obj b i) = sha256 X (c_name (obj b i)) \<and> c_name (obj b i) \<in> N" if "live b i" for i
    using objs_okD [OF assms(1) live_less [OF that]] by (simp add: obj_wf_def)
  with assms(3-6) have "c_name (obj b c) = c_name (obj b k)"
    by (metis inj_onD)
  with assms show ?thesis by (blast intro: clients_ok_unique)
qed

lemma obj_wf_secondary: "obj_wf X cl \<Longrightarrow> \<not> c_primary cl \<longleftrightarrow> primary_of (c_name cl) \<noteq> c_name cl"
  by (simp add: obj_wf_def)

text \<open>The names that go when a client is dropped: its own and those of its secondaries.\<close>

definition removed_by :: "('am, 'ch) bus_client \<Rightarrow> string \<Rightarrow> bool" where
  "removed_by cl n \<longleftrightarrow> n = c_name cl \<or> c_primary cl \<and> primary_of n = c_name cl"

context broker_libs
begin

lemma deregister_keeps:
  assumes o: "objs_ok X N b" and c: "clients_ok b" and s: "subs_ok smv b" and bc: "bcast_ok bmv b"
    and inj: "inj_on (sha256 X) N" and l: "live b c"
  shows "objs_ok X N (deregister X c b)" "clients_ok (deregister X c b)"
    "subs_ok smv (deregister X c b)" "bcast_ok bmv (deregister X c b)"
proof -
  note u = digest_unique [OF o c inj l]
  show "objs_ok X N (deregister X c b)"
    using o by (simp add: objs_ok_def deregister_simps obj_deregister obj_wf_def)
  show "clients_ok (deregister X c b)"
    using c l clients_ok_unique [OF c l]
    by (auto simp: clients_ok_def deregister_simps obj_deregister live_deregister) metis
  show "subs_ok smv (deregister X c b)"
    using s u l by (auto simp: subs_ok_def deregister_simps obj_deregister live_deregister
        cref_of_def smv_unregister) metis+
  show "bcast_ok bmv (deregister X c b)"
    using bc u l by (auto simp: bcast_ok_def deregister_simps obj_deregister live_deregister
        cref_of_def bmv_unregister) metis+
qed

lemma secondaries_keep:
  assumes "db_inv_ex X smv bmv N Or D b"
    and "orphans_ok Or' (upd_obj c (\<lambda>cl. cl\<lparr>c_secondaries := g cl\<rparr>) b)"
    and "secs_ok D' (upd_obj c (\<lambda>cl. cl\<lparr>c_secondaries := g cl\<rparr>) b)"
  shows "db_inv_ex X smv bmv N Or' D' (upd_obj c (\<lambda>cl. cl\<lparr>c_secondaries := g cl\<rparr>) b)"
  using assms
  by (simp add: db_inv_ex_def objs_ok_def clients_ok_def subs_ok_def bcast_ok_def secondaries_upd obj_wf_def)

section \<open>Dropping a secondary client\<close>

lemma drop_secondary:
  assumes "live b c" and "\<not> c_primary (obj b c)"
  shows "drop_client X c b =
    (case b_clients b (c_primary_name (obj b c)) of
       Some p \<Rightarrow> if c_primary_name (obj b c) = c_name (obj b c) then deregister X c b
         else upd_obj p (\<lambda>pc. pc\<lparr>c_secondaries := removeAll (c_name (obj b c)) (c_secondaries pc)\<rparr>)
                (deregister X c b)
     | None \<Rightarrow> deregister X c b)"
  using assms by (subst drop_client.simps) (auto simp: live_def Let_def deregister_simps split: option.splits)

lemma drop_secondary_inv:
  assumes inv: "db_inv_ex X smv bmv N (insert (c_name (obj b c)) Or) D b" and inj: "inj_on (sha256 X) N"
    and l: "live b c" and np: "\<not> c_primary (obj b c)"
    and D: "\<And>p. b_clients b (c_primary_name (obj b c)) = Some p \<Longrightarrow> p \<notin> D"
  shows "db_inv_ex X smv bmv N Or D (drop_client X c b)"
    and "b_clients (drop_client X c b) = (b_clients b)(c_name (obj b c) := None)"
proof -
  let ?n = "c_name (obj b c)" and ?pn = "c_primary_name (obj b c)" and ?b1 = "deregister X c b"
  from inv have o: "objs_ok X N b" and cl: "clients_ok b" and or: "orphans_ok (insert ?n Or) b"
    and se: "secs_ok D b" by (simp_all add: db_inv_ex_def)
  have wf: "obj_wf X (obj b c)" using objs_okD [OF o live_less [OF l]] by simp
  then have pn: "?pn = primary_of ?n" "?pn \<noteq> ?n" using np by (auto simp: obj_wf_def)
  have core: "objs_ok X N ?b1" "clients_ok ?b1" "subs_ok smv ?b1" "bcast_ok bmv ?b1"
    using deregister_keeps [OF o cl _ _ inj l] inv by (simp_all add: db_inv_ex_def)
  \<comment> \<open>the other secondaries keep their primary: a primary client is never the one dropped\<close>
  have other: "b_clients b (c_primary_name (obj b k)) = Some p \<Longrightarrow> live b k \<Longrightarrow> p \<noteq> c" for k p
  proof
    assume a: "b_clients b (c_primary_name (obj b k)) = Some p" "live b k" "p = c"
    have "c_primary_name (obj b k) = primary_of (c_name (obj b k))"
      using objs_okD [OF o live_less [OF a(2)]] by (simp add: obj_wf_def)
    with a clients_okD [OF cl] have "?n = primary_of (c_name (obj b k))" by simp
    then show False using pn by (metis primary_of_idem)
  qed
  have or1: "orphans_ok Or ?b1"
    unfolding orphans_ok_def
  proof (intro allI impI)
    fix k assume "live ?b1 k \<and> \<not> c_primary (obj ?b1 k) \<and> c_name (obj ?b1 k) \<notin> Or"
    then have k: "live b k" "k \<noteq> c" "\<not> c_primary (obj b k)" "c_name (obj b k) \<notin> Or"
      using l by (auto simp: live_deregister obj_deregister)
    have "c_name (obj b k) \<noteq> ?n" using clients_ok_unique [OF cl k(1) l] k(2) by blast
    then obtain p where p: "b_clients b (c_primary_name (obj b k)) = Some p"
      "c_name (obj b k) \<in> set (c_secondaries (obj b p))"
      using orphans_okD [OF or k(1,3)] k(4) by auto
    with other [OF p(1) k(1)] clients_okD [OF cl]
    show "\<exists>p. b_clients ?b1 (c_primary_name (obj ?b1 k)) = Some p \<and>
              c_name (obj ?b1 k) \<in> set (c_secondaries (obj ?b1 p))"
      using clients_ok_unique [OF cl _ l] by (auto simp: deregister_simps obj_deregister)
  qed
  have lists: "?n \<in> set (c_secondaries (obj b p)) \<Longrightarrow> p < length (b_objs b) \<Longrightarrow> p \<notin> D \<Longrightarrow>
      b_clients b ?pn = Some p" for p
    using secs_okD [OF se] clients_okD [OF cl] pn by metis
  have alone: "c_secondaries (obj b c) = []" if "c \<notin> D"
  proof (rule ccontr)
    assume "c_secondaries (obj b c) \<noteq> []"
    then obtain s where "s \<in> set (c_secondaries (obj b c))" by (cases "c_secondaries (obj b c)") auto
    with secs_okD [OF se live_less [OF l] that] have "primary_of s = ?n" by blast
    then show False using pn by (metis primary_of_idem)
  qed
  have stay: "\<forall>k < length (b_objs b). k \<notin> D \<longrightarrow> (\<forall>s \<in> set (c_secondaries (obj b k)). s \<noteq> ?n \<longrightarrow>
      live ?b1 k \<and> b_clients ?b1 s \<noteq> None \<and> primary_of s = c_name (obj b k) \<and> s \<noteq> c_name (obj b k))"
    using secs_okD [OF se] alone l by (auto simp: live_deregister deregister_simps)
  have res: "db_inv_ex X smv bmv N Or D (drop_client X c b) \<and>
      b_clients (drop_client X c b) = (b_clients b)(?n := None)"
  proof (cases "b_clients b ?pn")
    case None
    with lists stay have "secs_ok D ?b1"
      unfolding secs_ok_def deregister_simps obj_deregister by (metis option.distinct(1))
    with None core or1 drop_secondary [OF l np] show ?thesis
      by (simp add: db_inv_ex_def deregister_simps)
  next
    case (Some p)
    let ?g = "\<lambda>pc. removeAll ?n (c_secondaries pc)"
    let ?b2 = "upd_obj p (\<lambda>pc. pc\<lparr>c_secondaries := ?g pc\<rparr>) ?b1"
    have b2: "drop_client X c b = ?b2" using Some pn drop_secondary [OF l np] by simp
    have pD: "p \<notin> D" and plen: "p < length (b_objs b)"
      using D Some clients_okD [OF cl] by (auto simp: live_def)
    have only: "?n \<in> set (c_secondaries (obj b k)) \<Longrightarrow> k < length (b_objs b) \<Longrightarrow> k \<notin> D \<Longrightarrow> k = p" for k
      using lists Some by fastforce
    with stay have "secs_ok D ?b2"
      unfolding secs_ok_def by (auto simp: secondaries_upd deregister_simps obj_deregister)
    moreover have "orphans_ok Or ?b2"
      unfolding orphans_ok_def
    proof (intro allI impI)
      fix k assume "live ?b2 k \<and> \<not> c_primary (obj ?b2 k) \<and> c_name (obj ?b2 k) \<notin> Or"
      then have k1: "live ?b1 k" "\<not> c_primary (obj ?b1 k)" "c_name (obj ?b1 k) \<notin> Or"
        by (auto simp: secondaries_upd)
      have "c_name (obj b k) \<noteq> ?n"
        using k1(1) clients_ok_unique [OF cl _ l, of k] l by (auto simp: live_deregister)
      with orphans_okD [OF or1 k1]
      show "\<exists>p. b_clients ?b2 (c_primary_name (obj ?b2 k)) = Some p \<and>
              c_name (obj ?b2 k) \<in> set (c_secondaries (obj ?b2 p))"
        by (auto simp: secondaries_upd obj_deregister)
    qed
    moreover have "secs_ok (insert p D) ?b1"
      unfolding secs_ok_def deregister_simps obj_deregister
    proof (intro allI impI ballI)
      fix k s assume k: "k < length (b_objs b)" "k \<notin> insert p D" and s: "s \<in> set (c_secondaries (obj b k))"
      then have "s \<noteq> ?n" using only [of k] by blast
      with stay k s show "live ?b1 k \<and> ((b_clients b)(?n := None)) s \<noteq> None \<and>
          primary_of s = c_name (obj b k) \<and> s \<noteq> c_name (obj b k)"
        by (simp add: deregister_simps)
    qed
    ultimately show ?thesis
      unfolding b2 using secondaries_keep [of N Or "insert p D" ?b1] core or1
      by (simp add: db_inv_ex_def secondaries_upd deregister_simps)
  qed
  from res show "db_inv_ex X smv bmv N Or D (drop_client X c b)" by blast
  from res show "b_clients (drop_client X c b) = (b_clients b)(?n := None)" by blast
qed

section \<open>Dropping a primary client\<close>

lemma drop_secondaries_inv:
  assumes "db_inv_ex X smv bmv N (set ss) D b" and inj: "inj_on (sha256 X) N"
    and "\<And>s. s \<in> set ss \<Longrightarrow> primary_of s \<noteq> s \<and> b_clients b (primary_of s) = None"
  shows "db_inv_ex X smv bmv N {} D (drop_secondaries X ss b) \<and>
    b_clients (drop_secondaries X ss b) = (\<lambda>n. if n \<in> set ss then None else b_clients b n)"
  using assms(1,3)
proof (induction ss arbitrary: b)
  case Nil
  then show ?case by simp
next
  case (Cons s ss)
  show ?case
  proof (cases "b_clients b s")
    case None
    have "db_inv_ex X smv bmv N (set ss) D b"
      using Cons.prems(1) None by (auto intro: db_inv_ex_forget)
    with Cons.IH [of b] Cons.prems(2) None show ?thesis
      by (auto simp: drop_secondaries.simps fun_eq_iff)
  next
    case (Some sec)
    define b' where "b' = (if c_kind (obj b sec) \<noteq> Internal then trigger sec b else b)"
    have inv': "db_inv_ex X smv bmv N (insert s (set ss)) D b'" and cl': "b_clients b' = b_clients b"
      using Cons.prems(1) by (simp_all add: b'_def)
    then have l: "live b' sec" and n: "c_name (obj b' sec) = s"
      using Some clients_okD [of b' s sec] by (simp_all add: db_inv_ex_def)
    have "obj_wf X (obj b' sec)" using inv' l objs_okD [of X N b' sec] by (simp add: db_inv_ex_def live_less)
    then have np: "\<not> c_primary (obj b' sec)" and pn: "c_primary_name (obj b' sec) = primary_of s"
      using Cons.prems(2) n by (auto simp: obj_wf_def)
    have "b_clients b' (c_primary_name (obj b' sec)) = None"
      using Cons.prems(2) pn cl' by simp
    then have d: "db_inv_ex X smv bmv N (set ss) D (drop_client X sec b')"
      and dc: "b_clients (drop_client X sec b') = (b_clients b)(s := None)"
      using drop_secondary_inv [of N b' sec "set ss" D] inv' inj l np n cl' by simp_all
    have "primary_of t \<noteq> t \<and> b_clients (drop_client X sec b') (primary_of t) = None"
      if "t \<in> set ss" for t
      using Cons.prems(2) that by (simp add: dc)
    from Cons.IH [OF d this] Some show ?thesis
      by (auto simp: drop_secondaries.simps fun_eq_iff dc simp flip: b'_def)
  qed
qed

lemma drop_primary_inv:
  assumes inv: "db_inv_ex X smv bmv N {} {} b" and inj: "inj_on (sha256 X) N"
    and l: "live b c" and pr: "c_primary (obj b c)"
  shows "db_inv_ex X smv bmv N {} {} (drop_client X c b) \<and>
    b_clients (drop_client X c b) =
      (\<lambda>n. if primary_of n = c_name (obj b c) then None else b_clients b n)"
proof -
  let ?n = "c_name (obj b c)" and ?b1 = "deregister X c b" and ?ss = "c_secondaries (obj b c)"
  from inv have o: "objs_ok X N b" and cl: "clients_ok b" and or: "orphans_ok {} b"
    and se: "secs_ok {} b" by (simp_all add: db_inv_ex_def)
  have wfk: "obj_wf X (obj b k)" if "live b k" for k
    using objs_okD [OF o live_less [OF that]] by simp
  have pn: "primary_of ?n = ?n" using wfk [OF l] pr by (simp add: obj_wf_def)
  have core: "objs_ok X N ?b1" "clients_ok ?b1" "subs_ok smv ?b1" "bcast_ok bmv ?b1"
    using deregister_keeps [OF o cl _ _ inj l] inv by (simp_all add: db_inv_ex_def)
  have mine: "c_name (obj b k) \<in> set ?ss"
    if "live b k" "\<not> c_primary (obj b k)" "primary_of (c_name (obj b k)) = ?n" for k
  proof -
    from orphans_okD [OF or that(1,2)] obtain p where
      p: "b_clients b (c_primary_name (obj b k)) = Some p" "c_name (obj b k) \<in> set (c_secondaries (obj b p))"
      by auto
    then have "live b p" "c_name (obj b p) = ?n"
      using clients_okD [OF cl] that(3) wfk [OF that(1)] by (auto simp: obj_wf_def)
    then have "p = c" using clients_ok_unique [OF cl _ l] by blast
    with p show ?thesis by simp
  qed
  have ss: "primary_of s = ?n \<and> s \<noteq> ?n" if "s \<in> set ?ss" for s
    using secs_okD [OF se live_less [OF l]] that by blast
  have "orphans_ok (set ?ss) ?b1"
    unfolding orphans_ok_def
  proof (intro allI impI)
    fix k assume "live ?b1 k \<and> \<not> c_primary (obj ?b1 k) \<and> c_name (obj ?b1 k) \<notin> set ?ss"
    then have k: "live b k" "k \<noteq> c" "\<not> c_primary (obj b k)" "c_name (obj b k) \<notin> set ?ss"
      using l by (auto simp: live_deregister obj_deregister)
    have "c_primary_name (obj b k) \<noteq> ?n"
      using mine [OF k(1,3)] k(4) wfk [OF k(1)] by (auto simp: obj_wf_def)
    then show "\<exists>p. b_clients ?b1 (c_primary_name (obj ?b1 k)) = Some p \<and>
          c_name (obj ?b1 k) \<in> set (c_secondaries (obj ?b1 p))"
      using orphans_okD [OF or k(1,3)] by (simp add: deregister_simps obj_deregister)
  qed
  moreover have "secs_ok {c} ?b1"
    unfolding secs_ok_def deregister_simps obj_deregister
  proof (intro allI impI ballI)
    fix k s assume k: "k < length (b_objs b)" "k \<notin> {c}" "s \<in> set (c_secondaries (obj b k))"
    from secs_okD [OF se k(1) _ k(3)]
    have s: "live b k" "b_clients b s \<noteq> None" "primary_of s = c_name (obj b k)" "s \<noteq> c_name (obj b k)"
      by auto
    moreover have "s \<noteq> ?n" using s(3,4) pn by auto
    ultimately show "live ?b1 k \<and> ((b_clients b)(?n := None)) s \<noteq> None \<and>
        primary_of s = c_name (obj b k) \<and> s \<noteq> c_name (obj b k)"
      using k(2) l by (simp add: live_deregister)
  qed
  ultimately have inv1: "db_inv_ex X smv bmv N (set ?ss) {c} ?b1" using core by (simp add: db_inv_ex_def)
  define b2 where "b2 = drop_secondaries X ?ss ?b1"
  have inv2: "db_inv_ex X smv bmv N {} {c} b2"
    and cl2: "b_clients b2 = (\<lambda>n. if n \<in> set ?ss then None else b_clients ?b1 n)"
    using drop_secondaries_inv [OF inv1 inj] ss by (auto simp: b2_def deregister_simps)
  have len2: "length (b_objs b2) = length (b_objs b)"
    using db_frame_length [OF db_frame_drop(2), of X ?ss ?b1] by (simp add: b2_def deregister_simps)
  have res: "drop_client X c b = upd_obj c (\<lambda>cl. cl\<lparr>c_secondaries := []\<rparr>) b2"
    using l pr by (subst drop_client.simps) (simp add: live_def b2_def Let_def)
  have nolink: "b_clients b2 m \<noteq> Some c" for m
    using clients_okD [OF cl, of m c] by (auto simp: cl2 deregister_simps)
  have "orphans_ok {} (upd_obj c (\<lambda>cl. cl\<lparr>c_secondaries := []\<rparr>) b2)"
    using inv2 nolink by (fastforce simp: db_inv_ex_def orphans_ok_def secondaries_upd)
  moreover have "secs_ok {} (upd_obj c (\<lambda>cl. cl\<lparr>c_secondaries := []\<rparr>) b2)"
    using inv2 by (auto simp: db_inv_ex_def secs_ok_def secondaries_upd)
  ultimately have "db_inv_ex X smv bmv N {} {} (drop_client X c b)"
    unfolding res by (rule secondaries_keep [OF inv2])
  moreover have "b_clients (drop_client X c b) m = (if primary_of m = ?n then None else b_clients b m)" for m
  proof (cases "b_clients b m")
    case None
    then show ?thesis by (simp add: res cl2 deregister_simps secondaries_upd)
  next
    case (Some k)
    then have k: "live b k" "c_name (obj b k) = m" using clients_okD [OF cl] by auto
    have "m = ?n \<or> m \<in> set ?ss \<longleftrightarrow> primary_of m = ?n"
      using mine [OF k(1)] wfk [OF k(1)] k(2) ss pn by (auto simp: obj_wf_def)
    then show ?thesis by (auto simp: res cl2 deregister_simps secondaries_upd)
  qed
  ultimately show ?thesis by blast
qed


lemma drop_client_inv:
  assumes "db_inv X smv bmv N b"
  shows "db_inv X smv bmv N (drop_client X c b)"
proof (cases "live b c")
  case True
  show ?thesis
  proof (cases "c_primary (obj b c)")
    case True
    with \<open>live b c\<close> assms show ?thesis by (simp add: db_inv_def drop_primary_inv)
  next
    case False
    have "db_inv_ex X smv bmv N (insert (c_name (obj b c)) {}) {} b"
      using assms by (auto simp: db_inv_def db_inv_ex_def orphans_ok_def)
    with False \<open>live b c\<close> assms show ?thesis
      using drop_secondary_inv(1) [of N b c "{}" "{}"] by (simp add: db_inv_def)
  qed
next
  case False
  with assms show ?thesis by (simp add: live_def)
qed

lemma drop_client_clients:
  assumes "db_inv X smv bmv N b" and "live b c"
  shows "b_clients (drop_client X c b) =
    (\<lambda>n. if removed_by (obj b c) n then None else b_clients b n)"
proof (cases "c_primary (obj b c)")
  case True
  have "obj_wf X (obj b c)"
    using assms objs_okD [of X N b c] by (simp add: db_inv_def db_inv_ex_def live_def)
  with True have "removed_by (obj b c) n \<longleftrightarrow> primary_of n = c_name (obj b c)" for n
    by (auto simp: removed_by_def obj_wf_def)
  with True assms show ?thesis using drop_primary_inv [of N b c] by (simp add: db_inv_def)
next
  case False
  have "db_inv_ex X smv bmv N (insert (c_name (obj b c)) {}) {} b"
    using assms by (auto simp: db_inv_def db_inv_ex_def orphans_ok_def)
  with False assms have "b_clients (drop_client X c b) = (b_clients b)(c_name (obj b c) := None)"
    using drop_secondary_inv(2) [of N b c "{}" "{}"] by (simp add: db_inv_def)
  with False show ?thesis by (auto simp: removed_by_def)
qed

end

section \<open>Adding a client\<close>

text \<open>What \<open>insert_client\<close> leaves when it succeeds.\<close>

definition inserted ::
  "('sm, 'bm, 'am, 'ch) ctx \<Rightarrow> cid \<Rightarrow> ('sm, 'bm, 'am, 'ch) broker \<Rightarrow> ('sm, 'bm, 'am, 'ch) broker" where
  "inserted X c b = snd (insert_client X c b)"

lemma insert_client_cases:
  assumes "c < length (b_objs b)"
  shows "insert_client X c b =
    (let cl = obj b c in
     if \<not> c_primary cl \<and> b_clients b (c_primary_name cl) = None then (Inl err_not_registered, b)
     else if b_clients b (c_name cl) = None then (Inr (), inserted X c b)
     else (Inl (err_busy [Lit ''the client is already registred: '', Lit (c_name cl)]), b))"
  by (simp add: insert_client_def inserted_def Let_def)

lemma inserted_simps:
  assumes "b_clients b (c_name (obj b c)) = None"
    and "c_primary (obj b c) \<or> b_clients b (c_primary_name (obj b c)) \<noteq> None"
  shows "b_clients (inserted X c b) = (b_clients b)(c_name (obj b c) \<mapsto> c)"
    "b_subscriptions (inserted X c b) = snd (sm_subscribe X BROKER_WARN_TOPIC (cref_of b c)
       (sm_register_client X (cref_of b c) (b_subscriptions b)))"
    "b_broadcasts (inserted X c b) = bm_register_client X (c_name (obj b c)) (cref_of b c) (b_broadcasts b)"
    "length (b_objs (inserted X c b)) = length (b_objs b)"
  using assms by (auto simp: inserted_def insert_client_def Let_def upd_obj_def cref_of_def)

lemma obj_inserted:
  assumes "b_clients b (c_name (obj b c)) = None"
    and "c_primary (obj b c) \<or> b_clients b (c_primary_name (obj b c)) = Some p"
    and "c < length (b_objs b)"
  shows "c_name (obj (inserted X c b) k) = c_name (obj b k)"
    "c_digest (obj (inserted X c b) k) = c_digest (obj b k)"
    "c_primary_name (obj (inserted X c b) k) = c_primary_name (obj b k)"
    "c_primary (obj (inserted X c b) k) = c_primary (obj b k)"
    "c_registered (obj (inserted X c b) k) \<longleftrightarrow> c_registered (obj b k) \<or> k = c"
    "c_secondaries (obj (inserted X c b) k) =
       (if \<not> c_primary (obj b c) \<and> k = p \<and> p < length (b_objs b)
        then List.insert (c_name (obj b c)) (c_secondaries (obj b k)) else c_secondaries (obj b k))"
  using assms
  by (cases "c_primary (obj b c)";
      simp add: inserted_def insert_client_def Let_def upd_obj_def nth_upd; fail)+

context broker_libs
begin

lemma inserted_inv:
  assumes inv: "db_inv X smv bmv N b"
    and c: "c < length (b_objs b)" and new: "\<not> c_registered (obj b c)"
    and free: "b_clients b (c_name (obj b c)) = None"
    and pri: "c_primary (obj b c) \<or> b_clients b (c_primary_name (obj b c)) = Some p"
  shows "db_inv X smv bmv N (inserted X c b)"
proof -
  let ?n = "c_name (obj b c)" and ?d = "c_digest (obj b c)" and ?b = "inserted X c b"
  from inv have o: "objs_ok X N b" and cl: "clients_ok b" and su: "subs_ok smv b" and bc: "bcast_ok bmv b"
    and or: "orphans_ok {} b" and se: "secs_ok {} b" and inj: "inj_on (sha256 X) N"
    by (simp_all add: db_inv_def db_inv_ex_def)
  have pri': "c_primary (obj b c) \<or> b_clients b (c_primary_name (obj b c)) \<noteq> None" using pri by auto
  note ins = inserted_simps [OF free pri', of X] and os = obj_inserted [OF free pri c, of X]
  have lv: "live ?b k \<longleftrightarrow> live b k \<or> k = c" for k
    using c by (auto simp: live_def ins os)
  have wf: "obj_wf X (obj b k) \<and> c_name (obj b k) \<in> N" if "k < length (b_objs b)" for k
    using objs_okD [OF o that] .
  have fresh: "c_name (obj b k) \<noteq> ?n \<and> c_digest (obj b k) \<noteq> ?d" if "live b k" for k
  proof -
    have "c_name (obj b k) \<noteq> ?n" using clients_ok_None [OF cl] free that by blast
    moreover have "c_digest (obj b k) \<noteq> ?d"
      using wf [OF c] wf [OF live_less [OF that]] inj calculation by (auto simp: obj_wf_def inj_on_def)
    ultimately show ?thesis by simp
  qed
  have "objs_ok X N ?b" using o by (simp add: objs_ok_def ins os obj_wf_def)
  moreover have "clients_ok ?b"
    using clients_okD [OF cl] fresh by (auto simp: clients_ok_def ins os lv)
  moreover have "subs_ok smv ?b"
  proof -
    have none: "smv (b_subscriptions b) ?d = None"
      using su fresh unfolding subs_ok_def by (metis not_None_eq prod.collapse)
    obtain ok m where sm: "sm_subscribe X BROKER_WARN_TOPIC (?d, c)
        (sm_register_client X (?d, c) (b_subscriptions b)) = (ok, m)" by force
    have "smv m = (smv (b_subscriptions b))(?d \<mapsto> (c, {BROKER_WARN_TOPIC}))"
      using smv_subscribe [OF sm] none by (simp add: smv_register)
    with sm su fresh show ?thesis
      by (auto simp: subs_ok_def ins os lv cref_of_def)
  qed
  moreover have "bcast_ok bmv ?b"
  proof -
    have none: "bmv (b_broadcasts b) ?d = None"
      using bc fresh unfolding bcast_ok_def by (metis not_None_eq prod.collapse)
    with bc fresh show ?thesis
      by (auto simp: bcast_ok_def ins os lv cref_of_def bmv_register)
  qed
  moreover have "orphans_ok {} ?b"
    unfolding orphans_ok_def
  proof (intro allI impI)
    fix k assume "live ?b k \<and> \<not> c_primary (obj ?b k) \<and> c_name (obj ?b k) \<notin> {}"
    then have k: "live b k \<or> k = c" "\<not> c_primary (obj b k)" by (auto simp: lv os)
    show "\<exists>q. b_clients ?b (c_primary_name (obj ?b k)) = Some q \<and>
        c_name (obj ?b k) \<in> set (c_secondaries (obj ?b q))"
    proof (cases "k = c")
      case True
      with k pri have p: "b_clients b (c_primary_name (obj b c)) = Some p" by simp
      then have "p < length (b_objs b)" using clients_okD [OF cl] by (simp add: live_def)
      moreover have "c_primary_name (obj b c) \<noteq> ?n" using p free by auto
      ultimately show ?thesis using True k(2) p by (simp add: ins os)
    next
      case False
      with k have l: "live b k" by simp
      from orphans_okD [OF or l k(2)] obtain q where
        "b_clients b (c_primary_name (obj b k)) = Some q" "c_name (obj b k) \<in> set (c_secondaries (obj b q))"
        by auto
      with free show ?thesis by (auto simp: ins os)
    qed
  qed
  moreover have "secs_ok {} ?b"
    unfolding secs_ok_def
  proof (intro allI impI ballI)
    fix k s assume "k < length (b_objs ?b)" and s: "s \<in> set (c_secondaries (obj ?b k))"
    then have k: "k < length (b_objs b)" by (simp add: ins)
    consider "s \<in> set (c_secondaries (obj b k))"
      | "s = ?n" "k = p" "\<not> c_primary (obj b c)" "b_clients b (c_primary_name (obj b c)) = Some p"
      using s pri by (auto simp: os split: if_splits)
    then show "live ?b k \<and> b_clients ?b s \<noteq> None \<and> primary_of s = c_name (obj ?b k) \<and> s \<noteq> c_name (obj ?b k)"
    proof cases
      case 1
      with secs_okD [OF se k] show ?thesis by (auto simp: lv ins os)
    next
      case 2
      then have "live b p" "c_name (obj b p) = primary_of ?n"
        using clients_okD [OF cl] wf [OF c] by (auto simp: obj_wf_def)
      with 2 fresh [of p] show ?thesis by (auto simp: lv ins os)
    qed
  qed
  ultimately show ?thesis using inj by (simp add: db_inv_def db_inv_ex_def)
qed

lemma insert_client_inv:
  assumes "db_inv X smv bmv N b" and "c < length (b_objs b)" and "\<not> c_registered (obj b c)"
  shows "db_inv X smv bmv N (snd (insert_client X c b))"
proof (cases "insert_client X c b = (Inr (), inserted X c b)")
  case True
  then have "b_clients b (c_name (obj b c)) = None"
    and "\<exists>p. c_primary (obj b c) \<or> b_clients b (c_primary_name (obj b c)) = Some p"
    using assms(2) by (auto simp: insert_client_cases Let_def split: if_splits)
  with True assms show ?thesis by (auto intro: inserted_inv)
next
  case False
  with assms(1,2) show ?thesis by (auto simp: insert_client_cases Let_def split: if_splits)
qed

lemma alloc_inv:
  assumes "db_inv X smv bmv N b" and "obj_wf X cl" and "c_name cl \<in> N"
    and "\<not> c_registered cl" and "c_secondaries cl = []"
  shows "db_inv X smv bmv N (snd (alloc cl b))"
proof -
  have l: "live (snd (alloc cl b)) k \<longleftrightarrow> live b k" for k
    using assms(4) by (auto simp: live_def alloc_def nth_append less_Suc_eq)
  have ob: "k < length (b_objs b) \<Longrightarrow> obj (snd (alloc cl b)) k = obj b k" for k
    by (simp add: alloc_def nth_append)
  have sm: "b_clients (snd (alloc cl b)) = b_clients b"
    "b_subscriptions (snd (alloc cl b)) = b_subscriptions b"
    "b_broadcasts (snd (alloc cl b)) = b_broadcasts b"
    by (simp_all add: alloc_def)
  have lob: "live b k \<Longrightarrow> obj (snd (alloc cl b)) k = obj b k" for k
    by (simp add: ob live_def)
  have cl: "clients_ok b" and or: "orphans_ok {} b" and se: "secs_ok {} b"
    using assms(1) by (simp_all add: db_inv_def db_inv_ex_def)
  have "objs_ok X N (snd (alloc cl b))"
    using assms(1-3) by (auto simp: db_inv_def db_inv_ex_def objs_ok_def alloc_def nth_append less_Suc_eq)
  moreover have "clients_ok (snd (alloc cl b))"
    using cl by (auto simp: clients_ok_def l sm lob)
  moreover have "subs_ok smv (snd (alloc cl b))" "bcast_ok bmv (snd (alloc cl b))"
    using assms(1) by (auto simp: db_inv_def db_inv_ex_def subs_ok_def bcast_ok_def l sm lob)
  moreover have "orphans_ok {} (snd (alloc cl b))"
    unfolding orphans_ok_def
  proof (intro allI impI)
    fix k assume "live (snd (alloc cl b)) k \<and> \<not> c_primary (obj (snd (alloc cl b)) k) \<and>
        c_name (obj (snd (alloc cl b)) k) \<notin> {}"
    then have k: "live b k" "\<not> c_primary (obj b k)" by (auto simp: l lob)
    from orphans_okD [OF or k] obtain p where
      p: "b_clients b (c_primary_name (obj b k)) = Some p" "c_name (obj b k) \<in> set (c_secondaries (obj b p))"
      by auto
    then have "live b p" using clients_okD [OF cl] by simp
    with p k show "\<exists>p. b_clients (snd (alloc cl b)) (c_primary_name (obj (snd (alloc cl b)) k)) = Some p \<and>
        c_name (obj (snd (alloc cl b)) k) \<in> set (c_secondaries (obj (snd (alloc cl b)) p))"
      by (auto simp: sm lob)
  qed
  moreover have "secs_ok {} (snd (alloc cl b))"
    using se assms(5) by (auto simp: secs_ok_def sm l alloc_def nth_append less_Suc_eq) (simp_all add: live_def nth_append)
  ultimately show ?thesis using assms(1) by (simp add: db_inv_def db_inv_ex_def)
qed

lemma bus_client_new_wf:
  "obj_wf X (bus_client_new X name (primary_of name) qs kind src port)"
  by (auto simp: obj_wf_def bus_client_new_def)

lemma broker_db_default_inv:
  assumes "inj_on (sha256 X) N"
  shows "db_inv X smv bmv N (broker_db_default X)"
  using assms
  by (simp add: db_inv_def db_inv_ex_def db_inv_parts broker_db_default_def live_def smv_new bmv_new)

end

end
