(* ===== verification/Bus_Routing.thy ===== *)
theory Bus_Routing
  imports Bus_Registry_Inv
begin

text \<open>
  Routing in the broker, \<open>src/src/broker.rs\<close>: the macros \<open>safe_send_frame!\<close>, \<open>send!\<close>,
  \<open>send_broadcast!\<close> and \<open>publish!\<close>, the announcements of the core RPC client, registration and
  unregistration of clients, and the internal client \<open>Client\<close>.

  \<open>safe_send_frame!\<close>, \<open>unregister_client\<close>, \<open>announce\<close> and \<open>publish!\<close> call each other.  The routing
  operations take the announcement they make as an argument; \<open>announce_fuel\<close> ties the knot.  The inner
  announcement of an announcement always finds the mutex of the core RPC client taken, so fuel 1 is
  enough (\<open>announce_fuel_enough\<close>).
\<close>

type_synonym ('sm, 'bm, 'am, 'ch, 'a) bact = "(('sm, 'bm, 'am, 'ch) broker, error, 'a) act"

section \<open>Counters\<close>

definition count_r :: "cid \<Rightarrow> u64 \<Rightarrow> ('sm, 'bm, 'am, 'ch) broker \<Rightarrow> ('sm, 'bm, 'am, 'ch) broker" where
  "count_r c len b =
     (let b1 = upd_obj c (\<lambda>cl. cl\<lparr>c_r_frames := c_r_frames cl + 1, c_r_bytes := c_r_bytes cl + len\<rparr>) b
      in b1\<lparr>b_r_frames := b_r_frames b1 + 1, b_r_bytes := b_r_bytes b1 + len\<rparr>)"

definition client_w :: "cid \<Rightarrow> u64 \<Rightarrow> ('sm, 'bm, 'am, 'ch) broker \<Rightarrow> ('sm, 'bm, 'am, 'ch) broker" where
  "client_w c len b =
     upd_obj c (\<lambda>cl. cl\<lparr>c_w_frames := c_w_frames cl + 1, c_w_bytes := c_w_bytes cl + len\<rparr>) b"

definition db_w :: "u64 \<Rightarrow> u64 \<Rightarrow> ('sm, 'bm, 'am, 'ch) broker \<Rightarrow> ('sm, 'bm, 'am, 'ch) broker" where
  "db_w n len b = b\<lparr>b_w_frames := b_w_frames b + n, b_w_bytes := b_w_bytes b + len * n\<rparr>"

section \<open>Sending a frame to one client\<close>

text \<open>
  \<open>tx.send(frame).await\<close>: \<open>None\<close> if it waits until the caller gives up.  A \<open>SendError\<close> becomes
  \<^const>\<open>err_eof\<close>.
\<close>

definition channel_send ::
  "('sm, 'bm, 'am, 'ch) ctx \<Rightarrow> cid \<Rightarrow> frame \<Rightarrow> ('sm, 'bm, 'am, 'ch) broker
     \<Rightarrow> (error + unit) option \<times> ('sm, 'bm, 'am, 'ch) broker" where
  "channel_send X c f b =
     (case ch_send X f (c_tx (obj b c)) of
        Sent ch \<Rightarrow> (Some (Inr ()), upd_obj c (\<lambda>cl. cl\<lparr>c_tx := ch\<rparr>) b)
      | SendClosed \<Rightarrow> (Some (Inl err_eof), b)
      | SendFull \<Rightarrow>
          (case waits X c of
             Elapsed \<Rightarrow> (None, b)
           | ReceiverGone \<Rightarrow> (Some (Inl err_eof), upd_obj c (\<lambda>cl. cl\<lparr>c_tx := ch_close X (c_tx cl)\<rparr>) b)
           | Drained n \<Rightarrow>
               (case ch_send X f (ch_drain X n (c_tx (obj b c))) of
                  Sent ch \<Rightarrow> (Some (Inr ()), upd_obj c (\<lambda>cl. cl\<lparr>c_tx := ch\<rparr>) b)
                | SendClosed \<Rightarrow> (Some (Inl err_eof), b)
                | SendFull \<Rightarrow> (None, b))))"

datatype broker_event = BrokerEvent (ev_s: string) (ev_d: "string option") (ev_t: u64) (ev_topic: string)

definition event_reg :: "string \<Rightarrow> broker_event" where
  "event_reg name = BrokerEvent ''reg'' (Some name) 0 BROKER_INFO_TOPIC"
definition event_unreg :: "string \<Rightarrow> broker_event" where
  "event_unreg name = BrokerEvent ''unreg'' (Some name) 0 BROKER_INFO_TOPIC"
definition event_shutdown :: broker_event where
  "event_shutdown = BrokerEvent ''shutdown'' None 0 BROKER_WARN_TOPIC"

type_synonym ('sm, 'bm, 'am, 'ch) announcer = "broker_event \<Rightarrow> ('sm, 'bm, 'am, 'ch, unit) bact"

text \<open>\<open>if let Err(e) = self.announce(..).await { error!(..) }\<close>\<close>

definition log_err :: "('s, error, unit) act \<Rightarrow> ('s, error, unit) act" where
  "log_err m s = (case m s of (Bail _, s') \<Rightarrow> (Done (), s') | r \<Rightarrow> r)"

definition unregister_client_with ::
  "('sm, 'bm, 'am, 'ch) ctx \<Rightarrow> ('sm, 'bm, 'am, 'ch) announcer \<Rightarrow> cid \<Rightarrow> ('sm, 'bm, 'am, 'ch, unit) bact" where
  "unregister_client_with X ann c b =
     (let was_registered = c_registered (obj b c);
          b1 = drop_client X c b
      in if c_primary (obj b c) \<and> was_registered
         then log_err (ann (event_unreg (c_name (obj b c)))) b1
         else (Done (), b1))"

definition safe_send_frame ::
  "('sm, 'bm, 'am, 'ch) ctx \<Rightarrow> ('sm, 'bm, 'am, 'ch) announcer \<Rightarrow> duration option \<Rightarrow> cid \<Rightarrow> frame
     \<Rightarrow> ('sm, 'bm, 'am, 'ch, error + unit) bact" where
  "safe_send_frame X ann timeout tgt f b =
     (if ch_is_full X (c_tx (obj b tgt)) then
        if c_kind (obj b tgt) = Internal then
          (case channel_send X tgt f b of
             (Some r, b') \<Rightarrow> (Done r, b')
           | (None, b') \<Rightarrow> (case timeout of Some _ \<Rightarrow> (Bail err_timeout, b') | None \<Rightarrow> (Pending, b')))
        else
          act_then (unregister_client_with X ann tgt) (\<lambda>_ b'.
            (Done (Inl err_not_delivered), upd_obj tgt (\<lambda>cl. cl\<lparr>c_tx := ch_close X (c_tx cl)\<rparr>) b')) b
      else
        (case channel_send X tgt f b of
           (Some r, b') \<Rightarrow> (Done r, b')
         | (None, b') \<Rightarrow> (Pending, b')))"

section \<open>The routing macros\<close>

definition send_msg ::
  "('sm, 'bm, 'am, 'ch) ctx \<Rightarrow> ('sm, 'bm, 'am, 'ch) announcer \<Rightarrow> cid \<Rightarrow> string \<Rightarrow> bytes option \<Rightarrow> bytes
     \<Rightarrow> usize \<Rightarrow> u64 \<Rightarrow> bool \<Rightarrow> duration option \<Rightarrow> ('sm, 'bm, 'am, 'ch, error + unit) bact" where
  "send_msg X ann client target header buf payload_pos len realtime timeout b =
     (let b1 = count_r client len b in
      case b_clients b1 target of
        Some tgt \<Rightarrow>
          safe_send_frame X ann timeout tgt
            (frame_new KMessage (Some (c_name (obj b client))) None header buf payload_pos realtime)
            (db_w 1 len (client_w tgt len b1))
      | None \<Rightarrow> (Done (Inl err_not_registered), b1))"

text \<open>The loop over the recipients: their results are dropped.\<close>

fun deliver ::
  "('sm, 'bm, 'am, 'ch) ctx \<Rightarrow> ('sm, 'bm, 'am, 'ch) announcer \<Rightarrow> duration option \<Rightarrow> u64 \<Rightarrow> frame \<Rightarrow> cref list
     \<Rightarrow> ('sm, 'bm, 'am, 'ch, unit) bact" where
  "deliver X ann timeout len f [] b = (Done (), b)"
| "deliver X ann timeout len f (sub # subs) b =
     act_then (safe_send_frame X ann timeout (snd sub) f) (\<lambda>_. deliver X ann timeout len f subs)
       (client_w (snd sub) len b)"

definition send_broadcast ::
  "('sm, 'bm, 'am, 'ch) ctx \<Rightarrow> ('sm, 'bm, 'am, 'ch) announcer \<Rightarrow> cid \<Rightarrow> string \<Rightarrow> bytes option \<Rightarrow> bytes
     \<Rightarrow> usize \<Rightarrow> u64 \<Rightarrow> bool \<Rightarrow> duration option \<Rightarrow> ('sm, 'bm, 'am, 'ch, unit) bact" where
  "send_broadcast X ann client target header buf payload_pos len realtime timeout b =
     (let b1 = count_r client len b;
          subs = bm_get_clients_by_mask X target (b_broadcasts b1)
      in if subs \<noteq> [] then
           deliver X ann timeout len
             (frame_new KBroadcast (Some (c_name (obj b client))) None header buf payload_pos realtime)
             subs (db_w (word_of_nat (length subs)) len b1)
         else (Done (), b1))"

definition not_excluded :: "('sm, 'bm, 'am, 'ch) ctx \<Rightarrow> string \<Rightarrow> ('am, 'ch) bus_client \<Rightarrow> bool" where
  "not_excluded X topic sub \<longleftrightarrow>
     \<not> c_has_exclusions sub \<or> \<not> am_matches X topic (c_exclusions sub)"

text \<open>The two forms of \<open>publish!\<close>: \<open>keep\<close> is the condition of \<open>retain\<close>.\<close>

definition publish_where ::
  "(('am, 'ch) bus_client \<Rightarrow> bool) \<Rightarrow> ('sm, 'bm, 'am, 'ch) ctx \<Rightarrow> ('sm, 'bm, 'am, 'ch) announcer \<Rightarrow> cid
     \<Rightarrow> string \<Rightarrow> bytes option \<Rightarrow> bytes \<Rightarrow> usize \<Rightarrow> u64 \<Rightarrow> bool \<Rightarrow> duration option
     \<Rightarrow> ('sm, 'bm, 'am, 'ch, unit) bact" where
  "publish_where keep X ann client topic header buf payload_pos len realtime timeout b =
     (let b1 = count_r client len b;
          subs = filter (\<lambda>sub. keep (obj b1 (snd sub))) (sm_get_subscribers X topic (b_subscriptions b1))
      in if subs \<noteq> [] then
           deliver X ann timeout len
             (frame_new KPublish (Some (c_name (obj b client))) (Some topic) header buf payload_pos realtime)
             subs (db_w (word_of_nat (length subs)) len b1)
         else (Done (), b1))"

definition publish ::
  "('sm, 'bm, 'am, 'ch) ctx \<Rightarrow> ('sm, 'bm, 'am, 'ch) announcer \<Rightarrow> cid \<Rightarrow> string \<Rightarrow> bytes option \<Rightarrow> bytes
     \<Rightarrow> usize \<Rightarrow> u64 \<Rightarrow> bool \<Rightarrow> duration option \<Rightarrow> ('sm, 'bm, 'am, 'ch, unit) bact" where
  "publish X ann client topic = publish_where (\<lambda>sub. not_excluded X topic sub) X ann client topic"

definition publish_for ::
  "('sm, 'bm, 'am, 'ch) ctx \<Rightarrow> ('sm, 'bm, 'am, 'ch) announcer \<Rightarrow> cid \<Rightarrow> string \<Rightarrow> string \<Rightarrow> bytes option \<Rightarrow> bytes
     \<Rightarrow> usize \<Rightarrow> u64 \<Rightarrow> bool \<Rightarrow> duration option \<Rightarrow> ('sm, 'bm, 'am, 'ch, unit) bact" where
  "publish_for X ann client topic receiver =
     publish_where (\<lambda>sub. c_primary_name sub = receiver \<and> not_excluded X topic sub) X ann client topic"

section \<open>Announcements\<close>

text \<open>
  The mutexes are released when the function returns, by whatever way; a call that waits forever
  keeps the ones it has.
\<close>

definition unlock_core :: "('e, 'a) eff \<times> ('sm, 'bm, 'am, 'ch) broker \<Rightarrow> ('e, 'a) eff \<times> ('sm, 'bm, 'am, 'ch) broker" where
  "unlock_core r = (case r of (Pending, b) \<Rightarrow> (Pending, b)
     | (v, b) \<Rightarrow> (v, b\<lparr>b_rpc_locked := False, b_core_locked := False\<rparr>))"

fun announce_fuel ::
  "('sm, 'bm, 'am, 'ch) ctx \<Rightarrow> nat \<Rightarrow> ('sm, 'bm, 'am, 'ch) announcer" where
  "announce_fuel X 0 event b = (Pending, b)"
| "announce_fuel X (Suc n) event b =
     (if b_rpc_locked b then (Pending, b)
      else case b_rpc_client b of
        None \<Rightarrow> (Done (), b)
      | Some c \<Rightarrow>
          if b_core_locked b then (Pending, b\<lparr>b_rpc_locked := True\<rparr>)
          else unlock_core
            (let b1 = b\<lparr>b_rpc_locked := True, b_core_locked := True\<rparr> in
             case rmp_event X (ev_s event) (ev_d event) (now_ns X) of
               Inl e \<Rightarrow> (Bail (err_data [Shown (ExternError e)]), b1)
             | Inr payload \<Rightarrow>
                 publish X (announce_fuel X n) c (ev_topic event) None payload 0
                   (word_of_nat (length payload)) (is_realtime QosNo) None b1))"

definition announce :: "('sm, 'bm, 'am, 'ch) ctx \<Rightarrow> ('sm, 'bm, 'am, 'ch) announcer" where
  "announce X = announce_fuel X 1"

section \<open>Registration\<close>

definition unregister_client :: "('sm, 'bm, 'am, 'ch) ctx \<Rightarrow> cid \<Rightarrow> ('sm, 'bm, 'am, 'ch, unit) bact" where
  "unregister_client X c = unregister_client_with X (announce X) c"

text \<open>The part of \<open>register_client\<close> before the announcement.\<close>

definition register_entry ::
  "('sm, 'bm, 'am, 'ch) ctx \<Rightarrow> cid \<Rightarrow> ('sm, 'bm, 'am, 'ch) broker \<Rightarrow> (error + unit) \<times> ('sm, 'bm, 'am, 'ch) broker" where
  "register_entry X c b =
     (let name = c_name (obj b c);
          allow_force = (c_primary (obj b c) \<and> b_force_register b)
      in case insert_client X c b of
           (Inr _, b1) \<Rightarrow> (Inr (), b1)
         | (Inl e, b1) \<Rightarrow>
             if e_kind e = Busy \<and> allow_force then
               (case b_clients b1 name of
                  Some prev \<Rightarrow>
                    insert_client X c
                      (trigger prev (drop_client X prev (b1\<lparr>b_clients := (b_clients b1)(name := None)\<rparr>)))
                | None \<Rightarrow> insert_client X c b1)
             else (Inl e, b1))"

definition register_client ::
  "('sm, 'bm, 'am, 'ch) ctx \<Rightarrow> cid \<Rightarrow> ('sm, 'bm, 'am, 'ch, unit) bact" where
  "register_client X c b =
     (case register_entry X c b of
        (Inl e, b1) \<Rightarrow> (Bail e, b1)
      | (Inr _, b1) \<Rightarrow>
          if c_primary (obj b c) then log_err (announce X (event_reg (c_name (obj b c)))) b1
          else (Done (), b1))"

section \<open>The internal client\<close>

record client =
  k_name :: string
  k_bus :: cid
  k_rx :: bool
  k_secondary_counter :: usize

type_synonym confirm = "(error + unit) option"

definition make_confirm_channel :: "QoS \<Rightarrow> confirm" where
  "make_confirm_channel qos = (if needs_ack qos then Some (Inr ()) else None)"

definition client_subscribe ::
  "('sm, 'bm, 'am, 'ch) ctx \<Rightarrow> client \<Rightarrow> string \<Rightarrow> QoS \<Rightarrow> ('sm, 'bm, 'am, 'ch, confirm) bact" where
  "client_subscribe X k topic qos b =
     (let (ok, m) = sm_subscribe X topic (cref_of b (k_bus k)) (b_subscriptions b);
          b1 = b\<lparr>b_subscriptions := m\<rparr>
      in if ok then (Done (make_confirm_channel qos), b1) else (Bail err_not_registered, b1))"

fun client_subscribe_bulk ::
  "('sm, 'bm, 'am, 'ch) ctx \<Rightarrow> client \<Rightarrow> string list \<Rightarrow> QoS \<Rightarrow> ('sm, 'bm, 'am, 'ch, confirm) bact" where
  "client_subscribe_bulk X k [] qos b = (Done (make_confirm_channel qos), b)"
| "client_subscribe_bulk X k (topic # topics) qos b =
     (let (ok, m) = sm_subscribe X topic (cref_of b (k_bus k)) (b_subscriptions b);
          b1 = b\<lparr>b_subscriptions := m\<rparr>
      in if ok then client_subscribe_bulk X k topics qos b1 else (Bail err_not_registered, b1))"

definition client_unsubscribe ::
  "('sm, 'bm, 'am, 'ch) ctx \<Rightarrow> client \<Rightarrow> string \<Rightarrow> QoS \<Rightarrow> ('sm, 'bm, 'am, 'ch, confirm) bact" where
  "client_unsubscribe X k topic qos b =
     (let (ok, m) = sm_unsubscribe X topic (cref_of b (k_bus k)) (b_subscriptions b);
          b1 = b\<lparr>b_subscriptions := m\<rparr>
      in if ok then (Done (make_confirm_channel qos), b1) else (Bail err_not_registered, b1))"

fun client_unsubscribe_bulk ::
  "('sm, 'bm, 'am, 'ch) ctx \<Rightarrow> client \<Rightarrow> string list \<Rightarrow> QoS \<Rightarrow> ('sm, 'bm, 'am, 'ch, confirm) bact" where
  "client_unsubscribe_bulk X k [] qos b = (Done (make_confirm_channel qos), b)"
| "client_unsubscribe_bulk X k (topic # topics) qos b =
     (let (ok, m) = sm_unsubscribe X topic (cref_of b (k_bus k)) (b_subscriptions b);
          b1 = b\<lparr>b_subscriptions := m\<rparr>
      in if ok then client_unsubscribe_bulk X k topics qos b1 else (Bail err_not_registered, b1))"

definition excl_insert :: "('sm, 'bm, 'am, 'ch) ctx \<Rightarrow> string \<Rightarrow> ('am, 'ch) bus_client \<Rightarrow> ('am, 'ch) bus_client" where
  "excl_insert X t cl = cl\<lparr>c_exclusions := am_insert X t (c_exclusions cl)\<rparr>"

definition excl_remove :: "('sm, 'bm, 'am, 'ch) ctx \<Rightarrow> string \<Rightarrow> ('am, 'ch) bus_client \<Rightarrow> ('am, 'ch) bus_client" where
  "excl_remove X t cl = cl\<lparr>c_exclusions := am_remove X t (c_exclusions cl)\<rparr>"

definition excl_settle :: "('sm, 'bm, 'am, 'ch) ctx \<Rightarrow> ('am, 'ch) bus_client \<Rightarrow> ('am, 'ch) bus_client" where
  "excl_settle X cl =
     (if am_is_empty X (c_exclusions cl) then cl\<lparr>c_has_exclusions := False\<rparr> else cl)"

definition client_exclude ::
  "('sm, 'bm, 'am, 'ch) ctx \<Rightarrow> client \<Rightarrow> string \<Rightarrow> QoS \<Rightarrow> ('sm, 'bm, 'am, 'ch, confirm) bact" where
  "client_exclude X k topic qos b =
     (Done (make_confirm_channel qos),
      upd_obj (k_bus k) (\<lambda>cl. excl_insert X topic (cl\<lparr>c_has_exclusions := True\<rparr>)) b)"

definition client_unexclude ::
  "('sm, 'bm, 'am, 'ch) ctx \<Rightarrow> client \<Rightarrow> string \<Rightarrow> QoS \<Rightarrow> ('sm, 'bm, 'am, 'ch, confirm) bact" where
  "client_unexclude X k topic qos b =
     (Done (make_confirm_channel qos),
      upd_obj (k_bus k) (\<lambda>cl. excl_settle X (excl_remove X topic cl)) b)"

definition client_exclude_bulk ::
  "('sm, 'bm, 'am, 'ch) ctx \<Rightarrow> client \<Rightarrow> string list \<Rightarrow> QoS \<Rightarrow> ('sm, 'bm, 'am, 'ch, confirm) bact" where
  "client_exclude_bulk X k topics qos b =
     (Done (make_confirm_channel qos),
      upd_obj (k_bus k)
        (\<lambda>cl. fold (excl_insert X) topics
           (if topics \<noteq> [] then cl\<lparr>c_has_exclusions := True\<rparr> else cl)) b)"

definition client_unexclude_bulk ::
  "('sm, 'bm, 'am, 'ch) ctx \<Rightarrow> client \<Rightarrow> string list \<Rightarrow> QoS \<Rightarrow> ('sm, 'bm, 'am, 'ch, confirm) bact" where
  "client_unexclude_bulk X k topics qos b =
     (Done (make_confirm_channel qos),
      upd_obj (k_bus k) (\<lambda>cl. excl_settle X (fold (excl_remove X) topics cl)) b)"

text \<open>\<open>send!(..)?; make_confirm_channel!(qos)\<close>\<close>

definition try_result :: "QoS \<Rightarrow> error + unit \<Rightarrow> ('sm, 'bm, 'am, 'ch, confirm) bact" where
  "try_result qos r b =
     (case r of Inl e \<Rightarrow> (Bail e, b) | Inr _ \<Rightarrow> (Done (make_confirm_channel qos), b))"

definition client_send ::
  "('sm, 'bm, 'am, 'ch) ctx \<Rightarrow> client \<Rightarrow> string \<Rightarrow> cow \<Rightarrow> QoS \<Rightarrow> ('sm, 'bm, 'am, 'ch, confirm) bact" where
  "client_send X k target payload qos =
     act_then (send_msg X (announce X) (k_bus k) target None (cow_to_vec payload) 0
       (word_of_nat (cow_len payload)) (is_realtime qos) None) (try_result qos)"

definition client_zc_send ::
  "('sm, 'bm, 'am, 'ch) ctx \<Rightarrow> client \<Rightarrow> string \<Rightarrow> cow \<Rightarrow> cow \<Rightarrow> QoS \<Rightarrow> ('sm, 'bm, 'am, 'ch, confirm) bact" where
  "client_zc_send X k target header payload qos =
     act_then (send_msg X (announce X) (k_bus k) target (Some (cow_to_vec header)) (cow_to_vec payload) 0
       (word_of_nat (cow_len payload + cow_len header)) (is_realtime qos) None) (try_result qos)"

definition client_send_broadcast ::
  "('sm, 'bm, 'am, 'ch) ctx \<Rightarrow> client \<Rightarrow> string \<Rightarrow> cow \<Rightarrow> QoS \<Rightarrow> ('sm, 'bm, 'am, 'ch, confirm) bact" where
  "client_send_broadcast X k target payload qos =
     act_then (send_broadcast X (announce X) (k_bus k) target None (cow_to_vec payload) 0
       (word_of_nat (cow_len payload)) (is_realtime qos) None)
       (\<lambda>_ b. (Done (make_confirm_channel qos), b))"

definition client_publish ::
  "('sm, 'bm, 'am, 'ch) ctx \<Rightarrow> client \<Rightarrow> string \<Rightarrow> cow \<Rightarrow> QoS \<Rightarrow> ('sm, 'bm, 'am, 'ch, confirm) bact" where
  "client_publish X k topic payload qos =
     act_then (publish X (announce X) (k_bus k) topic None (cow_to_vec payload) 0
       (word_of_nat (cow_len payload)) (is_realtime qos) None)
       (\<lambda>_ b. (Done (make_confirm_channel qos), b))"

definition client_publish_for ::
  "('sm, 'bm, 'am, 'ch) ctx \<Rightarrow> client \<Rightarrow> string \<Rightarrow> string \<Rightarrow> cow \<Rightarrow> QoS \<Rightarrow> ('sm, 'bm, 'am, 'ch, confirm) bact" where
  "client_publish_for X k topic receiver payload qos =
     act_then (publish_for X (announce X) (k_bus k) topic receiver None (cow_to_vec payload) 0
       (word_of_nat (cow_len payload)) (is_realtime qos) None)
       (\<lambda>_ b. (Done (make_confirm_channel qos), b))"

definition client_take_event_channel :: "client \<Rightarrow> bool \<times> client" where
  "client_take_event_channel k = (k_rx k, k\<lparr>k_rx := False\<rparr>)"

definition client_unregister :: "('sm, 'bm, 'am, 'ch) ctx \<Rightarrow> client \<Rightarrow> ('sm, 'bm, 'am, 'ch, unit) bact" where
  "client_unregister X k b =
     unregister_client X (k_bus k) (upd_obj (k_bus k) (\<lambda>cl. cl\<lparr>c_registered := False\<rparr>) b)"

definition client_drop :: "('sm, 'bm, 'am, 'ch) ctx \<Rightarrow> client \<Rightarrow> ('sm, 'bm, 'am, 'ch) broker \<Rightarrow> ('sm, 'bm, 'am, 'ch) broker" where
  "client_drop X k b = drop_client X (k_bus k) b"

section \<open>The broker's own methods\<close>

definition broker_create :: "('sm, 'bm, 'am, 'ch) ctx \<Rightarrow> bool \<Rightarrow> ('sm, 'bm, 'am, 'ch) broker" where
  "broker_create X force_register = (broker_db_default X)\<lparr>b_force_register := force_register\<rparr>"

definition broker_register_client ::
  "('sm, 'bm, 'am, 'ch) ctx \<Rightarrow> usize \<Rightarrow> string \<Rightarrow> ('sm, 'bm, 'am, 'ch, client) bact" where
  "broker_register_client X queue_size name b =
     (let (c, b1) = alloc (bus_client_new X name (primary_of name) queue_size Internal None None) b
      in act_then (register_client X c)
           (\<lambda>_ b2. (Done \<lparr>k_name = name, k_bus = c, k_rx = True, k_secondary_counter = 0\<rparr>, b2)) b1)"

text \<open>The counter of the primary client is returned with the result.\<close>

definition broker_register_secondary_for ::
  "('sm, 'bm, 'am, 'ch) ctx \<Rightarrow> usize \<Rightarrow> client \<Rightarrow> ('sm, 'bm, 'am, 'ch) broker
     \<Rightarrow> ((error, client) eff \<times> ('sm, 'bm, 'am, 'ch) broker) \<times> client" where
  "broker_register_secondary_for X queue_size k b =
     (if c_primary (obj b (k_bus k)) then
        (broker_register_client X queue_size
           (c_name (obj b (k_bus k)) @ SECONDARY_SEP @ show_nat (k_secondary_counter k)) b,
         k\<lparr>k_secondary_counter := k_secondary_counter k + 1\<rparr>)
      else ((Bail (err_not_supported [Lit ''not a primary client'']), b), k))"

definition broker_unregister_client :: "('sm, 'bm, 'am, 'ch) ctx \<Rightarrow> client \<Rightarrow> ('sm, 'bm, 'am, 'ch, unit) bact" where
  "broker_unregister_client X k = unregister_client X (k_bus k)"

definition force_disconnect ::
  "string \<Rightarrow> ('sm, 'bm, 'am, 'ch) broker \<Rightarrow> (error + unit) \<times> ('sm, 'bm, 'am, 'ch) broker" where
  "force_disconnect name b = trigger_disconnect name b"

text \<open>Dropping a core RPC client that was set before, with its tasks, is not modelled.\<close>

definition set_core_rpc_client ::
  "cid \<Rightarrow> ('sm, 'bm, 'am, 'ch, unit) bact" where
  "set_core_rpc_client c b =
     (if b_rpc_locked b then (Pending, b) else (Done (), b\<lparr>b_rpc_client := Some c\<rparr>))"

definition init_default_core_rpc ::
  "('sm, 'bm, 'am, 'ch) ctx \<Rightarrow> usize \<Rightarrow> ('sm, 'bm, 'am, 'ch, unit) bact" where
  "init_default_core_rpc X queue_size =
     act_then (broker_register_client X queue_size BROKER_NAME) (\<lambda>k. set_core_rpc_client (k_bus k))"

definition broker_announce :: "('sm, 'bm, 'am, 'ch) ctx \<Rightarrow> broker_event \<Rightarrow> ('sm, 'bm, 'am, 'ch, unit) bact" where
  "broker_announce X event = announce X event"

end
