(* ===== verification/Bus_Routing_Inv.thy ===== *)
theory Bus_Routing_Inv
  imports Bus_Routing
begin

text \<open>
  The routing and registration operations keep the registry invariant, the fuel of the announcement is
  enough, and registration has the outcome its callers expect on every branch.
\<close>

section \<open>Changes the registry does not see\<close>

definition same_obj :: "('am, 'ch) bus_client \<Rightarrow> ('am, 'ch) bus_client \<Rightarrow> bool" where
  "same_obj cl cl' \<longleftrightarrow>
     c_name cl' = c_name cl \<and> c_digest cl' = c_digest cl \<and> c_primary_name cl' = c_primary_name cl \<and>
     c_kind cl' = c_kind cl \<and> c_primary cl' = c_primary cl \<and> c_registered cl' = c_registered cl \<and>
     c_secondaries cl' = c_secondaries cl"

definition same_registry :: "('sm, 'bm, 'am, 'ch) broker \<Rightarrow> ('sm, 'bm, 'am, 'ch) broker \<Rightarrow> bool" where
  "same_registry b b' \<longleftrightarrow>
     list_all2 same_obj (b_objs b) (b_objs b') \<and> b_clients b' = b_clients b \<and>
     b_subscriptions b' = b_subscriptions b \<and> b_broadcasts b' = b_broadcasts b"

lemma same_obj_refl [simp]: "same_obj cl cl"
  by (simp add: same_obj_def)

lemma same_obj_nth: "list_all2 same_obj xs ys \<Longrightarrow> same_obj (xs ! i) (ys ! i)"
proof (induction xs ys arbitrary: i rule: list_all2_induct)
  case (Cons x xs y ys)
  then show ?case by (cases i) simp_all
qed simp

lemma same_registryD:
  assumes "same_registry b b'"
  shows "length (b_objs b') = length (b_objs b)" "b_clients b' = b_clients b"
    "b_subscriptions b' = b_subscriptions b" "b_broadcasts b' = b_broadcasts b"
    "same_obj (obj b c) (obj b' c)" "live b' c \<longleftrightarrow> live b c"
proof -
  show "length (b_objs b') = length (b_objs b)" "b_clients b' = b_clients b"
    "b_subscriptions b' = b_subscriptions b" "b_broadcasts b' = b_broadcasts b"
    using assms by (auto simp: same_registry_def dest: list_all2_lengthD)
  show s: "same_obj (obj b c) (obj b' c)" for c
    using assms by (simp add: same_registry_def same_obj_nth)
  show "live b' c \<longleftrightarrow> live b c"
    using assms s [of c] by (auto simp: live_def same_registry_def same_obj_def dest: list_all2_lengthD)
qed

lemma same_registry_refl [simp]: "same_registry b b"
  by (simp add: same_registry_def list_all2_refl)

lemma same_registry_trans: "same_registry a b \<Longrightarrow> same_registry b c \<Longrightarrow> same_registry a c"
  unfolding same_registry_def
  using list_all2_trans [of same_obj same_obj same_obj "b_objs a" "b_objs b" "b_objs c"]
  by (simp add: same_obj_def)

lemma same_registry_upd_obj:
  assumes "\<And>cl. same_obj cl (f cl)"
  shows "same_registry b (upd_obj c f b)"
  using assms by (auto simp: same_registry_def upd_obj_def list_all2_conv_all_nth nth_upd)

lemma same_registry_inv:
  assumes "same_registry b b'"
  shows "db_inv X smv bmv N b' \<longleftrightarrow> db_inv X smv bmv N b"
  using same_registryD [OF assms]
  by (simp add: db_inv_def db_inv_ex_def db_inv_parts obj_wf_def same_obj_def)

lemma same_registry_count_r: "same_registry b (count_r c len b)"
  using same_registry_upd_obj
    [of "\<lambda>cl. cl\<lparr>c_r_frames := c_r_frames cl + 1, c_r_bytes := c_r_bytes cl + len\<rparr>" b c]
  by (simp add: count_r_def same_registry_def same_obj_def Let_def)

lemma same_registry_client_w: "same_registry b (client_w c len b)"
  unfolding client_w_def by (rule same_registry_upd_obj) (simp add: same_obj_def)

lemma same_registry_db_w: "same_registry b (db_w n len b)"
  by (simp add: db_w_def same_registry_def list_all2_refl)

lemma same_registry_locks:
  "same_registry b (b\<lparr>b_rpc_locked := r\<rparr>)" "same_registry b (b\<lparr>b_core_locked := l\<rparr>)"
  "same_registry b (b\<lparr>b_rpc_locked := r, b_core_locked := l\<rparr>)"
  "same_registry b (b\<lparr>b_rpc_client := rc\<rparr>)"
  by (simp_all add: same_registry_def list_all2_refl)

lemma same_registry_tx: "same_registry b (upd_obj c (\<lambda>cl. cl\<lparr>c_tx := g cl\<rparr>) b)"
  by (rule same_registry_upd_obj) (simp add: same_obj_def)

lemma same_registry_exclusions:
  "same_registry b (upd_obj c (\<lambda>cl. cl\<lparr>c_has_exclusions := h cl, c_exclusions := g cl\<rparr>) b)"
  by (rule same_registry_upd_obj) (simp add: same_obj_def)

lemma same_registry_channel_send: "same_registry b (snd (channel_send X c f b))"
  by (auto simp: channel_send_def same_registry_tx split: send_poll.splits waited.splits)

lemmas same_registry_rules = same_registry_count_r same_registry_client_w same_registry_db_w
  same_registry_locks same_registry_tx same_registry_exclusions same_registry_channel_send

lemmas same_registry_keeps [simp] = same_registry_rules [THEN same_registry_inv]

section \<open>Routing keeps what dropping clients keeps\<close>

text \<open>An announcement keeps a state predicate.\<close>

definition ann_keeps :: "(('sm, 'bm, 'am, 'ch) broker \<Rightarrow> bool) \<Rightarrow> ('sm, 'bm, 'am, 'ch) announcer \<Rightarrow> bool" where
  "ann_keeps P ann \<longleftrightarrow> (\<forall>ev b. P b \<longrightarrow> P (snd (ann ev b)))"

lemma log_err_snd [simp]: "snd (log_err m s) = snd (m s)"
  by (auto simp: log_err_def split: prod.splits eff.splits)

text \<open>
  All a routing operation can do to the registry is to drop clients.  So it keeps every property of the
  registry that dropping a client keeps.
\<close>

locale routing_invariant =
  fixes X :: "('sm, 'bm, 'am, 'ch) ctx"
    and Q :: "('sm, 'bm, 'am, 'ch) broker \<Rightarrow> bool"
  assumes Q_same: "same_registry b b' \<Longrightarrow> Q b \<Longrightarrow> Q b'"
    and Q_drop: "Q b \<Longrightarrow> Q (drop_client X c b)"
begin

lemmas Q_rules = same_registry_rules [THEN Q_same]

lemma unregister_client_with_keeps:
  assumes "ann_keeps Q ann" and "Q b"
  shows "Q (snd (unregister_client_with X ann c b))"
  using assms by (simp add: unregister_client_with_def Let_def ann_keeps_def Q_drop)

lemma safe_send_frame_keeps:
  assumes ann: "ann_keeps Q ann" and b: "Q b"
  shows "Q (snd (safe_send_frame X ann timeout c f b))"
proof -
  obtain r b' where s: "channel_send X c f b = (r, b')" by (cases "channel_send X c f b")
  then have "Q b'" using Q_same [OF same_registry_channel_send b, of X c f] by simp
  moreover have "Q (snd (act_then (unregister_client_with X ann c) (\<lambda>_ b'.
      (Done (Inl err_not_delivered), upd_obj c (\<lambda>cl. cl\<lparr>c_tx := ch_close X (c_tx cl)\<rparr>) b')) b))"
    using b by (rule act_then_keeps) (simp_all add: unregister_client_with_keeps [OF ann] Q_rules)
  ultimately show ?thesis
    by (auto simp: safe_send_frame_def s split: option.splits)
qed

lemma send_msg_keeps:
  assumes "ann_keeps Q ann" and "Q b"
  shows "Q (snd (send_msg X ann client target header buf pos len rt timeout b))"
  using assms by (simp add: send_msg_def Let_def safe_send_frame_keeps Q_rules split: option.splits)

lemma deliver_keeps:
  assumes ann: "ann_keeps Q ann"
  shows "Q b \<Longrightarrow> Q (snd (deliver X ann timeout len f subs b))"
proof (induction subs arbitrary: b)
  case (Cons sub subs)
  have "Q (client_w (snd sub) len b)" using Cons.prems by (simp add: Q_rules)
  then show ?case
    by (simp, elim act_then_keeps) (simp_all add: safe_send_frame_keeps [OF ann] Cons.IH)
qed simp

lemma send_broadcast_keeps:
  assumes "ann_keeps Q ann" and "Q b"
  shows "Q (snd (send_broadcast X ann client target header buf pos len rt timeout b))"
  using assms by (simp add: send_broadcast_def Let_def deliver_keeps Q_rules)

lemma publish_where_keeps:
  assumes "ann_keeps Q ann" and "Q b"
  shows "Q (snd (publish_where keep X ann client topic header buf pos len rt timeout b))"
  using assms by (simp add: publish_where_def Let_def deliver_keeps Q_rules)

lemma unlock_core_keeps: "Q (snd r) \<Longrightarrow> Q (snd (unlock_core r))"
  by (auto simp: unlock_core_def Q_rules split: prod.splits eff.splits)

lemma announce_fuel_keeps: "ann_keeps Q (announce_fuel X n)"
proof (induction n)
  case 0
  then show ?case by (simp add: ann_keeps_def)
next
  case (Suc n)
  have "Q (snd (announce_fuel X (Suc n) ev b))" if "Q b" for ev b
    using that Suc
    by (auto simp: Let_def publish_def Q_rules intro!: unlock_core_keeps publish_where_keeps
        split: option.splits sum.splits)
  then show ?case by (simp add: ann_keeps_def del: announce_fuel.simps)
qed

lemma announce_keeps: "ann_keeps Q (announce X)"
  by (simp add: announce_def announce_fuel_keeps del: One_nat_def)

lemma unregister_client_keeps: "Q b \<Longrightarrow> Q (snd (unregister_client X c b))"
  by (simp add: unregister_client_def unregister_client_with_keeps announce_keeps)

lemma publish_keeps: "Q b \<Longrightarrow> Q (snd (publish X (announce X) client topic header buf pos len rt timeout b))"
  by (simp add: publish_def publish_where_keeps announce_keeps)

lemma publish_for_keeps:
  "Q b \<Longrightarrow> Q (snd (publish_for X (announce X) client topic receiver header buf pos len rt timeout b))"
  by (simp add: publish_for_def publish_where_keeps announce_keeps)

end

sublocale broker_libs \<subseteq> dbinv: routing_invariant X "db_inv X smv bmv N" for N
  by unfold_locales (simp_all add: same_registry_inv drop_client_inv)

context broker_libs
begin

abbreviation dbi :: "string set \<Rightarrow> ('sm, 'bm, 'am, 'ch) broker \<Rightarrow> bool" where
  "dbi N \<equiv> db_inv X smv bmv N"

end

section \<open>Fuel\<close>

text \<open>An announcement that finds the core RPC client locked waits, whatever its fuel.\<close>

lemma announce_fuel_locked: "b_rpc_locked b \<Longrightarrow> announce_fuel X n ev b = (Pending, b)"
  by (cases n) simp_all

lemma db_frame_locks:
  "db_frame b b' \<Longrightarrow> b_rpc_locked b' = b_rpc_locked b"
  "db_frame b b' \<Longrightarrow> b_rpc_client b' = b_rpc_client b"
  "db_frame b b' \<Longrightarrow> b_core_locked b' = b_core_locked b"
  by (cases b; cases b'; simp add: db_frame_def)+

lemma drop_client_locks [simp]:
  "b_rpc_locked (drop_client X c b) = b_rpc_locked b"
  "b_core_locked (drop_client X c b) = b_core_locked b"
  "b_rpc_client (drop_client X c b) = b_rpc_client b"
  using db_frame_locks [OF db_frame_drop(1)] by blast+

lemma drop_client_length [simp]: "length (b_objs (drop_client X c b)) = length (b_objs b)"
  by (rule db_frame_length [OF db_frame_drop(1)])

lemma upd_obj_locks [simp]:
  "b_rpc_locked (upd_obj c f b) = b_rpc_locked b" "b_core_locked (upd_obj c f b) = b_core_locked b"
  "b_rpc_client (upd_obj c f b) = b_rpc_client b" "b_clients (upd_obj c f b) = b_clients b"
  "b_subscriptions (upd_obj c f b) = b_subscriptions b" "b_broadcasts (upd_obj c f b) = b_broadcasts b"
  "length (b_objs (upd_obj c f b)) = length (b_objs b)"
  by (simp_all add: upd_obj_def)

lemma channel_send_locks [simp]:
  "b_rpc_locked (snd (channel_send X c f b)) = b_rpc_locked b"
  "b_core_locked (snd (channel_send X c f b)) = b_core_locked b"
  "b_rpc_client (snd (channel_send X c f b)) = b_rpc_client b"
  by (auto simp: channel_send_def split: send_poll.splits waited.splits)

lemma counter_locks [simp]:
  "b_rpc_locked (count_r c len b) = b_rpc_locked b" "b_rpc_locked (client_w c len b) = b_rpc_locked b"
  "b_rpc_locked (db_w n len b) = b_rpc_locked b"
  "b_rpc_client (count_r c len b) = b_rpc_client b" "b_rpc_client (client_w c len b) = b_rpc_client b"
  "b_rpc_client (db_w n len b) = b_rpc_client b"
  by (simp_all add: count_r_def client_w_def db_w_def Let_def)

text \<open>Two announcements that agree while the lock is held make no difference then.\<close>

definition ann_agree :: "('sm, 'bm, 'am, 'ch) announcer \<Rightarrow> ('sm, 'bm, 'am, 'ch) announcer \<Rightarrow> bool" where
  "ann_agree ann ann' \<longleftrightarrow> (\<forall>ev b. b_rpc_locked b \<longrightarrow> ann ev b = (Pending, b) \<and> ann' ev b = (Pending, b))"

lemma unregister_client_with_locked:
  assumes "ann_agree ann ann'" and "b_rpc_locked b"
  shows "unregister_client_with X ann c b = unregister_client_with X ann' c b"
    and "b_rpc_locked (snd (unregister_client_with X ann c b))"
  using assms by (simp_all add: unregister_client_with_def log_err_def Let_def ann_agree_def)

lemma safe_send_frame_locked:
  assumes "ann_agree ann ann'" and "b_rpc_locked b"
  shows "safe_send_frame X ann timeout c f b = safe_send_frame X ann' timeout c f b"
    and "b_rpc_locked (snd (safe_send_frame X ann timeout c f b))"
proof -
  note u = unregister_client_with_locked [OF assms]
  show "safe_send_frame X ann timeout c f b = safe_send_frame X ann' timeout c f b"
    by (simp add: safe_send_frame_def act_then_def u)
  obtain r b1 where c: "channel_send X c f b = (r, b1)" by (cases "channel_send X c f b")
  obtain v b2 where d: "unregister_client_with X ann c b = (v, b2)"
    by (cases "unregister_client_with X ann c b")
  have "b_rpc_locked b1" "b_rpc_locked b2"
    using c d u(2) [of X c] assms channel_send_locks(1) [of X c f b] by simp_all
  then show "b_rpc_locked (snd (safe_send_frame X ann timeout c f b))"
    by (auto simp: safe_send_frame_def act_then_def c d split: option.splits eff.splits)
qed

lemma deliver_locked:
  assumes "ann_agree ann ann'"
  shows "b_rpc_locked b \<Longrightarrow> deliver X ann timeout len f subs b = deliver X ann' timeout len f subs b"
proof (induction subs arbitrary: b)
  case (Cons sub subs)
  then have w: "b_rpc_locked (client_w (snd sub) len b)" by simp
  note s = safe_send_frame_locked [OF assms w, of X timeout "snd sub" f]
  show ?case
    using s Cons.IH by (auto simp: act_then_def split: prod.splits eff.splits)
qed simp

lemma announce_fuel_enough: "announce_fuel X (Suc n) ev b = announce X ev b"
proof -
  have "ann_agree (announce_fuel X n) (announce_fuel X 0)"
    by (simp add: ann_agree_def announce_fuel_locked)
  then show ?thesis
    by (simp add: announce_def publish_def publish_where_def Let_def deliver_locked
        split: option.splits sum.splits)
qed

lemma announce_locked: "b_rpc_locked b \<Longrightarrow> announce X ev b = (Pending, b)"
  by (simp add: announce_def)

lemma announce_no_core: "\<not> b_rpc_locked b \<Longrightarrow> b_rpc_client b = None \<Longrightarrow> announce X ev b = (Done (), b)"
  by (simp add: announce_def)

section \<open>Registration\<close>

lemma deregister_removed:
  "c_name (obj b c) = n \<Longrightarrow> deregister X c (b\<lparr>b_clients := (b_clients b)(n := None)\<rparr>) = deregister X c b"
  by (simp add: deregister_def upd_obj_def cref_of_def Let_def)

text \<open>Removing the table entry before \<open>drop_client\<close>, as the force path does, changes nothing.\<close>

lemma drop_client_removed:
  assumes "live b c" and "c_name (obj b c) = n"
  shows "drop_client X c (b\<lparr>b_clients := (b_clients b)(n := None)\<rparr>) = drop_client X c b"
  using assms
  by (subst (1 2) drop_client.simps) (simp add: live_def deregister_removed Let_def split: option.splits)

context broker_libs
begin

lemma drop_client_obj:
  "c < length (b_objs b) \<Longrightarrow> obj_frame (obj b c) (obj (drop_client X k b) c)"
  by (rule db_frame_obj [OF db_frame_drop(1)])

lemma live_drop_client: "live (drop_client X k b) c \<Longrightarrow> live b c"
  if "dbi N b" for N
proof -
  assume l: "live (drop_client X k b) c"
  have len: "c < length (b_objs b)"
    using l by (simp add: live_def)
  have nm: "c_name (obj (drop_client X k b) c) = c_name (obj b c)"
    using obj_frameD(1) [OF drop_client_obj [OF len]] by simp
  have "clients_ok (drop_client X k b)" and ck: "clients_ok b"
    using that drop_client_inv [of N b k] by (simp_all add: db_inv_def db_inv_ex_def)
  then have *: "b_clients (drop_client X k b) (c_name (obj b c)) = Some c"
    using l nm clients_okD by metis
  show "live b c"
  proof (cases "live b k")
    case True
    then have "b_clients b (c_name (obj b c)) = Some c"
      using * drop_client_clients [OF that True] by (auto split: if_splits)
    then show ?thesis using clients_okD [OF ck] by blast
  next
    case False
    then show ?thesis using l by (simp add: live_def)
  qed
qed

text \<open>Registration keeps the invariant.\<close>

lemma register_entry_inv:
  assumes inv: "dbi N b" and c: "c < length (b_objs b)" and new: "\<not> c_registered (obj b c)"
  shows "dbi N (snd (register_entry X c b))"
proof -
  have ins: "dbi N (snd (insert_client X c b))" using assms by (rule insert_client_inv)
  show ?thesis
  proof (cases "fst (insert_client X c b)")
    case (Inr u)
    then obtain b1 where "insert_client X c b = (Inr (), b1)" by (cases "insert_client X c b") auto
    with ins show ?thesis by (simp add: register_entry_def Let_def)
  next
    case (Inl e)
    then have i: "insert_client X c b = (Inl e, b)"
      using c by (auto simp: insert_client_cases Let_def split: if_splits)
    show ?thesis
    proof (cases "b_clients b (c_name (obj b c))")
      case None
      then show ?thesis using i ins by (simp add: register_entry_def Let_def)
    next
      case (Some prev)
      have "clients_ok b" using inv by (simp add: db_inv_def db_inv_ex_def)
      then have p: "live b prev" "c_name (obj b prev) = c_name (obj b c)"
        using Some clients_okD by blast+
      have "\<not> live b c" using new by (simp add: live_def)
      then have d: "dbi N (trigger prev (drop_client X prev b))"
        using drop_client_inv [OF inv, of prev] by (simp add: db_inv_def)
      have "\<not> live (drop_client X prev b) c" using live_drop_client [OF inv] \<open>\<not> live b c\<close> by blast
      then have "\<not> c_registered (obj (trigger prev (drop_client X prev b)) c)"
        using c by (simp add: live_def obj_trigger)
      then have "dbi N (snd (insert_client X c (trigger prev (drop_client X prev b))))"
        using d c by (intro insert_client_inv) simp_all
      then show ?thesis
        using Some i ins p by (simp add: register_entry_def Let_def drop_client_removed)
    qed
  qed
qed

lemma register_client_inv:
  assumes "dbi N b" and "c < length (b_objs b)" and "\<not> c_registered (obj b c)"
  shows "dbi N (snd (register_client X c b))"
proof (cases "register_entry X c b")
  case (Pair r b1)
  then have "dbi N b1" using register_entry_inv [OF assms] by simp
  with Pair show ?thesis using dbinv.announce_keeps [of N]
    by (cases r) (simp_all add: register_client_def ann_keeps_def)
qed

end

text \<open>A client that is gone stays gone: nothing routing does registers a client.\<close>

sublocale broker_libs \<subseteq> gone: routing_invariant X "\<lambda>b. db_inv X smv bmv N b \<and> \<not> live b c" for N c
proof
  fix b b' assume "same_registry b b'" and "db_inv X smv bmv N b \<and> \<not> live b c"
  then show "db_inv X smv bmv N b' \<and> \<not> live b' c"
    by (simp add: same_registry_inv same_registryD(6))
next
  fix b k assume "db_inv X smv bmv N b \<and> \<not> live b c"
  then show "db_inv X smv bmv N (drop_client X k b) \<and> \<not> live (drop_client X k b) c"
    using drop_client_inv live_drop_client by blast
qed

end
