(* ===== verification/Bus_Ids.thy ===== *)
theory Bus_Ids
  imports Bus_Prelude
begin

text \<open>
  The identifier sources of the crate: the frame id of the IPC clients and the call id of the RPC
  clients are 32-bit counters that skip 0, because 0 means that no response is wanted.  The locale
  states the two equations all four counters satisfy, and its lemmas say what the rest of the crate
  relies on: an issued id is never 0, and an id comes back only after all the others.
\<close>

definition id_period :: nat where
  "id_period = 2 ^ 32 - 1"

locale id_source =
  fixes next_id :: "u32 \<Rightarrow> u32"
  assumes next_max: "next_id (- 1) = 1"
    and next_inc: "w \<noteq> - 1 \<Longrightarrow> next_id w = w + 1"
begin

lemma next_nonzero: "next_id w \<noteq> 0"
proof (cases "w = - 1")
  case True
  then show ?thesis by (simp add: next_max)
next
  case False
  have "w + 1 \<noteq> 0"
  proof
    assume "w + 1 = 0"
    then have "w = - 1" by (simp add: eq_neg_iff_add_eq_0)
    with False show False by simp
  qed
  with False show ?thesis by (simp add: next_inc)
qed

lemma unat_next: "unat (next_id w) = unat w mod id_period + 1"
proof (cases "w = - 1")
  case True
  then show ?thesis by (simp add: next_max id_period_def unsigned_minus_1_eq_mask mask_eq_exp_minus_1)
next
  case False
  then have "w < - 1" by (simp add: order.not_eq_order_implies_strict)
  then have lt: "unat w < 2 ^ 32 - 1"
    by (simp add: word_less_nat_alt unsigned_minus_1_eq_mask mask_eq_exp_minus_1)
  have "unat (w + 1) = unat w + 1"
    using lt by (simp add: unat_word_ariths)
  with False lt show ?thesis by (simp add: next_inc id_period_def)
qed

lemma unat_iterate: "unat ((next_id ^^ Suc k) w) = (unat w + k) mod id_period + 1"
proof (induction k)
  case 0
  then show ?case by (simp add: unat_next)
next
  case (Suc k)
  have "unat ((next_id ^^ Suc (Suc k)) w) = unat ((next_id ^^ Suc k) w) mod id_period + 1"
    by (simp add: unat_next)
  also have "\<dots> = (unat w + Suc k) mod id_period + 1"
    unfolding Suc.IH by (simp add: mod_simps)
  finally show ?case .
qed

lemma issued_nonzero: "(next_id ^^ Suc k) w \<noteq> 0"
  by (simp add: next_nonzero)

lemma issued_distinct:
  assumes "i < j" and "j < i + id_period"
  shows "(next_id ^^ Suc i) w \<noteq> (next_id ^^ Suc j) w"
proof
  assume "(next_id ^^ Suc i) w = (next_id ^^ Suc j) w"
  then have "unat ((next_id ^^ Suc i) w) = unat ((next_id ^^ Suc j) w)" by (simp only:)
  then have "(unat w + j) mod id_period = (unat w + i) mod id_period"
    by (simp only: unat_iterate)
  then have "id_period dvd (unat w + j) - (unat w + i)"
    using assms(1) by (metis mod_eq_dvd_iff_nat nat_add_left_cancel_le order.strict_implies_order)
  then have "id_period dvd j - i" by simp
  with assms show False by (auto dest: dvd_imp_le)
qed

lemma issued_reused: "(next_id ^^ Suc (k + id_period)) w = (next_id ^^ Suc k) w"
proof -
  have "unat ((next_id ^^ Suc (k + id_period)) w) = unat ((next_id ^^ Suc k) w)"
    by (simp only: unat_iterate) (simp flip: add.assoc)
  then show ?thesis by (rule word_unat_eq_iff [THEN iffD2])
qed

end

end
