(* ===== verification/Bus_Ipc.thy ===== *)
theory Bus_Ipc
  imports Bus_Core Bus_Ids
begin

text \<open>
  The asynchronous IPC client, \<open>src/src/ipc.rs\<close>: the frames its methods write, the pending
  acknowledgements, the reader of the broker's frames and the client side of the handshake.

  A connection is the byte stream the broker sends (\<^typ>\<open>stream\<close>) and the bytes written to it.
  How a write ends (done, an I/O error, the timeout, or the caller dropping the future) is an
  argument of the operation.  A \<open>oneshot\<close> channel is a ticket number; what is sent into it is
  recorded in \<open>i_results\<close>.
\<close>

section \<open>Configuration and client state\<close>

record ipc_config =
  cfg_path :: string
  cfg_name :: string
  cfg_buf_size :: usize
  cfg_buf_ttl :: duration
  cfg_queue_size :: usize
  cfg_timeout :: duration
  cfg_token :: "string option"

definition ipc_config_new :: "string \<Rightarrow> string \<Rightarrow> ipc_config" where
  "ipc_config_new path name = \<lparr>cfg_path = path, cfg_name = name, cfg_buf_size = 8192,
     cfg_buf_ttl = 10000, cfg_queue_size = 8192, cfg_timeout = 1000000000, cfg_token = None\<rparr>"

type_synonym ticket = nat

record ipc_client =
  i_name :: string
  i_frame_id :: u32
  i_responses :: "u32 \<rightharpoonup> ticket"
  i_next_ticket :: ticket
  i_results :: "ticket \<rightharpoonup> (error + unit)"
  i_connected :: bool
  i_reader_alive :: bool
  i_written :: bytes
  i_config :: ipc_config
  i_secondary_counter :: usize

definition ipc_client_new :: "ipc_config \<Rightarrow> ipc_client" where
  "ipc_client_new cfg = \<lparr>i_name = cfg_name cfg, i_frame_id = 0, i_responses = Map.empty,
     i_next_ticket = 0, i_results = Map.empty, i_connected = True, i_reader_alive = True,
     i_written = [], i_config = cfg, i_secondary_counter = 0\<rparr>"

section \<open>Writing\<close>

datatype write_outcome = Written | WriteErr io_kind | WriteElapsed | WriteCancelled

text \<open>\<open>reader_fut.abort()\<close> and \<open>connected.store(false)\<close>.\<close>

definition mark_disconnected :: "ipc_client \<Rightarrow> ipc_client" where
  "mark_disconnected cl = cl\<lparr>i_reader_alive := False, i_connected := False\<rparr>"

definition send_data_or_mark_disconnected ::
  "write_outcome \<Rightarrow> bytes \<Rightarrow> (ipc_client, error, unit) act" where
  "send_data_or_mark_disconnected w data cl =
     (case w of
        Written \<Rightarrow> (Done (), cl\<lparr>i_written := i_written cl @ data\<rparr>)
      | WriteErr k \<Rightarrow> (Bail (err_from_io k), mark_disconnected cl)
      | WriteElapsed \<Rightarrow> (Bail err_timeout, mark_disconnected cl)
      | WriteCancelled \<Rightarrow> (Pending, cl))"

text \<open>\<open>FrameWriteGuard\<close>: while armed, leaving the scope disconnects the client.\<close>

definition frame_write_guard :: "(ipc_client, error, 'a) act \<Rightarrow> (ipc_client, error, 'a) act" where
  "frame_write_guard body cl =
     (case body cl of (Done x, cl') \<Rightarrow> (Done x, cl') | (r, cl') \<Rightarrow> (r, mark_disconnected cl'))"

definition increment_frame_id :: "u32 \<Rightarrow> u32" where
  "increment_frame_id frame_id = (if frame_id = - 1 then 1 else frame_id + 1)"

definition prepare_frame_buf :: "FrameOp \<Rightarrow> QoS \<Rightarrow> ipc_client \<Rightarrow> bytes \<times> ipc_client" where
  "prepare_frame_buf op qos cl =
     (let cl' = cl\<lparr>i_frame_id := increment_frame_id (i_frame_id cl)\<rparr>
      in (le32 (i_frame_id cl') @ [frame_flags op qos], cl'))"

definition register_response :: "QoS \<Rightarrow> ipc_client \<Rightarrow> ticket option \<times> ipc_client" where
  "register_response qos cl =
     (if needs_ack qos then
        (Some (i_next_ticket cl),
         cl\<lparr>i_responses := (i_responses cl)(i_frame_id cl \<mapsto> i_next_ticket cl),
            i_next_ticket := i_next_ticket cl + 1\<rparr>)
      else (None, cl))"

definition send_frame_and_confirm ::
  "write_outcome \<times> write_outcome \<Rightarrow> bytes \<Rightarrow> bytes \<Rightarrow> QoS \<Rightarrow> (ipc_client, error, ticket option) act" where
  "send_frame_and_confirm w buf pl qos cl =
     (let (rx, cl') = register_response qos cl
      in frame_write_guard
           (act_then (send_data_or_mark_disconnected (fst w) buf) (\<lambda>_.
            act_then (send_data_or_mark_disconnected (snd w) pl) (\<lambda>_ cl''. (Done rx, cl'')))) cl')"

definition send_zc_frame ::
  "write_outcome \<times> write_outcome \<Rightarrow> string \<Rightarrow> bytes \<Rightarrow> bytes \<Rightarrow> FrameOp \<Rightarrow> QoS
     \<Rightarrow> (ipc_client, error, ticket option) act" where
  "send_zc_frame w target header pl op qos cl =
     (let t = as_bytes target;
          (buf, cl') = prepare_frame_buf op qos cl;
          len = word_of_nat (length t + length pl + length header + 1) :: u32
      in send_frame_and_confirm w (buf @ le32 len @ t @ [0] @ header) pl qos cl')"

definition send_frame ::
  "write_outcome \<times> write_outcome \<Rightarrow> string \<Rightarrow> bytes \<Rightarrow> FrameOp \<Rightarrow> QoS
     \<Rightarrow> (ipc_client, error, ticket option) act" where
  "send_frame w target pl op qos cl =
     (let t = as_bytes target;
          (buf, cl') = prepare_frame_buf op qos cl;
          len = word_of_nat (length t + length pl + 1) :: u32
      in send_frame_and_confirm w (buf @ le32 len @ t @ [0]) pl qos cl')"

definition send_frame_receiver ::
  "write_outcome \<times> write_outcome \<Rightarrow> string \<Rightarrow> string \<Rightarrow> bytes \<Rightarrow> FrameOp \<Rightarrow> QoS
     \<Rightarrow> (ipc_client, error, ticket option) act" where
  "send_frame_receiver w target receiver pl op qos cl =
     (let t = as_bytes target;
          r = as_bytes receiver;
          (buf, cl') = prepare_frame_buf op qos cl;
          len = word_of_nat (length t + length r + length pl + 2) :: u32
      in send_frame_and_confirm w (buf @ le32 len @ t @ [0] @ r @ [0]) pl qos cl')"

definition send_frame_plain ::
  "write_outcome \<times> write_outcome \<Rightarrow> bytes \<Rightarrow> FrameOp \<Rightarrow> QoS \<Rightarrow> (ipc_client, error, ticket option) act" where
  "send_frame_plain w pl op qos cl =
     (let (buf, cl') = prepare_frame_buf op qos cl;
          len = word_of_nat (length pl) :: u32
      in send_frame_and_confirm w (buf @ le32 len) pl qos cl')"

section \<open>The client's methods\<close>

fun bulk_payload :: "bytes \<Rightarrow> string list \<Rightarrow> bytes" where
  "bulk_payload acc [] = acc"
| "bulk_payload acc (topic # topics) =
     bulk_payload ((if acc \<noteq> [] then acc @ [0] else acc) @ as_bytes topic) topics"

definition ipc_send where
  "ipc_send w target p qos = send_frame w target (cow_slice p) OpMessage qos"
definition ipc_zc_send where
  "ipc_zc_send w target h p qos = send_zc_frame w target (cow_slice h) (cow_slice p) OpMessage qos"
definition ipc_send_broadcast where
  "ipc_send_broadcast w target p qos = send_frame w target (cow_slice p) OpBroadcast qos"
definition ipc_publish where
  "ipc_publish w target p qos = send_frame w target (cow_slice p) OpPublishTopic qos"
definition ipc_publish_for where
  "ipc_publish_for w target receiver p qos =
     send_frame_receiver w target receiver (cow_slice p) OpPublishTopicFor qos"
definition ipc_subscribe where
  "ipc_subscribe w topic qos = send_frame_plain w (as_bytes topic) OpSubscribeTopic qos"
definition ipc_unsubscribe where
  "ipc_unsubscribe w topic qos = send_frame_plain w (as_bytes topic) OpUnsubscribeTopic qos"
definition ipc_subscribe_bulk where
  "ipc_subscribe_bulk w topics qos = send_frame_plain w (bulk_payload [] topics) OpSubscribeTopic qos"
definition ipc_unsubscribe_bulk where
  "ipc_unsubscribe_bulk w topics qos = send_frame_plain w (bulk_payload [] topics) OpUnsubscribeTopic qos"
definition ipc_exclude where
  "ipc_exclude w topic qos = send_frame_plain w (as_bytes topic) OpExcludeTopic qos"
definition ipc_unexclude where
  "ipc_unexclude w topic qos = send_frame_plain w (as_bytes topic) OpUnexcludeTopic qos"
definition ipc_exclude_bulk where
  "ipc_exclude_bulk w topics qos = send_frame_plain w (bulk_payload [] topics) OpExcludeTopic qos"
definition ipc_unexclude_bulk where
  "ipc_unexclude_bulk w topics qos = send_frame_plain w (bulk_payload [] topics) OpUnexcludeTopic qos"
definition ipc_ping where
  "ipc_ping w = send_data_or_mark_disconnected w PING_FRAME"

lemmas ipc_method_defs [bus_defs] = ipc_send_def ipc_zc_send_def ipc_send_broadcast_def
  ipc_publish_def ipc_publish_for_def ipc_subscribe_def ipc_unsubscribe_def ipc_subscribe_bulk_def
  ipc_unsubscribe_bulk_def ipc_exclude_def ipc_unexclude_def ipc_exclude_bulk_def
  ipc_unexclude_bulk_def ipc_ping_def

text \<open>\<open>register_secondary\<close>: the configuration the secondary client connects with.\<close>

definition ipc_register_secondary :: "ipc_client \<Rightarrow> (error + ipc_config) \<times> ipc_client" where
  "ipc_register_secondary cl =
     (if str_find SECONDARY_SEP (i_name cl) \<noteq> None
      then (Inl (err_not_supported [Lit ''not a primary client'']), cl)
      else (Inr ((i_config cl)\<lparr>cfg_name := i_name cl @ SECONDARY_SEP @ show_nat (i_secondary_counter cl)\<rparr>),
            cl\<lparr>i_secondary_counter := i_secondary_counter cl + 1\<rparr>))"

section \<open>Reading\<close>

definition err_broken_frame :: error where
  "err_broken_frame = err_data [Lit ''broken frame'']"

text \<open>The body of a frame that is neither a NOP nor an acknowledgement.\<close>

definition parse_incoming :: "FrameKind \<Rightarrow> bool \<Rightarrow> bytes \<Rightarrow> error + frame" where
  "parse_incoming frame_type realtime buf =
     (if frame_type = KPublish then
        (case splitn0 3 buf of
           [] \<Rightarrow> Inl err_broken_frame
         | s # rest \<Rightarrow>
             (case parse_str s of Inl e \<Rightarrow> Inl e | Inr sender \<Rightarrow>
             (case rest of
                [] \<Rightarrow> Inl err_broken_frame
              | t # rest' \<Rightarrow>
                  (case parse_str t of Inl e \<Rightarrow> Inl e | Inr topic \<Rightarrow>
                  (case rest' of
                     [] \<Rightarrow> Inl err_broken_frame
                   | _ # _ \<Rightarrow> Inr (frame_new frame_type (Some sender) (Some topic) None buf
                                   (length s + length t + 2) realtime))))))
      else
        (case splitn0 2 buf of
           [] \<Rightarrow> Inl err_broken_frame
         | s # rest \<Rightarrow>
             (case parse_str s of Inl e \<Rightarrow> Inl e | Inr sender \<Rightarrow>
             (case rest of
                [] \<Rightarrow> Inl err_broken_frame
              | _ # _ \<Rightarrow> Inr (frame_new frame_type (Some sender) None None buf (length s + 1) realtime)))))"

text \<open>
  The state of the reader task: the pending acknowledgements it shares with the client, what it sent
  into their channels, and the frames it sent to the event channel.  \<open>alive k\<close> says whether
  the event channel still has a receiver when the \<open>k\<close>-th frame is sent.
\<close>

record reader =
  rd_responses :: "u32 \<rightharpoonup> ticket"
  rd_results :: "ticket \<rightharpoonup> (error + unit)"
  rd_events :: "frame list"

definition resolve_ack :: "u32 \<Rightarrow> u8 \<Rightarrow> reader \<Rightarrow> reader" where
  "resolve_ack ack_id code rd =
     (case rd_responses rd ack_id of
        Some tx \<Rightarrow> rd\<lparr>rd_responses := (rd_responses rd)(ack_id := None),
                      rd_results := (rd_results rd)(tx \<mapsto> to_busrt_result code)\<rparr>
      | None \<Rightarrow> rd)"

definition handle_read_step :: "(nat \<Rightarrow> bool) \<Rightarrow> stream \<Rightarrow> reader \<Rightarrow> (error, stream) eff \<times> reader" where
  "handle_read_step alive s rd =
     (case read_exact 6 s of
        ReadErr k \<Rightarrow> (Bail (err_from_io k), rd)
      | ReadElapsed \<Rightarrow> (Pending, rd)
      | Got buf s1 \<Rightarrow>
          (case frame_kind_try_from (buf ! 0) of
             Inl e \<Rightarrow> (Bail e, rd)
           | Inr KNop \<Rightarrow> (Done s1, rd)
           | Inr KAcknowledge \<Rightarrow> (Done s1, resolve_ack (of_le32 (take 4 (drop 1 buf))) (buf ! 5) rd)
           | Inr frame_type \<Rightarrow>
               (let realtime = buf ! 5 \<noteq> 0;
                    frame_len = unat (of_le32 (take 4 (drop 1 buf)))
                in case read_exact frame_len s1 of
                     ReadErr k \<Rightarrow> (Bail (err_from_io k), rd)
                   | ReadElapsed \<Rightarrow> (Bail err_timeout, rd)
                   | Got body s2 \<Rightarrow>
                       (case parse_incoming frame_type realtime body of
                          Inl e \<Rightarrow> (Bail e, rd)
                        | Inr f \<Rightarrow>
                            if alive (length (rd_events rd))
                            then (Done s2, rd\<lparr>rd_events := rd_events rd @ [f]\<rparr>)
                            else (Bail (err_io [Shown (ExternError ''SendError'')]), rd)))))"

lemma handle_read_step_consumes:
  "handle_read_step alive s rd = (Done s', rd') \<Longrightarrow> length (s_bytes s') < length (s_bytes s)"
  by (auto simp: handle_read_step_def Let_def read_exact_Got
      split: read_result.splits sum.splits FrameKind.splits if_splits)

function handle_read :: "(nat \<Rightarrow> bool) \<Rightarrow> stream \<Rightarrow> reader \<Rightarrow> (error, unit) eff \<times> reader" where
  "handle_read alive s rd =
     (case handle_read_step alive s rd of
        (Done s', rd') \<Rightarrow> handle_read alive s' rd'
      | (Bail e, rd') \<Rightarrow> (Bail e, rd')
      | (Pending, rd') \<Rightarrow> (Pending, rd'))"
  by pat_completeness auto
termination
  by (relation "measure (\<lambda>(alive, s, rd). length (s_bytes s))")
     (auto dest: handle_read_step_consumes [OF sym])

declare handle_read.simps [simp del]

section \<open>The handshake, client side\<close>

text \<open>\<open>wfail k\<close> is the error of the \<open>k\<close>-th write, if it fails; the bytes written are returned.
  \<open>chat\<close> has no timeout of its own: a silent broker, or one that takes no bytes, is ended by the timeout around
  \<open>connect\<close>.\<close>

definition chat :: "(nat \<Rightarrow> error option) \<Rightarrow> string \<Rightarrow> stream \<Rightarrow> (error + stream) \<times> bytes" where
  "chat wfail name s =
     (if length name > 65535 then (Inl (err_data [Lit ''name too long'']), [])
      else case read_exact 3 s of
        ReadErr k \<Rightarrow> (Inl (err_from_io k), [])
      | ReadElapsed \<Rightarrow> (Inl err_timeout, [])
      | Got buf s1 \<Rightarrow>
      if buf ! 0 \<noteq> GREETINGS ! 0 then (Inl (err_not_supported [Lit ''Invalid greetings'']), [])
      else if of_le16 (take 2 (drop 1 buf)) \<noteq> PROTOCOL_VERSION
      then (Inl (err_not_supported [Lit ''Unsupported protocol version'']), [])
      else case wfail 0 of Some e \<Rightarrow> (Inl e, []) | None \<Rightarrow>
      (case read_exact 1 s1 of
        ReadErr k \<Rightarrow> (Inl (err_from_io k), buf)
      | ReadElapsed \<Rightarrow> (Inl err_timeout, buf)
      | Got r s2 \<Rightarrow>
      if r ! 0 \<noteq> RESPONSE_OK
      then (Inl (error_new (kind_from (r ! 0))
             (Some [Lit ''Server greetings response: '', Lit (show_nat (unat (r ! 0)))])), buf)
      else case wfail 1 of Some e \<Rightarrow> (Inl e, buf) | None \<Rightarrow>
      (let hello = buf @ le16 (word_of_nat (length name))
       in case wfail 2 of Some e \<Rightarrow> (Inl e, hello) | None \<Rightarrow>
      (case read_exact 1 s2 of
        ReadErr k \<Rightarrow> (Inl (err_from_io k), hello @ as_bytes name)
      | ReadElapsed \<Rightarrow> (Inl err_timeout, hello @ as_bytes name)
      | Got q s3 \<Rightarrow>
      if q ! 0 \<noteq> RESPONSE_OK
      then (Inl (error_new (kind_from (q ! 0))
             (Some [Lit ''Server registration response: '', Lit (show_nat (unat (q ! 0)))])),
            hello @ as_bytes name)
      else (Inr s3, hello @ as_bytes name)))))"

section \<open>Lemmas\<close>

interpretation frame_ids: id_source increment_frame_id
  by unfold_locales (simp_all add: increment_frame_id_def)

text \<open>What a completed send leaves behind.\<close>

lemma send_frame_and_confirm_ok:
  "send_frame_and_confirm (Written, Written) buf pl qos cl =
     (let (rx, cl') = register_response qos cl
      in (Done rx, cl'\<lparr>i_written := i_written cl' @ buf @ pl\<rparr>))"
  by (simp add: send_frame_and_confirm_def frame_write_guard_def act_then_def
      send_data_or_mark_disconnected_def split: prod.splits)

lemma send_frame_and_confirm_disconnects:
  assumes "w \<noteq> (Written, Written)"
  shows "\<exists>r cl'. send_frame_and_confirm w buf pl qos cl = (r, cl') \<and>
    \<not> i_connected cl' \<and> \<not> i_reader_alive cl' \<and> (\<forall>x. r \<noteq> Done x)"
proof -
  obtain rx cl0 where r: "register_response qos cl = (rx, cl0)" by force
  from assms r show ?thesis
    by (cases "fst w"; cases "snd w"; cases w)
       (simp_all add: send_frame_and_confirm_def frame_write_guard_def act_then_def
         send_data_or_mark_disconnected_def mark_disconnected_def)
qed

text \<open>The topics of a bulk operation, as the broker splits them.\<close>

lemma bulk_payload_nonempty_acc:
  "acc \<noteq> [] \<Longrightarrow> bulk_payload acc topics = acc @ concat (map (\<lambda>t. 0 # as_bytes t) topics)"
  by (induction topics arbitrary: acc) auto

lemma bulk_payload_Cons:
  assumes "t \<noteq> []"
  shows "bulk_payload [] (t # ts) = as_bytes t @ concat (map (\<lambda>t. 0 # as_bytes t) ts)"
  using assms by (simp add: bulk_payload_nonempty_acc)

lemma split0_concat:
  "0 \<notin> set p \<Longrightarrow> (\<And>t. t \<in> set ts \<Longrightarrow> nul_free t) \<Longrightarrow>
   split0 (p @ concat (map (\<lambda>t. 0 # as_bytes t) ts)) = p # map as_bytes ts"
proof (induction ts arbitrary: p)
  case Nil
  then show ?case by (simp add: split0_nul_free)
next
  case (Cons t ts)
  have "0 \<notin> set (as_bytes t)" using Cons.prems(2) by (simp add: nul_free_def)
  with Cons show ?case by (simp add: split0_append_nul)
qed

lemma split0_bulk_payload:
  assumes "t \<noteq> []" and "\<And>u. u \<in> set (t # ts) \<Longrightarrow> nul_free u"
  shows "split0 (bulk_payload [] (t # ts)) = map as_bytes (t # ts)"
  using assms split0_concat [of "as_bytes t" ts]
  by (simp add: bulk_payload_nonempty_acc nul_free_def)

end
