(* ===== verification/Bus_Writer.thy ===== *)
theory Bus_Writer
  imports Bus_Ipc
begin

text \<open>
  The writer task of a connection in the broker (\<open>handle_writer\<close> of \<open>src/src/broker.rs\<close>): the bytes
  a frame becomes on the wire.  The lemmas show that the reader of the client (\<open>handle_read\<close> of
  \<open>src/src/ipc.rs\<close>, theory \<open>Bus_Ipc\<close>) recovers every frame the broker sends, in order, over any
  sequence of messages, broadcasts, publications, acknowledgements and pings.
\<close>

section \<open>The writer\<close>

definition extra_len :: "frame \<Rightarrow> usize" where
  "extra_len f =
     (case f_sender f of Some s \<Rightarrow> length (as_bytes s) + 1 | None \<Rightarrow> 0) +
     (case f_topic f of Some t \<Rightarrow> length (as_bytes t) + 1 | None \<Rightarrow> 0) +
     (case f_header f of Some h \<Rightarrow> length h | None \<Rightarrow> 0)"

definition frame_head :: "frame \<Rightarrow> bytes" where
  "frame_head f =
     [frame_kind_code (f_kind f)]
     @ le32 (word_of_nat (extra_len f + length (f_buf f) - f_payload_pos f))
     @ [if f_realtime f then 1 else 0]
     @ (case f_sender f of Some s \<Rightarrow> as_bytes s @ [0] | None \<Rightarrow> [])
     @ (case f_topic f of Some t \<Rightarrow> as_bytes t @ [0] | None \<Rightarrow> [])"

text \<open>
  The writes of one frame.  \<open>frame.payload()\<close> panics, after the earlier writes, if the payload
  position is past the end of the buffer; the second component says so.
\<close>

definition frame_writes :: "frame \<Rightarrow> (bytes \<times> Flush) list \<times> bool" where
  "frame_writes f =
     (if f_kind f = KPrepared then ([(f_buf f, flush_from (f_realtime f))], False)
      else let front = (frame_head f, FlushNo) # (case f_header f of Some h \<Rightarrow> [(h, FlushNo)] | None \<Rightarrow> [])
           in case frame_payload f of
                Some p \<Rightarrow> (front @ [(p, flush_from (f_realtime f))], False)
              | None \<Rightarrow> (front, True))"

text \<open>
  The loop over the frames of the event channel.  \<open>wres k\<close> is how the \<open>k\<close>-th write ends; the result
  carries the writes made.  A panic ends the task, which is the outcome \<open>Pending\<close> here: no value is
  returned.
\<close>

fun write_list ::
  "(nat \<Rightarrow> write_outcome) \<Rightarrow> (bytes \<times> Flush) list \<Rightarrow> ((bytes \<times> Flush) list, error, unit) act" where
  "write_list wres [] out = (Done (), out)"
| "write_list wres (w # ws) out =
     (case wres (length out) of
        Written \<Rightarrow> write_list wres ws (out @ [w])
      | WriteErr k \<Rightarrow> (Bail (err_from_io k), out)
      | WriteElapsed \<Rightarrow> (Bail err_timeout, out)
      | WriteCancelled \<Rightarrow> (Pending, out))"

fun handle_writer ::
  "(nat \<Rightarrow> write_outcome) \<Rightarrow> frame list \<Rightarrow> ((bytes \<times> Flush) list, error, unit) act" where
  "handle_writer wres [] out = (Done (), out)"
| "handle_writer wres (f # fs) out =
     (case frame_writes f of
        (ws, panics) \<Rightarrow>
          act_then (write_list wres ws) (\<lambda>_ out'. if panics then (Pending, out') else handle_writer wres fs out') out)"

definition wire_bytes :: "(bytes \<times> Flush) list \<Rightarrow> bytes" where
  "wire_bytes ws = concat (map fst ws)"

section \<open>The frames the broker sends\<close>

text \<open>
  A frame of the broker: a routed frame with a sender (and a topic exactly if it is a publication), a
  ping, or a prepared acknowledgement.
\<close>

definition routed_frame :: "frame \<Rightarrow> bool" where
  "routed_frame f \<longleftrightarrow>
     f_kind f \<in> {KMessage, KBroadcast, KPublish} \<and>
     (\<exists>s. f_sender f = Some s \<and> str_ok s \<and> nul_free s) \<and>
     (if f_kind f = KPublish then \<exists>t. f_topic f = Some t \<and> str_ok t \<and> nul_free t else f_topic f = None) \<and>
     f_payload_pos f \<le> length (f_buf f) \<and>
     extra_len f + length (f_buf f) - f_payload_pos f < 2 ^ 32"

definition ack_bytes :: "bytes \<Rightarrow> u8 \<Rightarrow> bytes" where
  "ack_bytes op_id code = OP_ACK # op_id @ [code]"

definition ack_frame :: "bytes \<Rightarrow> u8 \<Rightarrow> bool \<Rightarrow> frame" where
  "ack_frame op_id code realtime = frame_new KPrepared None None None (ack_bytes op_id code) 0 realtime"

definition broker_frame :: "frame \<Rightarrow> bool" where
  "broker_frame f \<longleftrightarrow> routed_frame f \<or> f = new_nop \<or>
     (\<exists>w code rt. f = ack_frame (le32 w) code rt)"

text \<open>What the reader of the client does with a frame of the broker.\<close>

definition arrives :: "frame \<Rightarrow> frame" where
  "arrives f =
     (let front = (case f_sender f of Some s \<Rightarrow> as_bytes s @ [0] | None \<Rightarrow> [])
                  @ (case f_topic f of Some t \<Rightarrow> as_bytes t @ [0] | None \<Rightarrow> [])
      in frame_new (f_kind f) (f_sender f) (f_topic f) None
           (front @ (case f_header f of Some h \<Rightarrow> h | None \<Rightarrow> []) @ drop (f_payload_pos f) (f_buf f))
           (length front) (f_realtime f))"

definition receive :: "frame \<Rightarrow> reader \<Rightarrow> reader" where
  "receive f rd =
     (if f_kind f = KPrepared then resolve_ack (of_le32 (take 4 (drop 1 (f_buf f)))) (f_buf f ! 5) rd
      else if f_kind f = KNop then rd
      else rd\<lparr>rd_events := rd_events rd @ [arrives f]\<rparr>)"

lemma frame_kind_try_from_consts:
  "frame_kind_try_from 18 = Inr KMessage" "frame_kind_try_from 19 = Inr KBroadcast"
  "frame_kind_try_from 1 = Inr KPublish" "frame_kind_try_from 254 = Inr KAcknowledge"
  "frame_kind_try_from 0 = Inr KNop"
  by (simp_all add: frame_kind_try_from_def)

lemma arrives_payload:
  "frame_payload (arrives f) =
     Some ((case f_header f of Some h \<Rightarrow> h | None \<Rightarrow> []) @ drop (f_payload_pos f) (f_buf f))"
  by (simp add: arrives_def frame_payload_def frame_new_def Let_def)

lemma parse_incoming_arrives:
  assumes "routed_frame f"
  shows "parse_incoming (f_kind f) (f_realtime f)
    ((case f_sender f of Some s \<Rightarrow> as_bytes s @ [0] | None \<Rightarrow> [])
     @ (case f_topic f of Some t \<Rightarrow> as_bytes t @ [0] | None \<Rightarrow> [])
     @ (case f_header f of Some h \<Rightarrow> h | None \<Rightarrow> []) @ drop (f_payload_pos f) (f_buf f)) = Inr (arrives f)"
proof -
  obtain s where s: "f_sender f = Some s" "str_ok s" "0 \<notin> set (as_bytes s)"
    using assms by (auto simp: routed_frame_def nul_free_def)
  let ?p = "(case f_header f of Some h \<Rightarrow> h | None \<Rightarrow> []) @ drop (f_payload_pos f) (f_buf f)"
  show ?thesis
  proof (cases "f_kind f = KPublish")
    case True
    then obtain t where t: "f_topic f = Some t" "str_ok t" "0 \<notin> set (as_bytes t)"
      using assms by (auto simp: routed_frame_def nul_free_def)
    have "splitn0 3 (as_bytes s @ 0 # as_bytes t @ 0 # ?p) = [as_bytes s, as_bytes t, ?p]"
      using s t by (simp add: numeral_3_eq_3 takeWhile_nul dropWhile_nul)
    with True s t show ?thesis
      by (simp add: parse_incoming_def parse_str_as_bytes arrives_def Let_def)
  next
    case False
    then have t: "f_topic f = None" using assms by (simp add: routed_frame_def)
    have "splitn0 2 (as_bytes s @ 0 # ?p) = [as_bytes s, ?p]"
      using s by (simp add: numeral_2_eq_2 takeWhile_nul dropWhile_nul)
    with False s t show ?thesis
      by (simp add: parse_incoming_def parse_str_as_bytes arrives_def Let_def)
  qed
qed

lemma wire_bytes_routed:
  assumes "routed_frame f"
  shows "wire_bytes (fst (frame_writes f)) =
    [frame_kind_code (f_kind f)] @ le32 (word_of_nat (length (f_buf (arrives f))))
    @ [if f_realtime f then 1 else 0] @ f_buf (arrives f)"
  using assms
  by (auto simp: routed_frame_def wire_bytes_def frame_writes_def frame_head_def frame_payload_def
      arrives_def frame_new_def extra_len_def Let_def split: option.splits)

lemma frame_writes_safe: "broker_frame f \<Longrightarrow> \<not> snd (frame_writes f)"
  by (auto simp: broker_frame_def routed_frame_def frame_writes_def frame_payload_def ack_frame_def
      frame_new_def new_nop_def Let_def)

text \<open>One frame: the reader consumes exactly its bytes.\<close>

lemma handle_read_step_routed:
  assumes r: "routed_frame f" and alive: "alive (length (rd_events rd))"
  shows "handle_read_step alive (feed (wire_bytes (fst (frame_writes f))) s) rd = (Done s, receive f rd)"
proof -
  let ?b = "f_buf (arrives f)"
  let ?h = "frame_kind_code (f_kind f) # le32 (word_of_nat (length ?b)) @ [if f_realtime f then 1 else 0]"
  have lt: "length ?b < 2 ^ 32"
    using r by (auto simp: routed_frame_def arrives_def frame_new_def extra_len_def Let_def split: option.splits)
  have k: "f_kind f \<in> {KMessage, KBroadcast, KPublish}" using r by (simp add: routed_frame_def)
  have "wire_bytes (fst (frame_writes f)) = ?h @ ?b" using wire_bytes_routed [OF r] by simp
  then have 6: "read_exact 6 (feed (wire_bytes (fst (frame_writes f))) s) = Got ?h (feed ?b s)"
    by (simp only: read_exact_feed_append [of ?h]) (rule read_exact_feed_append, simp)
  have "parse_incoming (f_kind f) (f_realtime f) ?b = Inr (arrives f)"
    using parse_incoming_arrives [OF r] by (simp add: arrives_def frame_new_def Let_def)
  moreover have "?h ! 5 = (if f_realtime f then 1 else 0)" by (simp add: nth_append)
  ultimately show ?thesis
    using k alive lt
    by (auto simp: handle_read_step_def 6 unat_of_nat_u32 receive_def Let_def frame_kind_try_from_consts)
qed

lemma handle_read_step_other:
  "handle_read_step alive (feed (wire_bytes (fst (frame_writes new_nop))) s) rd = (Done s, receive new_nop rd)"
  "handle_read_step alive (feed (wire_bytes (fst (frame_writes (ack_frame (le32 w) code rt)))) s) rd =
     (Done s, receive (ack_frame (le32 w) code rt) rd)"
proof -
  have "wire_bytes (fst (frame_writes new_nop)) = [0, 0, 0, 0, 0, 0]"
    by (simp add: wire_bytes_def frame_writes_def frame_payload_def frame_head_def new_nop_def frame_new_def
        extra_len_def le32_def)
  then show "handle_read_step alive (feed (wire_bytes (fst (frame_writes new_nop))) s) rd =
      (Done s, receive new_nop rd)"
    by (simp add: handle_read_step_def frame_kind_try_from_consts receive_def new_nop_def frame_new_def)
  show "handle_read_step alive (feed (wire_bytes (fst (frame_writes (ack_frame (le32 w) code rt)))) s) rd =
      (Done s, receive (ack_frame (le32 w) code rt) rd)"
    by (simp add: handle_read_step_def frame_kind_try_from_consts receive_def ack_frame_def frame_new_def
        wire_bytes_def frame_writes_def ack_bytes_def)
qed

lemma handle_read_step_broker_frame:
  assumes "broker_frame f" and "alive (length (rd_events rd))"
  shows "handle_read_step alive (feed (wire_bytes (fst (frame_writes f))) s) rd = (Done s, receive f rd)"
  using assms handle_read_step_routed [of f alive rd s]
  by (auto simp: broker_frame_def handle_read_step_other)

text \<open>A sequence of frames: what the writer wrote is what the reader delivers.\<close>

lemma write_list_all:
  "(\<And>k. wres k = Written) \<Longrightarrow> write_list wres ws out = (Done (), out @ ws)"
  by (induction ws arbitrary: out) simp_all

lemma handle_writer_all:
  assumes "\<And>k. wres k = Written" and "\<forall>f \<in> set fs. broker_frame f"
  shows "handle_writer wres fs out = (Done (), out @ concat (map (\<lambda>f. fst (frame_writes f)) fs))"
  using assms(2)
proof (induction fs arbitrary: out)
  case (Cons f fs)
  then have "\<not> snd (frame_writes f)" by (simp add: frame_writes_safe)
  with Cons assms(1) show ?case
    by (cases "frame_writes f") (simp add: act_then_def write_list_all)
qed simp

lemma handle_read_frames:
  assumes "\<forall>f \<in> set fs. broker_frame f" and "\<And>k. alive k"
  shows "handle_read alive (feed (wire_bytes (concat (map (\<lambda>f. fst (frame_writes f)) fs))) s) rd =
    handle_read alive s (fold receive fs rd)"
  using assms(1)
proof (induction fs arbitrary: rd)
  case Nil
  then show ?case by (simp add: wire_bytes_def feed_def)
next
  case (Cons f fs)
  let ?r = "feed (wire_bytes (concat (map (\<lambda>f. fst (frame_writes f)) fs))) s"
  have "feed (wire_bytes (concat (map (\<lambda>f. fst (frame_writes f)) (f # fs)))) s =
      feed (wire_bytes (fst (frame_writes f))) ?r"
    by (simp add: wire_bytes_def feed_append)
  moreover have "handle_read_step alive (feed (wire_bytes (fst (frame_writes f))) ?r) rd = (Done ?r, receive f rd)"
    using Cons.prems assms(2) by (simp add: handle_read_step_broker_frame)
  ultimately show ?case using Cons by (simp add: handle_read.simps [of alive "feed _ _"])
qed

end
