(* ===== verification/Bus_Aaa.thy ===== *)
theory Bus_Aaa
  imports Bus_Registry
begin

text \<open>
  The access control of the broker (\<open>ServerConfig\<close> and \<open>ClientAaa\<close> of \<open>src/src/broker.rs\<close>): the
  builder methods, and what a client with a given configuration may do.
\<close>

section \<open>Configuration\<close>

record 'am client_aaa =
  hosts_allow :: "ip_network list"
  allow_p2p_to :: 'am
  allow_p2p_any :: bool
  allow_publish_to :: 'am
  allow_publish_any :: bool
  allow_subscribe_to :: 'am
  allow_subscribe_any :: bool
  allow_broadcast_to :: 'am
  allow_broadcast_any :: bool

definition client_aaa_default :: "('sm, 'bm, 'am, 'ch) ctx \<Rightarrow> 'am client_aaa" where
  "client_aaa_default X =
     \<lparr>hosts_allow = [''0.0.0.0/0''],
      allow_p2p_to = am_new X CHR ''.'' ''?'' ''*'', allow_p2p_any = True,
      allow_publish_to = am_new X CHR ''/'' ''+'' ''#'', allow_publish_any = True,
      allow_subscribe_to = am_new X CHR ''/'' ''+'' ''#'', allow_subscribe_any = True,
      allow_broadcast_to = am_new X CHR ''.'' ''?'' ''*'', allow_broadcast_any = True\<rparr>"

definition set_hosts_allow :: "ip_network list \<Rightarrow> 'am client_aaa \<Rightarrow> 'am client_aaa" where
  "set_hosts_allow hosts a = a\<lparr>hosts_allow := remdups hosts\<rparr>"

definition set_p2p_to :: "('sm, 'bm, 'am, 'ch) ctx \<Rightarrow> string list \<Rightarrow> 'am client_aaa \<Rightarrow> 'am client_aaa" where
  "set_p2p_to X masks a =
     fold (\<lambda>m a. let a1 = (if m = ''*'' then a\<lparr>allow_p2p_any := True\<rparr> else a)
                 in a1\<lparr>allow_p2p_to := am_insert X m (allow_p2p_to a1)\<rparr>)
       masks (a\<lparr>allow_p2p_any := False\<rparr>)"

definition deny_p2p :: "('sm, 'bm, 'am, 'ch) ctx \<Rightarrow> 'am client_aaa \<Rightarrow> 'am client_aaa" where
  "deny_p2p X a = a\<lparr>allow_p2p_any := False, allow_p2p_to := am_default X\<rparr>"

definition set_publish_to :: "('sm, 'bm, 'am, 'ch) ctx \<Rightarrow> string list \<Rightarrow> 'am client_aaa \<Rightarrow> 'am client_aaa" where
  "set_publish_to X masks a =
     fold (\<lambda>m a. let a1 = (if m = ''#'' then a\<lparr>allow_publish_any := True\<rparr> else a)
                 in a1\<lparr>allow_publish_to := am_insert X m (allow_publish_to a1)\<rparr>)
       masks (a\<lparr>allow_publish_any := False\<rparr>)"

definition deny_publish :: "('sm, 'bm, 'am, 'ch) ctx \<Rightarrow> 'am client_aaa \<Rightarrow> 'am client_aaa" where
  "deny_publish X a = a\<lparr>allow_publish_any := False, allow_publish_to := am_default X\<rparr>"

definition set_subscribe_to :: "('sm, 'bm, 'am, 'ch) ctx \<Rightarrow> string list \<Rightarrow> 'am client_aaa \<Rightarrow> 'am client_aaa" where
  "set_subscribe_to X masks a =
     fold (\<lambda>m a. let a1 = (if m = ''#'' then a\<lparr>allow_subscribe_any := True\<rparr> else a)
                 in a1\<lparr>allow_subscribe_to := am_insert X m (allow_subscribe_to a1)\<rparr>)
       masks (a\<lparr>allow_subscribe_any := False\<rparr>)"

definition deny_subscribe :: "('sm, 'bm, 'am, 'ch) ctx \<Rightarrow> 'am client_aaa \<Rightarrow> 'am client_aaa" where
  "deny_subscribe X a = a\<lparr>allow_subscribe_any := False, allow_subscribe_to := am_default X\<rparr>"

definition set_broadcast_to :: "('sm, 'bm, 'am, 'ch) ctx \<Rightarrow> string list \<Rightarrow> 'am client_aaa \<Rightarrow> 'am client_aaa" where
  "set_broadcast_to X masks a =
     fold (\<lambda>m a. let a1 = (if m = ''*'' then a\<lparr>allow_broadcast_any := True\<rparr> else a)
                 in a1\<lparr>allow_broadcast_to := am_insert X m (allow_broadcast_to a1)\<rparr>)
       masks (a\<lparr>allow_broadcast_any := False\<rparr>)"

definition deny_broadcast :: "('sm, 'bm, 'am, 'ch) ctx \<Rightarrow> 'am client_aaa \<Rightarrow> 'am client_aaa" where
  "deny_broadcast X a = a\<lparr>allow_broadcast_any := False, allow_broadcast_to := am_default X\<rparr>"

definition connect_allowed :: "('sm, 'bm, 'am, 'ch) ctx \<Rightarrow> 'am client_aaa \<Rightarrow> ip_addr \<Rightarrow> bool" where
  "connect_allowed X a addr = list_ex (\<lambda>h. net_contains X h addr) (hosts_allow a)"

record 'am server_config =
  sc_buf_size :: usize
  sc_buf_ttl :: duration
  sc_timeout :: duration
  sc_payload_size_limit :: "u32 option"
  sc_aaa_map :: "(string \<rightharpoonup> 'am client_aaa) option"

definition server_config_default :: "'am server_config" where
  "server_config_default = \<lparr>sc_buf_size = 8192, sc_buf_ttl = 10000, sc_timeout = 1000000000,
     sc_payload_size_limit = None, sc_aaa_map = None\<rparr>"

section \<open>Decisions\<close>

text \<open>The conditions of \<open>handle_reader\<close>; without access control everything is allowed.\<close>

definition p2p_allowed :: "('sm, 'bm, 'am, 'ch) ctx \<Rightarrow> 'am client_aaa option \<Rightarrow> string \<Rightarrow> bool" where
  "p2p_allowed X aaa target =
     (case aaa of Some a \<Rightarrow> allow_p2p_any a \<or> am_matches X target (allow_p2p_to a) | None \<Rightarrow> True)"

definition broadcast_allowed :: "('sm, 'bm, 'am, 'ch) ctx \<Rightarrow> 'am client_aaa option \<Rightarrow> string \<Rightarrow> bool" where
  "broadcast_allowed X aaa target =
     (case aaa of Some a \<Rightarrow> allow_broadcast_any a \<or> am_matches X target (allow_broadcast_to a) | None \<Rightarrow> True)"

definition publish_allowed :: "('sm, 'bm, 'am, 'ch) ctx \<Rightarrow> 'am client_aaa option \<Rightarrow> string \<Rightarrow> bool" where
  "publish_allowed X aaa target =
     (case aaa of Some a \<Rightarrow> allow_publish_any a \<or> am_matches X target (allow_publish_to a) | None \<Rightarrow> True)"

definition subscribe_allowed :: "('sm, 'bm, 'am, 'ch) ctx \<Rightarrow> 'am client_aaa option \<Rightarrow> string \<Rightarrow> bool" where
  "subscribe_allowed X aaa topic =
     (case aaa of Some a \<Rightarrow> allow_subscribe_any a \<or> am_matches X topic (allow_subscribe_to a) | None \<Rightarrow> True)"

lemmas allowed_defs = p2p_allowed_def broadcast_allowed_def publish_allowed_def subscribe_allowed_def

lemma set_p2p_to_simps:
  fixes a :: "'am client_aaa"
  shows "allow_p2p_any (set_p2p_to X masks a) \<longleftrightarrow> ''*'' \<in> set masks"
    and "allow_p2p_to (set_p2p_to X masks a) = fold (am_insert X) masks (allow_p2p_to a)"
proof -
  let ?f = "\<lambda>m a. let a1 = (if m = ''*'' then a\<lparr>allow_p2p_any := True\<rparr> else a)
                 in a1\<lparr>allow_p2p_to := am_insert X m (allow_p2p_to a1)\<rparr>"
  have "allow_p2p_any (fold ?f masks a) \<longleftrightarrow> allow_p2p_any a \<or> ''*'' \<in> set masks" for a :: "'am client_aaa"
    by (induction masks arbitrary: a) (auto simp: Let_def)
  then show "allow_p2p_any (set_p2p_to X masks a) \<longleftrightarrow> ''*'' \<in> set masks" by (simp add: set_p2p_to_def)
  have "allow_p2p_to (fold ?f masks a) = fold (am_insert X) masks (allow_p2p_to a)" for a :: "'am client_aaa"
    by (induction masks arbitrary: a) (auto simp: Let_def)
  then show "allow_p2p_to (set_p2p_to X masks a) = fold (am_insert X) masks (allow_p2p_to a)"
    by (simp add: set_p2p_to_def)
qed

context acl_map
begin

lemma amv_fold_insert: "amv (fold (am_insert X) ks a) = set ks \<union> amv a"
  by (induction ks arbitrary: a) (auto simp: amv_insert)

lemma acl_match_fold_insert: "acl_match (fold (am_insert X) ks a) = acl_match a"
  by (induction ks arbitrary: a) (auto simp: acl_match_insert)

lemma p2p_allowed_masks:
  "p2p_allowed X (Some (set_p2p_to X masks a)) target \<longleftrightarrow>
     ''*'' \<in> set masks \<or> (\<exists>k \<in> set masks \<union> amv (allow_p2p_to a). acl_match (allow_p2p_to a) k target)"
  by (simp add: p2p_allowed_def set_p2p_to_simps amv_matches amv_fold_insert acl_match_fold_insert)

lemma p2p_denied: "\<not> p2p_allowed X (Some (deny_p2p X a)) target"
  by (simp add: p2p_allowed_def deny_p2p_def amv_matches amv_default)

end

end
