(* ===== verification/Bus_Reader.thy ===== *)
theory Bus_Reader
  imports Bus_Routing_Inv Bus_Writer Bus_Aaa
begin

text \<open>
  The reader task of a connection in the broker (\<open>handle_reader\<close> of \<open>src/src/broker.rs\<close>): the frames
  of an IPC client, their dispatch to the routing operations, and the acknowledgements.
\<close>

section \<open>Reading a client frame\<close>

text \<open>
  The arguments of \<open>handle_reader\<close>.  The asynchronous allocator is given by the length of the buffer it
  returns for a client name and a size; it is set together with the limit above which it is used.
\<close>

record 'am reader_params =
  rp_timeout :: duration
  rp_payload_size_limit :: "u32 option"
  rp_aaa :: "'am client_aaa option"
  rp_allocator :: "(usize \<times> (string \<Rightarrow> usize \<Rightarrow> usize option)) option"

datatype incoming =
  InEnd "error + unit"
| InPing stream
| InFrame (in_op_id: bytes) (in_op: FrameOp) (in_qos: QoS) (in_len: u32) (in_buf: bytes) (in_rest: stream)

definition alloc_len :: "'am reader_params \<Rightarrow> string \<Rightarrow> u32 \<Rightarrow> error + usize" where
  "alloc_len P client_name len =
     (case rp_allocator P of
        Some (limit, allocate) \<Rightarrow>
          if unat len > limit then
            (case allocate client_name (unat len) of
               Some n \<Rightarrow> Inr n
             | None \<Rightarrow> Inl (err_io [Lit ''Refused to allocate '', Lit (show_nat (unat len)), Lit '' bytes'']))
          else Inr (unat len)
      | None \<Rightarrow> Inr (unat len))"

definition read_client_frame :: "'am reader_params \<Rightarrow> string \<Rightarrow> stream \<Rightarrow> incoming" where
  "read_client_frame P client_name s =
     (case read_exact 9 s of
        ReadElapsed \<Rightarrow> InEnd (Inl err_timeout)
      | ReadErr k \<Rightarrow> if k = UnexpectedEof then InEnd (Inr ()) else InEnd (Inl (err_from_io k))
      | Got header_buf s1 \<Rightarrow>
          (let flags = header_buf ! 4 in
           if flags = 0 then InPing s1
           else case flags_op flags of
             Inl e \<Rightarrow> InEnd (Inl e)
           | Inr op \<Rightarrow>
               (case flags_qos flags of
                  Inl e \<Rightarrow> InEnd (Inl e)
                | Inr qos \<Rightarrow>
                    (let len = of_le32 (take 4 (drop 5 header_buf)) in
                     if (case rp_payload_size_limit P of Some limit \<Rightarrow> len > limit | None \<Rightarrow> False)
                     then InEnd (Inl (err_data [Lit ''Payload size '', Lit (show_nat (unat len)),
                            Lit '' exceeds the limit of '',
                            Lit (show_nat (unat (the (rp_payload_size_limit P)))), Lit '' bytes'']))
                     else case alloc_len P client_name len of
                       Inl e \<Rightarrow> InEnd (Inl e)
                     | Inr n \<Rightarrow>
                         (case read_exact n s1 of
                            ReadElapsed \<Rightarrow> InEnd (Inl err_timeout)
                          | ReadErr k \<Rightarrow> InEnd (Inl (err_from_io k))
                          | Got buf s2 \<Rightarrow> InFrame (take 4 header_buf) op qos len buf s2)))))"

lemma read_client_frame_consumes:
  "read_client_frame P n s = InPing s' \<Longrightarrow> length (s_bytes s') < length (s_bytes s)"
  "read_client_frame P n s = InFrame i op qos len buf s' \<Longrightarrow> length (s_bytes s') < length (s_bytes s)"
  by (auto simp: read_client_frame_def Let_def read_exact_Got
      split: read_result.splits sum.splits option.splits if_splits)

section \<open>Acknowledgements\<close>

definition send_ack ::
  "('sm, 'bm, 'am, 'ch) ctx \<Rightarrow> cid \<Rightarrow> bytes \<Rightarrow> u8 \<Rightarrow> bool \<Rightarrow> ('sm, 'bm, 'am, 'ch, unit) bact" where
  "send_ack X client op_id code realtime b =
     (case channel_send X client (ack_frame op_id code realtime) (db_w 1 6 (client_w client 6 b)) of
        (Some (Inr _), b') \<Rightarrow> (Done (), b')
      | (Some (Inl e), b') \<Rightarrow> (Bail e, b')
      | (None, b') \<Rightarrow> (Pending, b'))"

definition ack_if_needed ::
  "('sm, 'bm, 'am, 'ch) ctx \<Rightarrow> cid \<Rightarrow> bytes \<Rightarrow> QoS \<Rightarrow> u8 \<Rightarrow> ('sm, 'bm, 'am, 'ch, unit) bact" where
  "ack_if_needed X client op_id qos code b =
     (if needs_ack qos then send_ack X client op_id code (is_realtime qos) b else (Done (), b))"

section \<open>Dispatch\<close>

text \<open>\<open>SubscribeTopic\<close>: every denied topic is acknowledged on its own.\<close>

fun collect_topics ::
  "('sm, 'bm, 'am, 'ch) ctx \<Rightarrow> 'am client_aaa option \<Rightarrow> cid \<Rightarrow> bytes \<Rightarrow> QoS \<Rightarrow> bytes list \<Rightarrow> string list
     \<Rightarrow> ('sm, 'bm, 'am, 'ch, string list) bact" where
  "collect_topics X aaa client op_id qos [] topics b = (Done topics, b)"
| "collect_topics X aaa client op_id qos (t # sp) topics b =
     (case parse_str t of
        Inl e \<Rightarrow> (Bail e, b)
      | Inr topic \<Rightarrow>
          if subscribe_allowed X aaa topic
          then collect_topics X aaa client op_id qos sp (topics @ [topic]) b
          else act_then (ack_if_needed X client op_id qos ERR_ACCESS)
                 (\<lambda>_. collect_topics X aaa client op_id qos sp topics) b)"

definition subscribe_all ::
  "('sm, 'bm, 'am, 'ch) ctx \<Rightarrow> cid \<Rightarrow> string list \<Rightarrow> ('sm, 'bm, 'am, 'ch) broker \<Rightarrow> ('sm, 'bm, 'am, 'ch) broker" where
  "subscribe_all X client topics b =
     b\<lparr>b_subscriptions := fold (\<lambda>t m. snd (sm_subscribe X t (cref_of b client) m)) topics (b_subscriptions b)\<rparr>"

fun for_topics ::
  "(string \<Rightarrow> ('sm, 'bm, 'am, 'ch) broker \<Rightarrow> ('sm, 'bm, 'am, 'ch) broker) \<Rightarrow> bytes list
     \<Rightarrow> ('sm, 'bm, 'am, 'ch, unit) bact" where
  "for_topics f [] b = (Done (), b)"
| "for_topics f (t # sp) b =
     (case parse_str t of Inl e \<Rightarrow> (Bail e, b) | Inr topic \<Rightarrow> for_topics f sp (f topic b))"

definition handle_subscribe ::
  "('sm, 'bm, 'am, 'ch) ctx \<Rightarrow> 'am client_aaa option \<Rightarrow> cid \<Rightarrow> bytes \<Rightarrow> QoS \<Rightarrow> u32 \<Rightarrow> bytes
     \<Rightarrow> ('sm, 'bm, 'am, 'ch, unit) bact" where
  "handle_subscribe X aaa client op_id qos len buf b =
     act_then (collect_topics X aaa client op_id qos (split0 buf) [])
       (\<lambda>topics b'. ack_if_needed X client op_id qos RESPONSE_OK (subscribe_all X client topics b'))
       (count_r client (ucast len) b)"

definition handle_exclude ::
  "('sm, 'bm, 'am, 'ch) ctx \<Rightarrow> cid \<Rightarrow> bytes \<Rightarrow> QoS \<Rightarrow> u32 \<Rightarrow> bytes \<Rightarrow> ('sm, 'bm, 'am, 'ch, unit) bact" where
  "handle_exclude X client op_id qos len buf b =
     act_then (for_topics (\<lambda>t. upd_obj client (excl_insert X t)) (split0 buf))
       (\<lambda>_ b'. ack_if_needed X client op_id qos RESPONSE_OK
          (if split0 buf \<noteq> [] then upd_obj client (\<lambda>cl. cl\<lparr>c_has_exclusions := True\<rparr>) b' else b'))
       (count_r client (ucast len) b)"

definition handle_unexclude ::
  "('sm, 'bm, 'am, 'ch) ctx \<Rightarrow> cid \<Rightarrow> bytes \<Rightarrow> QoS \<Rightarrow> u32 \<Rightarrow> bytes \<Rightarrow> ('sm, 'bm, 'am, 'ch, unit) bact" where
  "handle_unexclude X client op_id qos len buf b =
     act_then (for_topics (\<lambda>t. upd_obj client (excl_remove X t)) (split0 buf))
       (\<lambda>_ b'. ack_if_needed X client op_id qos RESPONSE_OK (upd_obj client (excl_settle X) b'))
       (count_r client (ucast len) b)"

definition handle_unsubscribe ::
  "('sm, 'bm, 'am, 'ch) ctx \<Rightarrow> cid \<Rightarrow> bytes \<Rightarrow> QoS \<Rightarrow> u32 \<Rightarrow> bytes \<Rightarrow> ('sm, 'bm, 'am, 'ch, unit) bact" where
  "handle_unsubscribe X client op_id qos len buf b =
     act_then (for_topics (\<lambda>t b. b\<lparr>b_subscriptions :=
         snd (sm_unsubscribe X t (cref_of b client) (b_subscriptions b))\<rparr>) (split0 buf))
       (\<lambda>_. ack_if_needed X client op_id qos RESPONSE_OK)
       (count_r client (ucast len) b)"

text \<open>\<open>buf.splitn(2, |c| *c == 0)\<close>: the string before the first NUL, and where the rest starts.\<close>

definition parse_target :: "bytes \<Rightarrow> error + string \<times> usize" where
  "parse_target buf =
     (case splitn0 2 buf of
        [] \<Rightarrow> Inl err_broken_frame
      | tgt # rest \<Rightarrow>
          (case parse_str tgt of
             Inl e \<Rightarrow> Inl e
           | Inr target \<Rightarrow> if rest = [] then Inl err_broken_frame else Inr (target, length tgt + 1)))"

definition handle_targeted ::
  "('sm, 'bm, 'am, 'ch) ctx \<Rightarrow> 'am reader_params \<Rightarrow> cid \<Rightarrow> bytes \<Rightarrow> FrameOp \<Rightarrow> QoS \<Rightarrow> bytes
     \<Rightarrow> ('sm, 'bm, 'am, 'ch, unit) bact" where
  "handle_targeted X P client op_id op qos buf b =
     (case parse_target buf of
        Inl e \<Rightarrow> (Bail e, b)
      | Inr (target, payload_pos) \<Rightarrow>
          (let ack = ack_if_needed X client op_id qos;
               len = word_of_nat (length buf) :: u64;
               realtime = is_realtime qos;
               timeout = Some (rp_timeout P)
           in case op of
                OpMessage \<Rightarrow>
                  if p2p_allowed X (rp_aaa P) target then
                    act_then (send_msg X (announce X) client target None buf payload_pos len realtime timeout)
                      (\<lambda>r. ack (case r of Inl e \<Rightarrow> kind_code (e_kind e) | Inr _ \<Rightarrow> RESPONSE_OK)) b
                  else ack ERR_ACCESS b
              | OpBroadcast \<Rightarrow>
                  if broadcast_allowed X (rp_aaa P) target then
                    act_then (send_broadcast X (announce X) client target None buf payload_pos len realtime timeout)
                      (\<lambda>_. ack RESPONSE_OK) b
                  else ack ERR_ACCESS b
              | OpPublishTopic \<Rightarrow>
                  if publish_allowed X (rp_aaa P) target then
                    act_then (publish X (announce X) client target None buf payload_pos len realtime timeout)
                      (\<lambda>_. ack RESPONSE_OK) b
                  else ack ERR_ACCESS b
              | OpPublishTopicFor \<Rightarrow>
                  (case parse_target (drop payload_pos buf) of
                     Inl e \<Rightarrow> (Bail e, b)
                   | Inr (receiver, recv_len) \<Rightarrow>
                       if publish_allowed X (rp_aaa P) target then
                         act_then (publish_for X (announce X) client target receiver None buf
                             (payload_pos + recv_len) len realtime timeout)
                           (\<lambda>_. ack RESPONSE_OK) b
                       else ack ERR_ACCESS b)
              | _ \<Rightarrow> (Done (), b)))"

definition handle_frame ::
  "('sm, 'bm, 'am, 'ch) ctx \<Rightarrow> 'am reader_params \<Rightarrow> cid \<Rightarrow> bytes \<Rightarrow> FrameOp \<Rightarrow> QoS \<Rightarrow> u32 \<Rightarrow> bytes
     \<Rightarrow> ('sm, 'bm, 'am, 'ch, unit) bact" where
  "handle_frame X P client op_id op qos len buf =
     (case op of
        OpSubscribeTopic \<Rightarrow> handle_subscribe X (rp_aaa P) client op_id qos len buf
      | OpExcludeTopic \<Rightarrow> handle_exclude X client op_id qos len buf
      | OpUnexcludeTopic \<Rightarrow> handle_unexclude X client op_id qos len buf
      | OpUnsubscribeTopic \<Rightarrow> handle_unsubscribe X client op_id qos len buf
      | _ \<Rightarrow> handle_targeted X P client op_id op qos buf)"

text \<open>
  The loop.  \<open>others k\<close> is what the other tasks of the broker did before the \<open>k\<close>-th frame is
  processed, and \<open>env k\<close> the environment of that iteration (the clock, and how waiting ends).
\<close>

function handle_reader ::
  "(nat \<Rightarrow> ('sm, 'bm, 'am, 'ch) ctx) \<Rightarrow> (nat \<Rightarrow> ('sm, 'bm, 'am, 'ch) broker \<Rightarrow> ('sm, 'bm, 'am, 'ch) broker)
     \<Rightarrow> 'am reader_params \<Rightarrow> cid \<Rightarrow> string \<Rightarrow> nat \<Rightarrow> stream \<Rightarrow> ('sm, 'bm, 'am, 'ch, unit) bact" where
  "handle_reader env others P client name k s b =
     (case read_client_frame P name s of
        InEnd (Inr _) \<Rightarrow> (Done (), b)
      | InEnd (Inl e) \<Rightarrow> (Bail e, b)
      | InPing s' \<Rightarrow> handle_reader env others P client name (Suc k) s' (others k b)
      | InFrame op_id op qos len buf s' \<Rightarrow>
          (case handle_frame (env k) P client op_id op qos len buf (others k b) of
             (Done _, b') \<Rightarrow> handle_reader env others P client name (Suc k) s' b'
           | (Bail e, b') \<Rightarrow> (Bail e, b')
           | (Pending, b') \<Rightarrow> (Pending, b')))"
  by pat_completeness auto
termination
  by (relation "measure (\<lambda>(env, others, P, client, name, k, s, b). length (s_bytes s))")
     (auto dest: read_client_frame_consumes)

declare handle_reader.simps [simp del]

section \<open>The pinger\<close>

text \<open>
  One turn of \<open>handle_pinger\<close>: a full queue ends the connection, otherwise a NOP frame is queued.
\<close>

definition pinger_turn :: "('sm, 'bm, 'am, 'ch) ctx \<Rightarrow> cid \<Rightarrow> ('sm, 'bm, 'am, 'ch, unit) bact" where
  "pinger_turn X client b =
     (if ch_is_full X (c_tx (obj b client)) then (Bail (err_io [Lit ''client queue overflow'']), b)
      else case channel_send X client new_nop b of
        (Some (Inr _), b') \<Rightarrow> (Done (), b')
      | (Some (Inl e), b') \<Rightarrow> (Bail e, b')
      | (None, b') \<Rightarrow> (Pending, b'))"

end
