(* ===== verification/Bus_Delivery.thy ===== *)
theory Bus_Delivery
  imports Bus_Routing_Inv
begin

text \<open>
  Who receives what: a routed frame is appended once to the queue of every recipient with room and to
  no other queue; a full queue of an IPC client gets the client unregistered; and what happens when
  the client whose queue is full has to be announced while an announcement is under way.
\<close>

section \<open>Queues after a send\<close>

definition no_core :: "('sm, 'bm, 'am, 'ch) broker \<Rightarrow> bool" where
  "no_core b \<longleftrightarrow> b_rpc_client b = None \<and> \<not> b_rpc_locked b"

definition has_room :: "('ch \<Rightarrow> frame list) \<Rightarrow> ('ch \<Rightarrow> nat) \<Rightarrow> ('ch \<Rightarrow> bool) \<Rightarrow> 'ch \<Rightarrow> bool" where
  "has_room chq chcap chclosed ch \<longleftrightarrow> \<not> chclosed ch \<and> length (chq ch) < chcap ch"

text \<open>One attempt to send \<open>f\<close>: appended if there is room; a full channel is closed.\<close>

definition offered ::
  "('ch \<Rightarrow> frame list) \<Rightarrow> ('ch \<Rightarrow> nat) \<Rightarrow> ('ch \<Rightarrow> bool) \<Rightarrow> frame \<Rightarrow> 'ch \<Rightarrow> 'ch \<Rightarrow> bool" where
  "offered chq chcap chclosed f ch ch' \<longleftrightarrow>
     chq ch' = chq ch @ (if has_room chq chcap chclosed ch then [f] else []) \<and>
     chcap ch' = chcap ch \<and> (chclosed ch' \<longleftrightarrow> chclosed ch \<or> chcap ch \<le> length (chq ch))"

definition send_result ::
  "('ch \<Rightarrow> frame list) \<Rightarrow> ('ch \<Rightarrow> nat) \<Rightarrow> ('ch \<Rightarrow> bool) \<Rightarrow> 'ch \<Rightarrow> error + unit" where
  "send_result chq chcap chclosed ch =
     (if has_room chq chcap chclosed ch then Inr ()
      else if chcap ch \<le> length (chq ch) then Inl err_not_delivered else Inl err_eof)"

lemma drop_client_objs [simp]:
  "c_tx (obj (drop_client X c b) k) = c_tx (obj b k)"
  "c_kind (obj (drop_client X c b) k) = c_kind (obj b k)"
  "c_name (obj (drop_client X c b) k) = c_name (obj b k)"
  "c_primary (obj (drop_client X c b) k) = c_primary (obj b k)"
  "c_digest (obj (drop_client X c b) k) = c_digest (obj b k)"
proof -
  have f: "obj_frame (obj b k) (obj (drop_client X c b) k)"
  proof -
    have "list_all2 obj_frame (b_objs b) (b_objs (drop_client X c b))"
      using db_frame_drop(1) [of b X c] by (simp add: db_frame_def)
    then show ?thesis
    proof (induction arbitrary: k rule: list_all2_induct)
      case (Cons x xs y ys)
      then show ?case by (cases k) simp_all
    qed simp
  qed
  show "c_tx (obj (drop_client X c b) k) = c_tx (obj b k)"
    "c_kind (obj (drop_client X c b) k) = c_kind (obj b k)"
    "c_name (obj (drop_client X c b) k) = c_name (obj b k)"
    "c_primary (obj (drop_client X c b) k) = c_primary (obj b k)"
    "c_digest (obj (drop_client X c b) k) = c_digest (obj b k)"
    using obj_frameD [OF f] by simp_all
qed

lemma counter_objs [simp]:
  "c_tx (obj (count_r c len b) k) = c_tx (obj b k)" "c_tx (obj (client_w c len b) k) = c_tx (obj b k)"
  "c_kind (obj (count_r c len b) k) = c_kind (obj b k)" "c_kind (obj (client_w c len b) k) = c_kind (obj b k)"
  "c_primary (obj (count_r c len b) k) = c_primary (obj b k)"
  "c_primary (obj (client_w c len b) k) = c_primary (obj b k)"
  "c_registered (obj (count_r c len b) k) = c_registered (obj b k)"
  "c_registered (obj (client_w c len b) k) = c_registered (obj b k)"
  "c_has_exclusions (obj (count_r c len b) k) = c_has_exclusions (obj b k)"
  "c_exclusions (obj (count_r c len b) k) = c_exclusions (obj b k)"
  "c_primary_name (obj (count_r c len b) k) = c_primary_name (obj b k)"
  "length (b_objs (count_r c len b)) = length (b_objs b)"
  "length (b_objs (client_w c len b)) = length (b_objs b)"
  "b_objs (db_w n len b) = b_objs b"
  "b_clients (count_r c len b) = b_clients b" "b_subscriptions (count_r c len b) = b_subscriptions b"
  "b_broadcasts (count_r c len b) = b_broadcasts b"
  by (simp_all add: count_r_def client_w_def db_w_def upd_obj_def nth_upd Let_def)

lemma counter_no_core [simp]:
  "no_core (count_r c len b) \<longleftrightarrow> no_core b" "no_core (client_w c len b) \<longleftrightarrow> no_core b"
  "no_core (db_w n len b) \<longleftrightarrow> no_core b"
  by (simp_all add: no_core_def)

lemma obj_upd_tx:
  "c_tx (obj (upd_obj c (\<lambda>cl. cl\<lparr>c_tx := g cl\<rparr>) b) k) =
     (if k = c \<and> c < length (b_objs b) then g (obj b c) else c_tx (obj b k))"
  "c_kind (obj (upd_obj c (\<lambda>cl. cl\<lparr>c_tx := g cl\<rparr>) b) k) = c_kind (obj b k)"
  "c_primary (obj (upd_obj c (\<lambda>cl. cl\<lparr>c_tx := g cl\<rparr>) b) k) = c_primary (obj b k)"
  "c_registered (obj (upd_obj c (\<lambda>cl. cl\<lparr>c_tx := g cl\<rparr>) b) k) = c_registered (obj b k)"
  by (simp_all add: upd_obj_def nth_upd)

text \<open>What a send to \<open>c\<close> leaves alone.\<close>

definition send_frame_ok :: "cid \<Rightarrow> ('sm, 'bm, 'am, 'ch) broker \<Rightarrow> ('sm, 'bm, 'am, 'ch) broker \<Rightarrow> bool" where
  "send_frame_ok c b b' \<longleftrightarrow>
     length (b_objs b') = length (b_objs b) \<and> (no_core b \<longrightarrow> no_core b') \<and>
     (\<forall>k. c_kind (obj b' k) = c_kind (obj b k) \<and> (k \<noteq> c \<longrightarrow> c_tx (obj b' k) = c_tx (obj b k)))"

lemma unregister_no_core:
  "no_core b \<Longrightarrow> unregister_client_with X (announce X) c b = (Done (), drop_client X c b)"
  by (simp add: unregister_client_with_def log_err_def announce_no_core no_core_def Let_def)

context bounded_channel
begin

lemma channel_send_room:
  assumes "\<not> ch_is_full X (c_tx (obj b c))" and "c < length (b_objs b)"
  shows "\<exists>b'. channel_send X c f b = (Some (send_result chq chcap chclosed (c_tx (obj b c))), b') \<and>
    offered chq chcap chclosed f (c_tx (obj b c)) (c_tx (obj b' c)) \<and> send_frame_ok c b b'"
proof (cases "ch_send X f (c_tx (obj b c))")
  case (Sent ch)
  then have "\<not> chclosed (c_tx (obj b c)) \<and> length (chq (c_tx (obj b c))) < chcap (c_tx (obj b c)) \<and>
      chq ch = chq (c_tx (obj b c)) @ [f] \<and> chcap ch = chcap (c_tx (obj b c)) \<and> \<not> chclosed ch"
    using ch_send_Sent by blast
  with Sent assms(2) show ?thesis
    by (simp add: channel_send_def send_result_def offered_def has_room_def send_frame_ok_def no_core_def obj_upd_tx)
next
  case SendClosed
  with assms(1) have "chclosed (c_tx (obj b c))"
    using ch_send_ok [of "c_tx (obj b c)" f] by (force simp: ch_is_full)
  with SendClosed assms show ?thesis
    by (simp add: channel_send_def send_result_def offered_def has_room_def send_frame_ok_def ch_is_full)
next
  case SendFull
  then show ?thesis using ch_send_not_full [OF assms(1)] by blast
qed

lemma safe_send_frame_offered:
  assumes c: "c < length (b_objs b)"
    and full: "ch_is_full X (c_tx (obj b c)) \<Longrightarrow> c_kind (obj b c) \<noteq> Internal \<and> no_core b"
  shows "\<exists>b'. safe_send_frame X (announce X) timeout c f b =
      (Done (send_result chq chcap chclosed (c_tx (obj b c))), b') \<and>
    offered chq chcap chclosed f (c_tx (obj b c)) (c_tx (obj b' c)) \<and> send_frame_ok c b b'"
proof (cases "ch_is_full X (c_tx (obj b c))")
  case True
  let ?b = "upd_obj c (\<lambda>cl. cl\<lparr>c_tx := ch_close X (c_tx cl)\<rparr>) (drop_client X c b)"
  have "safe_send_frame X (announce X) timeout c f b = (Done (Inl err_not_delivered), ?b)"
    using True full by (simp add: safe_send_frame_def act_then_def unregister_no_core)
  moreover have "offered chq chcap chclosed f (c_tx (obj b c)) (c_tx (obj ?b c))"
    using True c by (simp add: offered_def has_room_def obj_upd_tx ch_close ch_is_full)
  moreover have "send_frame_ok c b ?b"
    by (simp add: send_frame_ok_def no_core_def obj_upd_tx)
  ultimately show ?thesis using True by (auto simp: send_result_def has_room_def ch_is_full)
next
  case False
  with channel_send_room [OF False c, of f] show ?thesis by (auto simp: safe_send_frame_def)
qed

lemma deliver_offered:
  assumes "distinct (map snd subs)"
    and "\<And>c. c \<in> snd ` set subs \<Longrightarrow> c < length (b_objs b)"
    and "\<And>c. c \<in> snd ` set subs \<Longrightarrow> ch_is_full X (c_tx (obj b c)) \<Longrightarrow> c_kind (obj b c) \<noteq> Internal \<and> no_core b"
  shows "\<exists>b'. deliver X (announce X) timeout len f subs b = (Done (), b') \<and>
    (\<forall>c. if c \<in> snd ` set subs then offered chq chcap chclosed f (c_tx (obj b c)) (c_tx (obj b' c))
         else c_tx (obj b' c) = c_tx (obj b c))"
  using assms
proof (induction subs arbitrary: b)
  case (Cons sub subs)
  let ?w = "client_w (snd sub) len b"
  obtain b1 where b1: "safe_send_frame X (announce X) timeout (snd sub) f ?w =
        (Done (send_result chq chcap chclosed (c_tx (obj b (snd sub)))), b1)"
      "offered chq chcap chclosed f (c_tx (obj b (snd sub))) (c_tx (obj b1 (snd sub)))"
      "send_frame_ok (snd sub) ?w b1"
    using safe_send_frame_offered [of "snd sub" ?w timeout f] Cons.prems(2,3) [of "snd sub"] by auto
  have tx: "c_tx (obj b1 c) = c_tx (obj b c)" if "c \<in> snd ` set subs" for c
  proof -
    have "snd sub \<notin> snd ` set subs" using Cons.prems(1) by simp
    with that have "c \<noteq> snd sub" by blast
    with b1(3) show ?thesis by (simp add: send_frame_ok_def)
  qed
  have rest: "distinct (map snd subs)" "\<And>c. c \<in> snd ` set subs \<Longrightarrow> c < length (b_objs b1)"
    "\<And>c. c \<in> snd ` set subs \<Longrightarrow> ch_is_full X (c_tx (obj b1 c)) \<Longrightarrow> c_kind (obj b1 c) \<noteq> Internal \<and> no_core b1"
    using Cons.prems b1(3) tx by (auto simp: send_frame_ok_def)
  obtain b2 where b2: "deliver X (announce X) timeout len f subs b1 = (Done (), b2)"
      "\<forall>c. if c \<in> snd ` set subs then offered chq chcap chclosed f (c_tx (obj b1 c)) (c_tx (obj b2 c))
           else c_tx (obj b2 c) = c_tx (obj b1 c)"
    using Cons.IH [OF rest] by blast
  have "if c \<in> snd ` set (sub # subs) then offered chq chcap chclosed f (c_tx (obj b c)) (c_tx (obj b2 c))
        else c_tx (obj b2 c) = c_tx (obj b c)" for c
  proof (cases "c \<in> snd ` set subs")
    case True
    with b2(2) tx show ?thesis by (metis image_insert insert_iff list.simps(15))
  next
    case False
    then have "c_tx (obj b2 c) = c_tx (obj b1 c)" using b2(2) by presburger
    with False b1(2,3) show ?thesis by (auto simp: send_frame_ok_def)
  qed
  moreover have "deliver X (announce X) timeout len f (sub # subs) b = (Done (), b2)"
    using b1(1) b2(1) by (simp add: act_then_def)
  ultimately show ?case by blast
qed auto

end

text \<open>The names a forced registration under \<open>name\<close> leaves: the previous client takes its secondaries with it.\<close>

definition names_after :: "('sm, 'bm, 'am, 'ch) broker \<Rightarrow> string \<Rightarrow> string \<rightharpoonup> cid" where
  "names_after b name = (\<lambda>n.
     if (\<exists>p. b_clients b name = Some p \<and> removed_by (obj b p) n) then None else b_clients b n)"

section \<open>Recipients\<close>

text \<open>The clients a frame published to \<open>topic\<close> is meant for, and the ones a broadcast mask names.\<close>

definition recipients ::
  "('sm \<Rightarrow> digest \<Rightarrow> (cid \<times> string set) option) \<Rightarrow> (string \<Rightarrow> string \<Rightarrow> bool)
     \<Rightarrow> (('am, 'ch) bus_client \<Rightarrow> bool) \<Rightarrow> string \<Rightarrow> ('sm, 'bm, 'am, 'ch) broker \<Rightarrow> cid set" where
  "recipients smv topic_match keep topic b =
     {c. live b c \<and> keep (obj b c) \<and>
         (\<exists>S. smv (b_subscriptions b) (c_digest (obj b c)) = Some (c, S) \<and> (\<exists>k \<in> S. topic_match k topic))}"

definition mask_recipients ::
  "(string \<Rightarrow> string \<Rightarrow> bool) \<Rightarrow> string \<Rightarrow> ('sm, 'bm, 'am, 'ch) broker \<Rightarrow> cid set" where
  "mask_recipients name_match tgt b = {c. live b c \<and> name_match tgt (c_name (obj b c))}"

lemma distinct_snd:
  assumes "distinct xs" and "\<And>d c. (d, c) \<in> set xs \<Longrightarrow> d = g c"
  shows "distinct (map snd xs)"
proof -
  have "inj_on snd (set xs)"
  proof (rule inj_onI)
    fix x y assume "x \<in> set xs" "y \<in> set xs" "snd x = snd y"
    then show "x = y" by (metis assms(2) prod.collapse)
  qed
  with assms(1) show ?thesis by (simp add: distinct_map)
qed

lemma snd_image_filter:
  "c \<in> snd ` set (filter (\<lambda>s. P (snd s)) xs) \<longleftrightarrow> (\<exists>d. (d, c) \<in> set xs) \<and> P c"
  by (induction xs) auto

lemma snd_image: "c \<in> snd ` set xs \<longleftrightarrow> (\<exists>d. (d, c) \<in> set xs)"
  by (induction xs) auto

context broker_libs
begin

lemma subscribers_keep:
  assumes "dbi N b"
  shows "snd ` set (filter (\<lambda>sub. keep (obj b (snd sub))) (sm_get_subscribers X topic (b_subscriptions b))) =
      recipients smv topic_match keep topic b"
    and "distinct (map snd (filter (\<lambda>sub. keep (obj b (snd sub))) (sm_get_subscribers X topic (b_subscriptions b))))"
proof -
  have s: "subs_ok smv b" using assms by (simp add: db_inv_def db_inv_ex_def)
  have m: "(d, c) \<in> set (sm_get_subscribers X topic (b_subscriptions b)) \<longleftrightarrow>
      live b c \<and> d = c_digest (obj b c) \<and>
      (\<exists>S. smv (b_subscriptions b) (c_digest (obj b c)) = Some (c, S) \<and> (\<exists>k \<in> S. topic_match k topic))" for d c
    using s [unfolded subs_ok_def, rule_format, of d c] by (auto simp: smv_subscribers)
  then show "snd ` set (filter (\<lambda>sub. keep (obj b (snd sub))) (sm_get_subscribers X topic (b_subscriptions b))) =
      recipients smv topic_match keep topic b"
    unfolding recipients_def set_eq_iff snd_image_filter [of _ "\<lambda>k. keep (obj b k)"] by (simp add: conj_ac)
  show "distinct (map snd (filter (\<lambda>sub. keep (obj b (snd sub))) (sm_get_subscribers X topic (b_subscriptions b))))"
    by (rule distinct_snd [of _ "\<lambda>c. c_digest (obj b c)"]) (simp_all add: m smv_distinct)
qed

lemma mask_clients:
  assumes "dbi N b"
  shows "snd ` set (bm_get_clients_by_mask X tgt (b_broadcasts b)) = mask_recipients name_match tgt b"
    and "distinct (map snd (bm_get_clients_by_mask X tgt (b_broadcasts b)))"
proof -
  have s: "bcast_ok bmv b" using assms by (simp add: db_inv_def db_inv_ex_def)
  have m: "(d, c) \<in> set (bm_get_clients_by_mask X tgt (b_broadcasts b)) \<longleftrightarrow>
      live b c \<and> d = c_digest (obj b c) \<and> name_match tgt (c_name (obj b c))" for d c
    using s [unfolded bcast_ok_def, rule_format, of d c] by (auto simp: bmv_by_mask)
  then show "snd ` set (bm_get_clients_by_mask X tgt (b_broadcasts b)) = mask_recipients name_match tgt b"
    unfolding mask_recipients_def set_eq_iff snd_image by simp
  show "distinct (map snd (bm_get_clients_by_mask X tgt (b_broadcasts b)))"
    by (rule distinct_snd [of _ "\<lambda>c. c_digest (obj b c)"]) (simp_all add: m bmv_distinct)
qed

text \<open>The condition under which a routing operation neither waits nor announces.\<close>

lemma publish_where_offered:
  assumes inv: "dbi N b"
    and keep: "\<And>c. keep (obj (count_r client len b) c) = keep (obj b c)"
    and full: "\<And>c. c \<in> recipients smv topic_match keep topic b \<Longrightarrow> ch_is_full X (c_tx (obj b c)) \<Longrightarrow>
        c_kind (obj b c) \<noteq> Internal \<and> no_core b"
  shows "\<exists>b'. publish_where keep X (announce X) client topic header buf pos len rt timeout b = (Done (), b') \<and>
    (\<forall>c. if c \<in> recipients smv topic_match keep topic b
         then offered chq chcap chclosed
                (frame_new KPublish (Some (c_name (obj b client))) (Some topic) header buf pos rt)
                (c_tx (obj b c)) (c_tx (obj b' c))
         else c_tx (obj b' c) = c_tx (obj b c))"
proof -
  let ?subs = "filter (\<lambda>sub. keep (obj b (snd sub))) (sm_get_subscribers X topic (b_subscriptions b))"
  note s = subscribers_keep [OF inv, where keep = keep and topic = topic]
  let ?b = "db_w (word_of_nat (length ?subs)) len (count_r client len b)"
  have r: "c \<in> recipients smv topic_match keep topic b \<Longrightarrow> c < length (b_objs b)" for c
    by (simp add: recipients_def live_def)
  show ?thesis
  proof (cases "?subs = []")
    case True
    then have "recipients smv topic_match keep topic b = {}" using s(1) by simp
    with True show ?thesis by (simp add: publish_where_def Let_def keep)
  next
    case False
    let ?f = "frame_new KPublish (Some (c_name (obj b client))) (Some topic) header buf pos rt"
    have "\<exists>b'. deliver X (announce X) timeout len ?f ?subs ?b = (Done (), b') \<and>
        (\<forall>c. if c \<in> snd ` set ?subs then offered chq chcap chclosed ?f (c_tx (obj ?b c)) (c_tx (obj b' c))
             else c_tx (obj b' c) = c_tx (obj ?b c))"
      by (rule deliver_offered [OF s(2)]) (unfold s(1), use r full in simp_all)
    then obtain b' where d: "deliver X (announce X) timeout len ?f ?subs ?b = (Done (), b')"
      and o: "\<forall>c. if c \<in> snd ` set ?subs then offered chq chcap chclosed ?f (c_tx (obj ?b c)) (c_tx (obj b' c))
             else c_tx (obj b' c) = c_tx (obj ?b c)" by blast
    have "publish_where keep X (announce X) client topic header buf pos len rt timeout b = (Done (), b')"
      using False d by (simp add: publish_where_def Let_def keep)
    moreover have "if c \<in> recipients smv topic_match keep topic b then offered chq chcap chclosed ?f (c_tx (obj b c)) (c_tx (obj b' c))
             else c_tx (obj b' c) = c_tx (obj b c)" for c
      using o [rule_format, of c] unfolding s(1) by (simp split: if_splits)
    ultimately show ?thesis by blast
  qed
qed

lemma send_broadcast_offered:
  assumes inv: "dbi N b"
    and full: "\<And>c. c \<in> mask_recipients name_match tgt b \<Longrightarrow> ch_is_full X (c_tx (obj b c)) \<Longrightarrow>
        c_kind (obj b c) \<noteq> Internal \<and> no_core b"
  shows "\<exists>b'. send_broadcast X (announce X) client tgt header buf pos len rt timeout b = (Done (), b') \<and>
    (\<forall>c. if c \<in> mask_recipients name_match tgt b
         then offered chq chcap chclosed
                (frame_new KBroadcast (Some (c_name (obj b client))) None header buf pos rt)
                (c_tx (obj b c)) (c_tx (obj b' c))
         else c_tx (obj b' c) = c_tx (obj b c))"
proof -
  let ?subs = "bm_get_clients_by_mask X tgt (b_broadcasts b)"
  note s = mask_clients [OF inv, of tgt]
  let ?b = "db_w (word_of_nat (length ?subs)) len (count_r client len b)"
  have r: "c \<in> mask_recipients name_match tgt b \<Longrightarrow> c < length (b_objs b)" for c
    by (simp add: mask_recipients_def live_def)
  show ?thesis
  proof (cases "?subs = []")
    case True
    then have "mask_recipients name_match tgt b = {}" using s(1) by simp
    with True show ?thesis by (simp add: send_broadcast_def Let_def)
  next
    case False
    let ?f = "frame_new KBroadcast (Some (c_name (obj b client))) None header buf pos rt"
    have "\<exists>b'. deliver X (announce X) timeout len ?f ?subs ?b = (Done (), b') \<and>
        (\<forall>c. if c \<in> snd ` set ?subs then offered chq chcap chclosed ?f (c_tx (obj ?b c)) (c_tx (obj b' c))
             else c_tx (obj b' c) = c_tx (obj ?b c))"
      by (rule deliver_offered [OF s(2)]) (unfold s(1), use r full in simp_all)
    then obtain b' where d: "deliver X (announce X) timeout len ?f ?subs ?b = (Done (), b')"
      and o: "\<forall>c. if c \<in> snd ` set ?subs then offered chq chcap chclosed ?f (c_tx (obj ?b c)) (c_tx (obj b' c))
             else c_tx (obj b' c) = c_tx (obj ?b c)" by blast
    have "send_broadcast X (announce X) client tgt header buf pos len rt timeout b = (Done (), b')"
      using False d by (simp add: send_broadcast_def Let_def)
    moreover have "if c \<in> mask_recipients name_match tgt b then offered chq chcap chclosed ?f (c_tx (obj b c)) (c_tx (obj b' c))
             else c_tx (obj b' c) = c_tx (obj b c)" for c
      using o [rule_format, of c] unfolding s(1) by (simp split: if_splits)
    ultimately show ?thesis by blast
  qed
qed

lemma send_msg_offered:
  assumes inv: "dbi N b" and t: "b_clients b target = Some c"
    and full: "ch_is_full X (c_tx (obj b c)) \<Longrightarrow> c_kind (obj b c) \<noteq> Internal \<and> no_core b"
  shows "\<exists>b'. send_msg X (announce X) client target header buf pos len rt timeout b =
      (Done (send_result chq chcap chclosed (c_tx (obj b c))), b') \<and>
    offered chq chcap chclosed
      (frame_new KMessage (Some (c_name (obj b client))) None header buf pos rt)
      (c_tx (obj b c)) (c_tx (obj b' c)) \<and>
    (\<forall>k. k \<noteq> c \<longrightarrow> c_tx (obj b' k) = c_tx (obj b k))"
proof -
  have "clients_ok b" using inv by (simp add: db_inv_def db_inv_ex_def)
  then have "c < length (b_objs b)" using t clients_okD live_less by blast
  then show ?thesis
    using safe_send_frame_offered [of c "db_w 1 len (client_w c len (count_r client len b))" timeout
        "frame_new KMessage (Some (c_name (obj b client))) None header buf pos rt"] t full
    by (auto simp: send_msg_def Let_def send_frame_ok_def)
qed

text \<open>
  A full internal client makes the sender wait: until its queue is drained, its receiver is gone, or the
  timeout is over.
\<close>

lemma send_msg_internal_full:
  assumes t: "b_clients b target = Some c" and c: "c < length (b_objs b)" and int: "c_kind (obj b c) = Internal"
    and full: "ch_is_full X (c_tx (obj b c))" and op: "\<not> chclosed (c_tx (obj b c))"
    and q: "q = chq (c_tx (obj b c))"
    and f: "f = frame_new KMessage (Some (c_name (obj b client))) None header buf pos rt"
  shows "\<exists>r b'. send_msg X (announce X) client target header buf pos len rt timeout b = (r, b') \<and>
    (\<forall>k. k \<noteq> c \<longrightarrow> c_tx (obj b' k) = c_tx (obj b k)) \<and>
    (case waits X c of
       ReceiverGone \<Rightarrow> r = Done (Inl err_eof) \<and> chq (c_tx (obj b' c)) = q
     | Drained n \<Rightarrow>
         if length (drop n q) < chcap (c_tx (obj b c)) then r = Done (Inr ()) \<and> chq (c_tx (obj b' c)) = drop n q @ [f]
         else r = (if timeout = None then Pending else Bail err_timeout) \<and> chq (c_tx (obj b' c)) = q
     | Elapsed \<Rightarrow> r = (if timeout = None then Pending else Bail err_timeout) \<and> chq (c_tx (obj b' c)) = q)"
proof -
  let ?b = "db_w 1 len (client_w c len (count_r client len b))"
  have s: "ch_send X f (c_tx (obj b c)) = SendFull" using full op ch_send_full by (simp add: ch_is_full)
  show ?thesis
  proof (cases "waits X c")
    case (Drained n)
    let ?d = "ch_drain X n (c_tx (obj b c))"
    have d: "chq ?d = drop n q" "chcap ?d = chcap (c_tx (obj b c))" "\<not> chclosed ?d" using ch_drain op by (simp_all add: q)
    show ?thesis
    proof (cases "length (drop n q) < chcap (c_tx (obj b c))")
      case True
      with d obtain ch where "ch_send X f ?d = Sent ch" "chq ch = drop n q @ [f]" using ch_send_ok [of ?d f] by auto
      with True Drained t c int full s show ?thesis
        by (simp add: send_msg_def Let_def safe_send_frame_def channel_send_def f [symmetric] obj_upd_tx)
    next
      case False
      with d have "ch_send X f ?d = SendFull" using ch_send_full [of ?d f] by simp
      with False Drained t c int full s show ?thesis
        by (auto simp: send_msg_def Let_def safe_send_frame_def channel_send_def f [symmetric] q split: option.splits)
    qed
  qed (use t c int full s ch_close in
      \<open>auto simp: send_msg_def Let_def safe_send_frame_def channel_send_def f [symmetric] q obj_upd_tx split: option.splits\<close>)
qed

text \<open>A message to a closed channel that is not full, or to a closed internal client.\<close>

lemma send_msg_closed:
  assumes t: "b_clients b target = Some c" and cl: "chclosed (c_tx (obj b c))"
    and full: "ch_is_full X (c_tx (obj b c)) \<Longrightarrow> c_kind (obj b c) = Internal"
  shows "\<exists>b'. send_msg X (announce X) client target header buf pos len rt timeout b = (Done (Inl err_eof), b') \<and>
    (\<forall>k. c_tx (obj b' k) = c_tx (obj b k))"
  using t full ch_send_closed [OF cl]
  by (auto simp: send_msg_def Let_def safe_send_frame_def channel_send_def)

end

text \<open>
  A message to a slow IPC client.  Its name is free and stays free, whatever the announcement of its
  unregistration does.
\<close>

sublocale broker_libs \<subseteq> freed: routing_invariant X
  "\<lambda>b. db_inv X smv bmv N b \<and> \<not> live b c \<and> b_clients b n = None \<and> c < length (b_objs b)" for N c n
proof
  fix b b' assume s: "same_registry b b'"
    and "db_inv X smv bmv N b \<and> \<not> live b c \<and> b_clients b n = None \<and> c < length (b_objs b)"
  moreover have "length (b_objs b') = length (b_objs b)" "b_clients b' = b_clients b"
    using s by (auto simp: same_registry_def dest: list_all2_lengthD)
  ultimately show "db_inv X smv bmv N b' \<and> \<not> live b' c \<and> b_clients b' n = None \<and> c < length (b_objs b')"
    by (simp add: same_registry_inv same_registryD(6))
next
  fix b k assume b: "db_inv X smv bmv N b \<and> \<not> live b c \<and> b_clients b n = None \<and> c < length (b_objs b)"
  then have "b_clients (drop_client X k b) n = None"
    using drop_client_clients [of N b k] drop_client_unregistered [of k b X] by (cases "live b k") (auto simp: live_def)
  with b show "db_inv X smv bmv N (drop_client X k b) \<and> \<not> live (drop_client X k b) c \<and>
      b_clients (drop_client X k b) n = None \<and> c < length (b_objs (drop_client X k b))"
    using drop_client_inv live_drop_client by auto
qed

context broker_libs
begin

lemma dropped_name_free:
  assumes inv: "dbi N b" and l: "live b c"
  shows "dbi N (drop_client X c b) \<and> \<not> live (drop_client X c b) c \<and> b_clients (drop_client X c b) (c_name (obj b c)) = None \<and>
    c < length (b_objs (drop_client X c b))"
proof -
  have d: "dbi N (drop_client X c b)" by (rule drop_client_inv [OF inv])
  moreover have n: "b_clients (drop_client X c b) (c_name (obj b c)) = None"
    using drop_client_clients [OF inv l] by (simp add: removed_by_def)
  moreover have "clients_ok (drop_client X c b)" using d by (simp add: db_inv_def db_inv_ex_def)
  then have "\<not> live (drop_client X c b) c" using n clients_okD [of "drop_client X c b" "c_name (obj b c)" c] by auto
  ultimately show ?thesis using l by (simp add: live_def)
qed

lemma send_msg_full:
  assumes inv: "dbi N b" and t: "b_clients b target = Some c"
    and ipc: "c_kind (obj b c) \<noteq> Internal" and full: "ch_is_full X (c_tx (obj b c))"
  shows "\<exists>r b'. send_msg X (announce X) client target header buf pos len rt timeout b = (r, b') \<and>
    dbi N b' \<and> \<not> live b' c \<and> b_clients b' target = None \<and>
    (r = Done (Inl err_not_delivered) \<and> chclosed (c_tx (obj b' c)) \<or> r = Pending \<and> \<not> no_core b)"
proof -
  have "clients_ok b" using inv by (simp add: db_inv_def db_inv_ex_def)
  then have l: "live b c" "c_name (obj b c) = target" using t clients_okD by blast+
  let ?w = "db_w 1 len (client_w c len (count_r client len b))"
  let ?Q = "\<lambda>b. dbi N b \<and> \<not> live b c \<and> b_clients b target = None \<and> c < length (b_objs b)"
  have s: "same_registry b ?w"
    by (rule same_registry_trans [OF same_registry_trans [OF same_registry_count_r same_registry_client_w]
          same_registry_db_w])
  have lw: "live ?w c" using same_registryD(6) [OF s] l(1) by blast
  have n: "c_name (obj ?w c) = target" using same_registryD(5) [OF s, of c] l(2) by (simp add: same_obj_def)
  have q: "?Q (drop_client X c ?w)"
    using dropped_name_free [OF same_registry_inv [OF s, THEN iffD2, OF inv] lw] n by simp
  obtain r b1 where u: "unregister_client_with X (announce X) c ?w = (r, b1)" by fastforce
  have "?Q (snd (announce X ev b0))" if "?Q b0" for ev b0
    using freed.announce_keeps [of N c target] that by (simp add: ann_keeps_def)
  from this [OF q] q have "?Q (snd (unregister_client_with X (announce X) c ?w))"
    by (simp add: unregister_client_with_def Let_def)
  then have q1: "?Q b1" unfolding u by simp
  have r: "r = Done () \<or> r = Pending \<and> \<not> no_core b"
    using u unregister_no_core [of ?w X c]
    by (auto simp: unregister_client_with_def Let_def log_err_def split: if_splits prod.splits eff.splits)
  have m: "send_msg X (announce X) client target header buf pos len rt timeout b =
      act_then (unregister_client_with X (announce X) c) (\<lambda>_ b'.
        (Done (Inl err_not_delivered), upd_obj c (\<lambda>cl. cl\<lparr>c_tx := ch_close X (c_tx cl)\<rparr>) b')) ?w"
    using t ipc full by (simp add: send_msg_def safe_send_frame_def Let_def)
  from r show ?thesis
  proof
    assume "r = Done ()"
    moreover have "?Q (upd_obj c (\<lambda>cl. cl\<lparr>c_tx := ch_close X (c_tx cl)\<rparr>) b1)"
      by (rule freed.Q_rules) (use q1 in simp)
    ultimately show ?thesis using q1 by (simp add: m u act_then_def obj_upd_tx ch_close)
  next
    assume "r = Pending \<and> \<not> no_core b"
    then show ?thesis using q1 by (simp add: m u act_then_def)
  qed
qed

text \<open>A forced registration.\<close>

lemma forced_inserted:
  assumes inv: "dbi N b" and c: "c < length (b_objs b)" "c_primary (obj b c)"
    and force: "b_force_register b" and prev: "b_clients b (c_name (obj b c)) = Some p"
  shows "register_entry X c b = (Inr (), inserted X c (trigger p (drop_client X p b)))"
    and "b_clients (trigger p (drop_client X p b)) = (\<lambda>n. if removed_by (obj b p) n then None else b_clients b n)"
    and "live b p" and "c_name (obj b p) = c_name (obj b c)"
proof -
  have "clients_ok b" using inv by (simp add: db_inv_def db_inv_ex_def)
  then show p: "live b p" "c_name (obj b p) = c_name (obj b c)" using prev clients_okD by blast+
  let ?t = "trigger p (drop_client X p b)"
  show cl: "b_clients ?t = (\<lambda>n. if removed_by (obj b p) n then None else b_clients b n)"
    using drop_client_clients [OF inv p(1)] by simp
  have "insert_client X c b = (Inl (err_busy [Lit ''the client is already registred: '', Lit (c_name (obj b c))]), b)"
    using c prev by (simp add: insert_client_cases Let_def)
  then have "register_entry X c b = insert_client X c ?t"
    using c(2) force prev p by (simp add: register_entry_def Let_def drop_client_removed)
  also have "insert_client X c ?t = (Inr (), inserted X c ?t)"
    using c p(2) cl by (simp add: insert_client_cases Let_def obj_trigger removed_by_def)
  finally show "register_entry X c b = (Inr (), inserted X c ?t)" .
qed

lemma forced_entry:
  assumes inv: "dbi N b" and c: "c < length (b_objs b)" "\<not> c_registered (obj b c)" "c_primary (obj b c)"
    and force: "b_force_register b" and prev: "b_clients b (c_name (obj b c)) = Some p"
  shows "\<exists>b'. register_entry X c b = (Inr (), b') \<and> b_clients b' (c_name (obj b c)) = Some c \<and>
    \<not> live b' p \<and> c_disconnect_trig (obj b' p)"
proof -
  note f = forced_inserted [OF inv c(1,3) force prev]
  let ?t = "trigger p (drop_client X p b)"
  have pc: "p \<noteq> c" using f(3) c(2) by (auto simp: live_def)
  have i: "b_clients ?t (c_name (obj ?t c)) = None" "c_primary (obj ?t c)" "c < length (b_objs ?t)"
    using f(2,4) c by (simp_all add: obj_trigger removed_by_def)
  have inc: "b_clients (inserted X c ?t) (c_name (obj b c)) = Some c"
    using inserted_simps(1) [of ?t c X] i by (simp add: obj_trigger)
  have "dbi N (inserted X c ?t)"
    using register_entry_inv [OF inv c(1,2)] f(1) by simp
  then have "clients_ok (inserted X c ?t)" by (simp add: db_inv_def db_inv_ex_def)
  moreover have "c_name (obj (inserted X c ?t) p) = c_name (obj b c)"
    using obj_inserted(1) [of ?t c 0 X p] i f(4) by (simp add: obj_trigger)
  ultimately have "\<not> live (inserted X c ?t) p"
    using inc pc clients_okD [of "inserted X c ?t" "c_name (obj b c)" p] by auto
  moreover have "c_disconnect_trig (obj (inserted X c ?t) p)"
    using i f(3) pc by (simp add: inserted_def insert_client_def Let_def upd_obj_def nth_upd trigger_def live_def)
  ultimately show ?thesis using f(1) inc by blast
qed

text \<open>What a registration that succeeds does.\<close>

lemma inserted_registered:
  assumes i: "dbi N (inserted X c b)" and c: "c < length (b_objs b)" and free: "b_clients b (c_name (obj b c)) = None"
    and pri: "c_primary (obj b c) \<or> b_clients b (c_primary_name (obj b c)) = Some p" and p: "p < length (b_objs b)"
  shows "b_clients (inserted X c b) = (b_clients b)(c_name (obj b c) \<mapsto> c)" and "live (inserted X c b) c"
    and "\<exists>S. smv (b_subscriptions (inserted X c b)) (c_digest (obj b c)) = Some (c, S) \<and> BROKER_WARN_TOPIC \<in> S"
    and "bmv (b_broadcasts (inserted X c b)) (c_digest (obj b c)) = Some (c, c_name (obj b c))"
    and "\<not> c_primary (obj b c) \<Longrightarrow> c_name (obj b c) \<in> set (c_secondaries (obj (inserted X c b) p))"
    and "c_tx (obj (inserted X c b) k) = c_tx (obj b k)"
proof -
  have pri': "c_primary (obj b c) \<or> b_clients b (c_primary_name (obj b c)) \<noteq> None" using pri by auto
  note si = inserted_simps [OF free pri', of X] and oi = obj_inserted [OF free pri c, of X]
  show "b_clients (inserted X c b) = (b_clients b)(c_name (obj b c) \<mapsto> c)" by (rule si(1))
  show l: "live (inserted X c b) c" using c by (simp add: live_def si oi)
  have ok: "subs_ok smv (inserted X c b)" "bcast_ok bmv (inserted X c b)" using i by (simp_all add: db_inv_def db_inv_ex_def)
  then obtain S where S: "smv (b_subscriptions (inserted X c b)) (c_digest (obj b c)) = Some (c, S)"
    using l oi(2) [of c] unfolding subs_ok_def by blast
  obtain ok' m where sm: "sm_subscribe X BROKER_WARN_TOPIC (c_digest (obj b c), c)
      (sm_register_client X (c_digest (obj b c), c) (b_subscriptions b)) = (ok', m)" by force
  have m: "b_subscriptions (inserted X c b) = m" by (simp add: si(2) cref_of_def sm)
  have "BROKER_WARN_TOPIC \<in> S" using smv_subscribe [OF sm] S unfolding m by (auto split: option.splits if_splits)
  with S show "\<exists>S. smv (b_subscriptions (inserted X c b)) (c_digest (obj b c)) = Some (c, S) \<and> BROKER_WARN_TOPIC \<in> S" by blast
  show "bmv (b_broadcasts (inserted X c b)) (c_digest (obj b c)) = Some (c, c_name (obj b c))"
    using ok(2) l oi(1,2) unfolding bcast_ok_def by blast
  show "\<not> c_primary (obj b c) \<Longrightarrow> c_name (obj b c) \<in> set (c_secondaries (obj (inserted X c b) p))"
    using p by (simp add: oi(6))
  show "c_tx (obj (inserted X c b) k) = c_tx (obj b k)"
    by (simp add: inserted_def insert_client_def Let_def upd_obj_def nth_upd)
qed

lemma entry_succeeds:
  assumes inv: "dbi N b" and c: "c < length (b_objs b)" "\<not> c_registered (obj b c)"
    and pri: "c_primary (obj b c) \<or> b_clients b (c_primary_name (obj b c)) = Some p"
    and ok: "b_clients b (c_name (obj b c)) = None \<or> c_primary (obj b c) \<and> b_force_register b"
  shows "\<exists>b'. register_entry X c b = (Inr (), b') \<and>
    b_clients b' = (names_after b (c_name (obj b c)))(c_name (obj b c) \<mapsto> c) \<and> live b' c \<and>
    (\<exists>S. smv (b_subscriptions b') (c_digest (obj b c)) = Some (c, S) \<and> BROKER_WARN_TOPIC \<in> S) \<and>
    bmv (b_broadcasts b') (c_digest (obj b c)) = Some (c, c_name (obj b c)) \<and>
    (\<not> c_primary (obj b c) \<longrightarrow> c_name (obj b c) \<in> set (c_secondaries (obj b' p))) \<and>
    (\<forall>k. c_tx (obj b' k) = c_tx (obj b k))"
proof (cases "b_clients b (c_name (obj b c))")
  case None
  have "register_entry X c b = (Inr (), inserted X c b)"
    using c(1) pri None by (auto simp: register_entry_def insert_client_cases Let_def)
  moreover have "dbi N (inserted X c b)" using register_entry_inv [OF inv c] calculation by simp
  moreover have "b_clients b = names_after b (c_name (obj b c))" by (simp add: names_after_def None)
  moreover have "\<exists>q. q < length (b_objs b) \<and> (c_primary (obj b c) \<or> b_clients b (c_primary_name (obj b c)) = Some q) \<and>
      (\<not> c_primary (obj b c) \<longrightarrow> q = p)"
  proof (cases "c_primary (obj b c)")
    case False
    have "clients_ok b" using inv by (simp add: db_inv_def db_inv_ex_def)
    with False pri have "p < length (b_objs b)" using clients_okD live_less by blast
    with False pri show ?thesis by blast
  qed (use c in blast)
  then obtain q where q: "q < length (b_objs b)" "c_primary (obj b c) \<or> b_clients b (c_primary_name (obj b c)) = Some q"
    "\<not> c_primary (obj b c) \<longrightarrow> q = p" by blast
  ultimately show ?thesis
    using inserted_registered [OF _ c(1) None q(2,1), of N] q(3) by (intro exI [of _ "inserted X c b"]) auto
next
  case (Some pr)
  with ok have f: "c_primary (obj b c)" "b_force_register b" by simp_all
  note fi = forced_inserted [OF inv c(1) f Some]
  let ?t = "trigger pr (drop_client X pr b)"
  have o: "c_name (obj ?t c) = c_name (obj b c)" "c_primary (obj ?t c) = c_primary (obj b c)"
    "c_digest (obj ?t c) = c_digest (obj b c)" "length (b_objs ?t) = length (b_objs b)"
    by (simp_all add: obj_trigger)
  have free: "b_clients ?t (c_name (obj ?t c)) = None" using fi(2,4) o by (simp add: removed_by_def)
  have "b_clients ?t = names_after b (c_name (obj b c))" unfolding fi(2) names_after_def by (simp add: Some)
  moreover have "dbi N (inserted X c ?t)" using register_entry_inv [OF inv c] fi(1) by simp
  ultimately show ?thesis
    using inserted_registered [of N c ?t c] fi(1) free f(1) c(1) o
    by (intro exI [of _ "inserted X c ?t"]) (simp add: obj_trigger)
qed

end

section \<open>An announcement that blocks itself\<close>

lemma drop_client_registered:
  assumes "\<not> (c_primary (obj b s) \<and> c_registered (obj b s))" and "k \<noteq> s"
  shows "c_registered (obj (drop_client X s b) k) = c_registered (obj b k)"
  using assms
  by (subst drop_client.simps)
     (auto simp: Let_def deregister_def upd_obj_def nth_upd split: option.splits)

text \<open>What a send made while the lock is held leaves of the other clients, if it returns.\<close>

lemma safe_send_frame_locked_others:
  assumes "ann_agree ann ann" and "b_rpc_locked b" and "k \<noteq> s"
  shows "(case safe_send_frame X ann None s f b of
      (Done r, b') \<Rightarrow> c_tx (obj b' k) = c_tx (obj b k) \<and> c_kind (obj b' k) = c_kind (obj b k) \<and>
        c_primary (obj b' k) = c_primary (obj b k) \<and> c_registered (obj b' k) = c_registered (obj b k)
    | (Bail e, b') \<Rightarrow> False | (Pending, b') \<Rightarrow> True)"
proof -
  obtain r b1 where c: "channel_send X s f b = (r, b1)" by (cases "channel_send X s f b")
  then have "c_tx (obj b1 k) = c_tx (obj b k) \<and> c_kind (obj b1 k) = c_kind (obj b k) \<and>
      c_primary (obj b1 k) = c_primary (obj b k) \<and> c_registered (obj b1 k) = c_registered (obj b k)"
    using assms(3) by (auto simp: channel_send_def obj_upd_tx split: send_poll.splits waited.splits)
  then show ?thesis
    using assms
    by (auto simp: safe_send_frame_def c act_then_def unregister_client_with_def Let_def log_err_def
        ann_agree_def obj_upd_tx drop_client_registered split: option.splits)
qed

definition blocks :: "('sm, 'bm, 'am, 'ch) ctx \<Rightarrow> ('sm, 'bm, 'am, 'ch) broker \<Rightarrow> cid \<Rightarrow> bool" where
  "blocks X b c \<longleftrightarrow> c_primary (obj b c) \<and> c_registered (obj b c) \<and> c_kind (obj b c) \<noteq> Internal \<and>
     ch_is_full X (c_tx (obj b c))"

lemma deliver_blocks:
  assumes ann: "ann_agree ann ann"
  shows "distinct (map snd subs) \<Longrightarrow> c \<in> snd ` set subs \<Longrightarrow> blocks X b c \<Longrightarrow> b_rpc_locked b \<Longrightarrow>
    \<exists>b'. deliver X ann None len f subs b = (Pending, b') \<and> b_rpc_locked b'"
proof (induction subs arbitrary: b)
  case (Cons sub subs)
  let ?w = "client_w (snd sub) len b"
  have w: "b_rpc_locked ?w" "blocks X ?w c" using Cons.prems by (simp_all add: blocks_def)
  obtain r b1 where r: "safe_send_frame X ann None (snd sub) f ?w = (r, b1)"
    by (cases "safe_send_frame X ann None (snd sub) f ?w")
  have l: "b_rpc_locked b1" using safe_send_frame_locked(2) [OF ann w(1), of X None "snd sub" f] r by simp
  show ?case
  proof (cases "c = snd sub")
    case True
    then have "r = Pending"
      using w ann r by (auto simp: safe_send_frame_def blocks_def act_then_def
          unregister_client_with_def log_err_def ann_agree_def)
    with r l show ?thesis by (simp add: act_then_def)
  next
    case False
    have o: "(case (r, b1) of (Done r, b') \<Rightarrow> blocks X b' c | (Bail e, b') \<Rightarrow> False | (Pending, b') \<Rightarrow> True)"
      using safe_send_frame_locked_others [OF ann w(1) False, of X f] w(2)
      by (auto simp: r blocks_def split: eff.splits)
    show ?thesis
    proof (cases r)
      case (Done x)
      with o have "blocks X b1 c" by simp
      with Cons.IH [of b1] Cons.prems False l
      obtain b' where "deliver X ann None len f subs b1 = (Pending, b')" "b_rpc_locked b'" by auto
      with r Done show ?thesis by (simp add: act_then_def)
    next
      case (Bail e)
      with o show ?thesis by simp
    next
      case Pending
      with r l show ?thesis by (simp add: act_then_def)
    qed
  qed
qed simp

context broker_libs
begin

lemma announce_blocks:
  assumes inv: "dbi N b" and core: "b_rpc_client b = Some k"
    and free: "\<not> b_rpc_locked b" "\<not> b_core_locked b"
    and enc: "rmp_event X (ev_s ev) (ev_d ev) (now_ns X) = Inr payload"
    and c: "c \<in> recipients smv topic_match (not_excluded X (ev_topic ev)) (ev_topic ev) b" "blocks X b c"
  shows "\<exists>b'. announce X ev b = (Pending, b') \<and> b_rpc_locked b'"
proof -
  let ?b = "b\<lparr>b_rpc_locked := True, b_core_locked := True\<rparr>"
  let ?k = "not_excluded X (ev_topic ev)"
  let ?l = "word_of_nat (length payload) :: u64"
  let ?c = "count_r k ?l ?b"
  let ?subs = "filter (\<lambda>sub. ?k (obj ?b (snd sub))) (sm_get_subscribers X (ev_topic ev) (b_subscriptions ?b))"
  have i: "dbi N ?b" using inv by simp
  note s = subscribers_keep [OF i, where keep = ?k and topic = "ev_topic ev"]
  have "c \<in> recipients smv topic_match ?k (ev_topic ev) ?b"
    using c by (simp add: recipients_def live_def)
  then have m: "c \<in> snd ` set ?subs" using s(1) by blast
  then have ne: "?subs \<noteq> []" by (metis empty_iff image_empty list.set(1))
  have "blocks X (db_w (word_of_nat (length ?subs)) ?l ?c) c" using c(2) by (simp add: blocks_def)
  moreover have "ann_agree (announce_fuel X 0) (announce_fuel X 0)" by (simp add: ann_agree_def)
  ultimately obtain b' where
    "deliver X (announce_fuel X 0) None ?l
       (frame_new KPublish (Some (c_name (obj ?b k))) (Some (ev_topic ev)) None payload 0 (is_realtime QosNo))
       ?subs (db_w (word_of_nat (length ?subs)) ?l ?c) = (Pending, b')" "b_rpc_locked b'"
    using deliver_blocks [OF _ s(2) m] by force
  moreover have "?k (obj ?c j) = ?k (obj ?b j)" for j by (simp add: not_excluded_def)
  ultimately have "publish X (announce_fuel X 0) k (ev_topic ev) None payload 0 ?l (is_realtime QosNo) None ?b = (Pending, b')"
    using ne by (simp add: publish_def publish_where_def Let_def)
  with core free enc \<open>b_rpc_locked b'\<close> show ?thesis
    by (simp add: announce_def unlock_core_def)
qed

end

end
