(* ===== verification/Bus_Reader_Inv.thy ===== *)
theory Bus_Reader_Inv
  imports Bus_Reader Bus_Delivery
begin

text \<open>
  The reader of the broker keeps the registry invariant on every input, understands every frame the IPC
  client writes, and its answers: what a denied operation does, and how many acknowledgements an
  operation gets.
\<close>

section \<open>The invariant\<close>

text \<open>Changing the subscribed masks of a registered client is invisible to the invariant.\<close>

lemma send_ack_registry: "same_registry b (snd (send_ack X c op_id code rt b))"
proof -
  obtain r b' where s: "channel_send X c (ack_frame op_id code rt) (db_w 1 6 (client_w c 6 b)) = (r, b')"
    by force
  have "same_registry b (db_w 1 6 (client_w c 6 b))"
    using same_registry_trans [OF same_registry_client_w same_registry_db_w] .
  then have "same_registry b b'"
    using same_registry_trans same_registry_channel_send [of _ X c "ack_frame op_id code rt"] s by (metis snd_conv)
  then show ?thesis by (auto simp: send_ack_def s split: option.splits sum.splits)
qed

lemma ack_if_needed_registry: "same_registry b (snd (ack_if_needed X c op_id qos code b))"
  by (simp add: ack_if_needed_def send_ack_registry)

context broker_libs
begin

lemma subs_ok_masks:
  assumes "dbi N b" and "\<And>d c. (\<exists>S. smv m d = Some (c, S)) \<longleftrightarrow> (\<exists>S. smv (b_subscriptions b) d = Some (c, S))"
  shows "dbi N (b\<lparr>b_subscriptions := m\<rparr>)"
proof -
  have l: "live (b\<lparr>b_subscriptions := m\<rparr>) c \<longleftrightarrow> live b c" for c by (simp add: live_def)
  have "objs_ok X N (b\<lparr>b_subscriptions := m\<rparr>) = objs_ok X N b"
    "clients_ok (b\<lparr>b_subscriptions := m\<rparr>) = clients_ok b"
    "subs_ok smv (b\<lparr>b_subscriptions := m\<rparr>) = subs_ok smv b"
    "bcast_ok bmv (b\<lparr>b_subscriptions := m\<rparr>) = bcast_ok bmv b"
    "orphans_ok {} (b\<lparr>b_subscriptions := m\<rparr>) = orphans_ok {} b"
    "secs_ok {} (b\<lparr>b_subscriptions := m\<rparr>) = secs_ok {} b"
    by (simp_all add: db_inv_parts l assms(2))
  with assms(1) show ?thesis by (simp add: db_inv_def db_inv_ex_def)
qed

lemma smv_subscribe_dom:
  "(\<exists>S. smv (snd (sm_subscribe X t r m)) d = Some (c, S)) \<longleftrightarrow> (\<exists>S. smv m d = Some (c, S))"
proof (cases r)
  case (Pair e k)
  obtain ok m' where s: "sm_subscribe X t (e, k) m = (ok, m')" by force
  show ?thesis using smv_subscribe [OF s] Pair s
    by (cases "smv m e") (auto split: if_splits)
qed

lemma smv_unsubscribe_dom:
  "(\<exists>S. smv (snd (sm_unsubscribe X t r m)) d = Some (c, S)) \<longleftrightarrow> (\<exists>S. smv m d = Some (c, S))"
proof (cases r)
  case (Pair e k)
  obtain ok m' where s: "sm_unsubscribe X t (e, k) m = (ok, m')" by force
  show ?thesis using smv_unsubscribe [OF s] Pair s
    by (cases "smv m e") (auto split: if_splits)
qed

lemma subscribe_all_inv: "dbi N b \<Longrightarrow> dbi N (subscribe_all X c topics b)"
proof -
  assume "dbi N b"
  moreover have "(\<exists>S. smv (fold (\<lambda>t m. snd (sm_subscribe X t r m)) topics m) d = Some (k, S)) \<longleftrightarrow>
      (\<exists>S. smv m d = Some (k, S))" for r m d k
    by (induction topics arbitrary: m) (simp_all add: smv_subscribe_dom)
  ultimately show ?thesis by (simp add: subscribe_all_def subs_ok_masks)
qed

lemma send_ack_inv: "dbi N b \<Longrightarrow> dbi N (snd (send_ack X c op_id code rt b))"
  using same_registry_inv [OF send_ack_registry] by blast

lemma ack_if_needed_inv: "dbi N b \<Longrightarrow> dbi N (snd (ack_if_needed X c op_id qos code b))"
  by (simp add: ack_if_needed_def send_ack_inv)

lemma collect_topics_inv:
  "dbi N b \<Longrightarrow> dbi N (snd (collect_topics X aaa c op_id qos sp topics b))"
proof (induction sp arbitrary: topics b)
  case (Cons t sp)
  have "dbi N (snd (act_then (ack_if_needed X c op_id qos ERR_ACCESS)
      (\<lambda>_. collect_topics X aaa c op_id qos sp topics) b))"
    using Cons.prems by (rule act_then_keeps) (simp_all add: ack_if_needed_inv Cons.IH del: ERR_ACCESS_def)
  with Cons show ?case by (simp del: ERR_ACCESS_def split: sum.splits)
qed simp

lemma for_topics_inv:
  assumes "\<And>t b. dbi N b \<Longrightarrow> dbi N (f t b)"
  shows "dbi N b \<Longrightarrow> dbi N (snd (for_topics f sp b))"
  by (induction sp arbitrary: b) (simp_all add: assms split: sum.splits)

lemma same_registry_excl:
  "same_registry b (upd_obj c (excl_insert X t) b)" "same_registry b (upd_obj c (excl_remove X t) b)"
  "same_registry b (upd_obj c (excl_settle X) b)"
  "same_registry b (upd_obj c (\<lambda>cl. cl\<lparr>c_has_exclusions := h\<rparr>) b)"
  by (auto intro!: same_registry_upd_obj simp: same_obj_def excl_insert_def excl_remove_def excl_settle_def)

lemmas excl_inv = same_registry_excl [THEN same_registry_inv]

lemma handle_targeted_inv: "dbi N b \<Longrightarrow> dbi N (snd (handle_targeted X P c op_id op qos buf b))"
proof -
  assume b: "dbi N b"
  have a: "dbi N (snd (act_then m (\<lambda>x. ack_if_needed X c op_id qos (code x)) b))"
    if "\<And>b. dbi N b \<Longrightarrow> dbi N (snd (m b))" for m :: "('sm, 'bm, 'am, 'ch, 'x) bact" and code
    using b that by (rule act_then_keeps) (simp_all add: ack_if_needed_inv)
  note rules = a b ack_if_needed_inv dbinv.send_msg_keeps dbinv.send_broadcast_keeps dbinv.publish_keeps
    dbinv.publish_for_keeps dbinv.announce_keeps
  show ?thesis
    by (cases op) (auto simp: handle_targeted_def Let_def intro!: rules split: sum.splits)
qed

lemma handle_frame_inv: "dbi N b \<Longrightarrow> dbi N (snd (handle_frame X P c op_id op qos len buf b))"
proof -
  assume b: "dbi N b"
  then have r: "dbi N (count_r c (ucast len) b)" by simp
  have "dbi N (snd (handle_subscribe X aaa c op_id qos len buf b))" for aaa
    unfolding handle_subscribe_def using r
    by (rule act_then_keeps) (simp_all add: collect_topics_inv ack_if_needed_inv subscribe_all_inv)
  moreover have "dbi N (snd (handle_exclude X c op_id qos len buf b))"
    unfolding handle_exclude_def using r
    by (rule act_then_keeps) (simp_all add: for_topics_inv ack_if_needed_inv excl_inv)
  moreover have "dbi N (snd (handle_unexclude X c op_id qos len buf b))"
    unfolding handle_unexclude_def using r
    by (rule act_then_keeps) (simp_all add: for_topics_inv ack_if_needed_inv excl_inv)
  moreover have "dbi N (snd (handle_unsubscribe X c op_id qos len buf b))"
    unfolding handle_unsubscribe_def using r
    by (rule act_then_keeps)
       (simp_all add: for_topics_inv ack_if_needed_inv subs_ok_masks smv_unsubscribe_dom)
  ultimately show ?thesis using b by (cases op) (simp_all add: handle_frame_def handle_targeted_inv)
qed

end

section \<open>What the client writes, the broker reads\<close>

text \<open>A frame of the IPC client: its id, its flags, its length and its body.\<close>

definition client_frame :: "u32 \<Rightarrow> FrameOp \<Rightarrow> QoS \<Rightarrow> bytes \<Rightarrow> bytes" where
  "client_frame i op qos body = le32 i @ [frame_flags op qos] @ le32 (word_of_nat (length body)) @ body"

text \<open>A reader without a payload limit and without an allocator that refuses, on small frames.\<close>

definition accepts :: "'am reader_params \<Rightarrow> string \<Rightarrow> nat \<Rightarrow> bool" where
  "accepts P name n \<longleftrightarrow> n < 2 ^ 32 \<and>
     (case rp_payload_size_limit P of Some limit \<Rightarrow> n \<le> unat limit | None \<Rightarrow> True) \<and>
     (case rp_allocator P of Some (limit, allocate) \<Rightarrow> limit < n \<longrightarrow> allocate name n = Some n | None \<Rightarrow> True)"

lemma read_client_frame_client_frame:
  assumes "op \<noteq> OpNop" and "accepts P name (length body)"
  shows "read_client_frame P name (feed (client_frame i op qos body) s) =
    InFrame (le32 i) op qos (word_of_nat (length body)) body s"
proof -
  let ?h = "le32 i @ [frame_flags op qos] @ le32 (word_of_nat (length body))"
  have "client_frame i op qos body = ?h @ body" by (simp add: client_frame_def)
  then have 9: "read_exact 9 (feed (client_frame i op qos body) s) = Got ?h (feed body s)"
    by (simp only:) (rule read_exact_feed_append, simp)
  have n: "unat (word_of_nat (length body) :: u32) = length body"
    using assms(2) by (simp add: accepts_def unat_of_nat_u32)
  have lim: "\<not> (case rp_payload_size_limit P of Some limit \<Rightarrow> (word_of_nat (length body) :: u32) > limit | None \<Rightarrow> False)"
    using assms(2) by (auto simp: accepts_def word_less_nat_alt n split: option.splits)
  have al: "alloc_len P name (word_of_nat (length body)) = Inr (length body)"
    using assms(2) by (auto simp: accepts_def alloc_len_def n split: option.splits)
  have "frame_flags op qos \<noteq> 0" using assms(1) by (simp add: frame_flags_zero)
  with lim al show ?thesis
    by (simp add: read_client_frame_def 9 nth_append flags_op_frame_flags flags_qos_frame_flags)
qed

lemma ipc_frames:
  "fst (prepare_frame_buf op qos cl) @ le32 (word_of_nat (length body)) @ body =
     client_frame (i_frame_id (snd (prepare_frame_buf op qos cl))) op qos body"
  by (simp add: prepare_frame_buf_def client_frame_def Let_def)

text \<open>What each kind of completed send adds to the bytes written.\<close>

definition sends :: "FrameOp \<Rightarrow> QoS \<Rightarrow> bytes \<Rightarrow> (ipc_client, error, ticket option) act \<Rightarrow> bool" where
  "sends op qos body m \<longleftrightarrow> (\<forall>cl. \<exists>r cl'. m cl = (Done r, cl') \<and>
     i_frame_id cl' = increment_frame_id (i_frame_id cl) \<and>
     i_written cl' = i_written cl @ client_frame (i_frame_id cl') op qos body \<and>
     (needs_ack qos \<longleftrightarrow> r \<noteq> None) \<and>
     (\<forall>t. r = Some t \<longrightarrow> i_responses cl' = (i_responses cl)(i_frame_id cl' \<mapsto> t)))"

lemma sendsD:
  assumes "sends op qos body m"
  shows "\<exists>r cl'. m cl = (Done r, cl')"
    and "m cl = (Done r, cl') \<Longrightarrow> i_frame_id cl' = increment_frame_id (i_frame_id cl) \<and>
      i_written cl' = i_written cl @ client_frame (i_frame_id cl') op qos body"
proof -
  obtain r0 cl0 where *: "m cl = (Done r0, cl0)" "i_frame_id cl0 = increment_frame_id (i_frame_id cl)"
      "i_written cl0 = i_written cl @ client_frame (i_frame_id cl0) op qos body"
    using assms unfolding sends_def by blast
  from *(1) show "\<exists>r cl'. m cl = (Done r, cl')" by blast
  show "m cl = (Done r, cl') \<Longrightarrow> i_frame_id cl' = increment_frame_id (i_frame_id cl) \<and>
      i_written cl' = i_written cl @ client_frame (i_frame_id cl') op qos body"
    using * by simp
qed

lemma sends_simps:
  "sends op qos (as_bytes target @ [0] @ pl) (send_frame (Written, Written) target pl op qos)"
  "sends op qos (as_bytes target @ [0] @ header @ pl) (send_zc_frame (Written, Written) target header pl op qos)"
  "sends op qos (as_bytes target @ [0] @ as_bytes receiver @ [0] @ pl)
     (send_frame_receiver (Written, Written) target receiver pl op qos)"
  "sends op qos pl (send_frame_plain (Written, Written) pl op qos)"
  by (auto simp: sends_def send_frame_def send_zc_frame_def send_frame_receiver_def send_frame_plain_def
      send_frame_and_confirm_ok register_response_def prepare_frame_buf_def client_frame_def Let_def
      add.commute add.left_commute)

lemma parse_target_ok:
  assumes "str_ok t" and "nul_free t"
  shows "parse_target (as_bytes t @ 0 # rest) = Inr (t, length t + 1)"
  using assms
  by (simp add: parse_target_def numeral_2_eq_2 nul_free_def takeWhile_nul dropWhile_nul parse_str_as_bytes)

section \<open>Denied operations\<close>

lemma handle_frame_denied:
  assumes "parse_target buf = Inr (target, pos)"
    and "op = OpMessage \<and> \<not> p2p_allowed X (rp_aaa P) target \<or>
      op = OpBroadcast \<and> \<not> broadcast_allowed X (rp_aaa P) target \<or>
      op = OpPublishTopic \<and> \<not> publish_allowed X (rp_aaa P) target \<or>
      op = OpPublishTopicFor \<and> \<not> publish_allowed X (rp_aaa P) target \<and>
        (\<exists>receiver n. parse_target (drop pos buf) = Inr (receiver, n))"
  shows "handle_frame X P c op_id op qos len buf b = ack_if_needed X c op_id qos ERR_ACCESS b"
  using assms by (auto simp: handle_frame_def handle_targeted_def Let_def)

section \<open>Counting acknowledgements\<close>

context bounded_channel
begin

text \<open>Sending an acknowledgement to a client with room.\<close>

lemma send_ack_room:
  assumes "c < length (b_objs b)" and "has_room chq chcap chclosed (c_tx (obj b c))"
  shows "\<exists>b'. send_ack X c op_id code rt b = (Done (), b') \<and>
    chq (c_tx (obj b' c)) = chq (c_tx (obj b c)) @ [ack_frame op_id code rt] \<and>
    chcap (c_tx (obj b' c)) = chcap (c_tx (obj b c)) \<and> \<not> chclosed (c_tx (obj b' c)) \<and>
    length (b_objs b') = length (b_objs b) \<and>
    (\<forall>k. k \<noteq> c \<longrightarrow> c_tx (obj b' k) = c_tx (obj b k))"
proof -
  let ?b = "db_w 1 6 (client_w c 6 b)"
  have "\<not> ch_is_full X (c_tx (obj ?b c))" "c < length (b_objs ?b)"
    using assms by (simp_all add: has_room_def ch_is_full)
  from channel_send_room [OF this, of "ack_frame op_id code rt"] assms(2) show ?thesis
    by (auto simp: send_ack_def send_result_def offered_def send_frame_ok_def has_room_def)
qed

lemma ack_if_needed_room:
  assumes "c < length (b_objs b)" and "has_room chq chcap chclosed (c_tx (obj b c))"
  shows "\<exists>b'. ack_if_needed X c op_id qos code b = (Done (), b') \<and> same_registry b b' \<and>
    chq (c_tx (obj b' c)) = chq (c_tx (obj b c)) @ (if needs_ack qos then [ack_frame op_id code (is_realtime qos)] else []) \<and>
    (\<forall>k. k \<noteq> c \<longrightarrow> c_tx (obj b' k) = c_tx (obj b k))"
  using send_ack_room [OF assms, of op_id code "is_realtime qos"] ack_if_needed_registry [of b X c op_id qos code]
  by (auto simp: ack_if_needed_def split: if_splits)

text \<open>The denied topics of a subscription are acknowledged one by one.\<close>

lemma collect_topics_acks:
  assumes "\<forall>t \<in> set ts. str_ok t" and "needs_ack qos"
  shows "c < length (b_objs b) \<Longrightarrow> \<not> chclosed (c_tx (obj b c)) \<Longrightarrow>
    length (chq (c_tx (obj b c))) + length (filter (\<lambda>t. \<not> subscribe_allowed X aaa t) ts) < chcap (c_tx (obj b c)) \<Longrightarrow>
    \<exists>b'. collect_topics X aaa c op_id qos (map as_bytes ts) acc b =
        (Done (acc @ filter (subscribe_allowed X aaa) ts), b') \<and>
      chq (c_tx (obj b' c)) = chq (c_tx (obj b c)) @
        replicate (length (filter (\<lambda>t. \<not> subscribe_allowed X aaa t) ts))
          (ack_frame op_id ERR_ACCESS (is_realtime qos)) \<and>
      chcap (c_tx (obj b' c)) = chcap (c_tx (obj b c)) \<and> \<not> chclosed (c_tx (obj b' c)) \<and>
      length (b_objs b') = length (b_objs b)"
  using assms(1)
proof (induction ts arbitrary: acc b)
  case (Cons t ts)
  show ?case
  proof (cases "subscribe_allowed X aaa t")
    case True
    then show ?thesis
      using Cons.IH [of b "acc @ [t]"] Cons.prems by (simp add: parse_str_as_bytes del: ERR_ACCESS_def)
  next
    case False
    have "has_room chq chcap chclosed (c_tx (obj b c))"
      using Cons.prems False by (simp add: has_room_def)
    from send_ack_room [OF Cons.prems(1) this, of op_id ERR_ACCESS "is_realtime qos"] obtain b1 where
      b1: "send_ack X c op_id ERR_ACCESS (is_realtime qos) b = (Done (), b1)"
        "chq (c_tx (obj b1 c)) = chq (c_tx (obj b c)) @ [ack_frame op_id ERR_ACCESS (is_realtime qos)]"
        "chcap (c_tx (obj b1 c)) = chcap (c_tx (obj b c))" "\<not> chclosed (c_tx (obj b1 c))"
        "length (b_objs b1) = length (b_objs b)" by blast
    have "collect_topics X aaa c op_id qos (map as_bytes (t # ts)) acc b =
        collect_topics X aaa c op_id qos (map as_bytes ts) acc b1"
      using False Cons.prems assms(2) b1(1)
      by (simp add: parse_str_as_bytes act_then_def ack_if_needed_def del: ERR_ACCESS_def)
    with Cons.IH [of b1 acc] Cons.prems False b1 show ?thesis
      by (simp del: ERR_ACCESS_def)
  qed
qed simp

end

end
