(* ===== verification/Bus_Peer.thy ===== *)
theory Bus_Peer
  imports Bus_Reader_Inv
begin

text \<open>
  A connection of the broker from the first byte to the last (\<open>handle_peer\<close> of \<open>src/src/broker.rs\<close>):
  the greeting, the name of the client, access control, registration, the session, and the
  unregistration at its end.
\<close>

section \<open>The greeting\<close>

text \<open>The state is the list of writes made; \<open>wres k\<close> is how the \<open>k\<close>-th one ends.\<close>

definition write_and_flush :: "(nat \<Rightarrow> write_outcome) \<Rightarrow> bytes \<Rightarrow> (bytes list, error, unit) act" where
  "write_and_flush wres buf out =
     (case wres (length out) of
        Written \<Rightarrow> (Done (), out @ [buf])
      | WriteErr k \<Rightarrow> (Bail (err_from_io k), out)
      | WriteElapsed \<Rightarrow> (Bail err_timeout, out)
      | WriteCancelled \<Rightarrow> (Pending, out))"

definition read_timed :: "nat \<Rightarrow> stream \<Rightarrow> (bytes list, error, bytes \<times> stream) act" where
  "read_timed n s out =
     (case read_exact n s of
        Got buf s' \<Rightarrow> (Done (buf, s'), out)
      | ReadElapsed \<Rightarrow> (Bail err_timeout, out)
      | ReadErr k \<Rightarrow> (Bail (err_from_io k), out))"

text \<open>Write the response code, then return the error.\<close>

definition refuse :: "(nat \<Rightarrow> write_outcome) \<Rightarrow> u8 \<Rightarrow> error \<Rightarrow> (bytes list, error, 'a) act" where
  "refuse wres code e = act_then (write_and_flush wres [code]) (\<lambda>_ out. (Bail e, out))"

definition peer_hello :: "(nat \<Rightarrow> write_outcome) \<Rightarrow> stream \<Rightarrow> (bytes list, error, string \<times> stream) act" where
  "peer_hello wres s =
     act_then (write_and_flush wres (GREETINGS @ le16 PROTOCOL_VERSION)) (\<lambda>_.
     act_then (read_timed 3 s) (\<lambda>(buf, s1).
       if buf ! 0 \<noteq> GREETINGS ! 0
       then refuse wres ERR_NOT_SUPPORTED (err_not_supported [Lit ''invalid protocol''])
       else if of_le16 (take 2 (drop 1 buf)) \<noteq> PROTOCOL_VERSION
       then refuse wres ERR_NOT_SUPPORTED (err_not_supported [Lit ''unsupported protocol version''])
       else act_then (write_and_flush wres [RESPONSE_OK]) (\<lambda>_.
            act_then (read_timed 2 s1) (\<lambda>(buf, s2).
            act_then (read_timed (unat (of_le16 buf)) s2) (\<lambda>(buf, s3) out.
              case parse_str buf of
                Inl e \<Rightarrow> (Bail e, out)
              | Inr client_name \<Rightarrow>
                  if client_name = [] \<or> hd client_name = CHR ''.''
                  then refuse wres ERR_DATA (err_data [Lit ''Invalid client name: '', Lit client_name]) out
                  else (Done (client_name, s3), out))))))"

section \<open>Access control and registration\<close>

datatype client_ip = NoIp | Addr ip_addr

definition peer_aaa ::
  "('sm, 'bm, 'am, 'ch) ctx \<Rightarrow> (nat \<Rightarrow> write_outcome) \<Rightarrow> (string \<rightharpoonup> 'am client_aaa) option \<Rightarrow> client_ip
     \<Rightarrow> (ip_addr \<Rightarrow> string) \<Rightarrow> string \<Rightarrow> (bytes list, error, 'am client_aaa option) act" where
  "peer_aaa X wres aaa_map ip show_ip client_name out =
     (case aaa_map of
        None \<Rightarrow> (Done None, out)
      | Some m \<Rightarrow>
          (case m (primary_of client_name) of
             Some a \<Rightarrow>
               (case ip of
                  Addr addr \<Rightarrow>
                    if \<not> connect_allowed X a addr
                    then refuse wres ERR_ACCESS (err_access [Lit ''Client '', Lit client_name,
                           Lit '' is not allowed to connect from '', Lit (show_ip addr)]) out
                    else (Done (Some a), out)
                | NoIp \<Rightarrow> (Done (Some a), out))
           | None \<Rightarrow> refuse wres ERR_ACCESS (err_access [Lit ''Client not in AAA map: '', Lit client_name]) out))"

record ('am) peer_params =
  pp_timeout :: duration
  pp_payload_size_limit :: "u32 option"
  pp_aaa_map :: "(string \<rightharpoonup> 'am client_aaa) option"
  pp_ip :: client_ip
  pp_queue_size :: usize
  pp_kind :: client_kind
  pp_source :: "string option"
  pp_source_port :: "string option"
  pp_allocator :: "(usize \<times> (string \<Rightarrow> usize \<Rightarrow> usize option)) option"

text \<open>From here on the state is the broker and the writes made.\<close>

definition on_out :: "('o, error, 'a) act \<Rightarrow> ('b \<times> 'o, error, 'a) act" where
  "on_out m s = (case m (snd s) of (r, out) \<Rightarrow> (r, (fst s, out)))"

definition on_broker :: "('b, error, 'a) act \<Rightarrow> ('b \<times> 'o, error, 'a) act" where
  "on_broker m s = (case m (fst s) of (r, b) \<Rightarrow> (r, (b, snd s)))"

text \<open>\<open>if let Err(e) = db.register_client(..).await { write(e.kind); return Err(e) } write(OK)\<close>\<close>

definition peer_register ::
  "('sm, 'bm, 'am, 'ch) ctx \<Rightarrow> (nat \<Rightarrow> write_outcome) \<Rightarrow> 'am peer_params \<Rightarrow> string
     \<Rightarrow> (('sm, 'bm, 'am, 'ch) broker \<times> bytes list, error, cid) act" where
  "peer_register X wres PP client_name s =
     (let (client, b1) = alloc (bus_client_new X client_name (primary_of client_name) (pp_queue_size PP)
                              (pp_kind PP) (pp_source PP) (pp_source_port PP)) (fst s)
      in case register_client X client b1 of
           (Bail e, b2) \<Rightarrow> on_out (refuse wres (kind_code (e_kind e)) e) (b2, snd s)
         | (Pending, b2) \<Rightarrow> (Pending, (b2, snd s))
         | (Done _, b2) \<Rightarrow>
             act_then (on_out (write_and_flush wres [RESPONSE_OK])) (\<lambda>_ s'. (Done client, s')) (b2, snd s))"

section \<open>The session and its end\<close>

datatype session_end = ReaderEnd "error + unit" | WriterEnd "error + unit" | PingerEnd "error + unit" | Disconnected

definition format_result :: "string \<Rightarrow> error + unit \<Rightarrow> error + unit" where
  "format_result client_name r =
     (case r of
        Inl e \<Rightarrow> Inl (e\<lparr>e_message := Some (case e_message e of
                   Some msg \<Rightarrow> msg @ [Lit '' '', Lit ''['', Lit client_name, Lit '']'']
                 | None \<Rightarrow> [Lit ''['', Lit client_name, Lit '']''])\<rparr>)
      | Inr _ \<Rightarrow> Inr ())"

definition session_result :: "string \<Rightarrow> session_end \<Rightarrow> error + unit" where
  "session_result client_name e =
     (case e of
        ReaderEnd r \<Rightarrow> format_result client_name r
      | WriterEnd r \<Rightarrow> format_result client_name r
      | PingerEnd r \<Rightarrow> format_result client_name r
      | Disconnected \<Rightarrow> Inr ())"

definition finish_peer ::
  "('sm, 'bm, 'am, 'ch) ctx \<Rightarrow> cid \<Rightarrow> string \<Rightarrow> session_end \<Rightarrow> ('sm, 'bm, 'am, 'ch, unit) bact" where
  "finish_peer X client client_name e =
     act_then (unregister_client X client)
       (\<lambda>_ b. case session_result client_name e of Inl err \<Rightarrow> (Bail err, b) | Inr _ \<Rightarrow> (Done (), b))"

text \<open>
  \<open>session\<close> is the run of the reader, the writer and the pinger of the client, interleaved with the other
  tasks, up to the first of them that ends: which one it was, and the broker then.
\<close>

definition handle_peer ::
  "('sm, 'bm, 'am, 'ch) ctx \<Rightarrow> (nat \<Rightarrow> write_outcome) \<Rightarrow> (ip_addr \<Rightarrow> string) \<Rightarrow> 'am peer_params
     \<Rightarrow> (cid \<Rightarrow> string \<Rightarrow> 'am reader_params \<Rightarrow> stream \<Rightarrow> ('sm, 'bm, 'am, 'ch) broker
           \<Rightarrow> session_end \<times> ('sm, 'bm, 'am, 'ch) broker)
     \<Rightarrow> stream \<Rightarrow> (('sm, 'bm, 'am, 'ch) broker \<times> bytes list, error, unit) act" where
  "handle_peer X wres show_ip PP session s =
     act_then (on_out (peer_hello wres s)) (\<lambda>(client_name, s1).
     act_then (on_out (peer_aaa X wres (pp_aaa_map PP) (pp_ip PP) show_ip client_name)) (\<lambda>aaa.
     act_then (peer_register X wres PP client_name) (\<lambda>client st.
       let P = \<lparr>rp_timeout = pp_timeout PP, rp_payload_size_limit = pp_payload_size_limit PP,
                rp_aaa = aaa, rp_allocator = pp_allocator PP\<rparr>;
           (e, b) = session client client_name P s1 (fst st)
       in on_broker (finish_peer X client client_name e) (b, snd st))))"

section \<open>The handshake\<close>

lemma peer_hello_accepts:
  assumes "str_ok name" and "name \<noteq> []" and "hd name \<noteq> CHR ''.''" and "length name \<le> 65535"
    and "\<And>k. wres k = Written"
  shows "peer_hello wres (feed (GREETINGS @ le16 PROTOCOL_VERSION @ le16 (word_of_nat (length name)) @ as_bytes name) s) [] =
    (Done (name, s), [GREETINGS @ le16 PROTOCOL_VERSION, [RESPONSE_OK]])"
proof -
  let ?g = "GREETINGS @ le16 PROTOCOL_VERSION"
  let ?n = "le16 (word_of_nat (length name)) @ as_bytes name"
  have 3: "read_exact 3 (feed (GREETINGS @ le16 PROTOCOL_VERSION @ ?n) s) = Got ?g (feed ?n s)"
    using read_exact_feed_append [of ?g 3 ?n s] by (simp add: GREETINGS_def)
  have 2: "read_exact 2 (feed ?n s) = Got (le16 (word_of_nat (length name))) (feed (as_bytes name) s)"
    by (rule read_exact_feed_append) simp
  have u: "unat (word_of_nat (length name) :: u16) = length name"
    using assms(4) by (intro unat_of_nat_u16) simp
  have "of_le16 (take 2 (drop 1 ?g)) = PROTOCOL_VERSION"
    by (simp add: GREETINGS_def of_le16_def le16_def)
  with assms 2 3 u show ?thesis
    by (simp add: peer_hello_def write_and_flush_def read_timed_def act_then_def parse_str_as_bytes
        nth_append GREETINGS_def)
qed

lemma chat_accepts:
  assumes "length name \<le> 65535"
  shows "chat (\<lambda>_. None) name (feed (GREETINGS @ le16 PROTOCOL_VERSION @ [RESPONSE_OK] @ [RESPONSE_OK]) s) =
    (Inr s, GREETINGS @ le16 PROTOCOL_VERSION @ le16 (word_of_nat (length name)) @ as_bytes name)"
proof -
  let ?g = "GREETINGS @ le16 PROTOCOL_VERSION"
  have 3: "read_exact 3 (feed (?g @ [RESPONSE_OK] @ [RESPONSE_OK]) s) = Got ?g (feed ([RESPONSE_OK] @ [RESPONSE_OK]) s)"
    by (rule read_exact_feed_append) (simp add: GREETINGS_def)
  have 1: "read_exact (Suc 0) (feed [1, 1] s) = Got [1] (feed [1] s)"
    using read_exact_feed_append [of "[1]" "Suc 0" "[1]" s] by simp
  have "of_le16 (take 2 (drop 1 ?g)) = PROTOCOL_VERSION"
    by (simp add: GREETINGS_def of_le16_def le16_def)
  with 1 3 assms show ?thesis
    by (simp add: chat_def nth_append GREETINGS_def Let_def)
qed

section \<open>After the session\<close>

lemma alloc_simps:
  "fst (alloc cl b) = length (b_objs b)" "b_clients (snd (alloc cl b)) = b_clients b"
  "obj (snd (alloc cl b)) (length (b_objs b)) = cl" "length (b_objs (snd (alloc cl b))) = Suc (length (b_objs b))"
  by (simp_all add: alloc_def)

context broker_libs
begin

lemma drop_client_not_live:
  assumes "dbi N b"
  shows "\<not> live (drop_client X c b) c"
proof (cases "live b c")
  case True
  then have "c_name (obj (drop_client X c b) c) = c_name (obj b c)" by simp
  moreover have "b_clients (drop_client X c b) (c_name (obj b c)) = None"
    using drop_client_clients [OF assms True] by (simp add: removed_by_def)
  moreover have "clients_ok (drop_client X c b)"
    using drop_client_inv [OF assms] by (simp add: db_inv_def db_inv_ex_def)
  ultimately show ?thesis using clients_okD by (metis option.distinct(1))
next
  case False
  then show ?thesis using live_drop_client [OF assms] by blast
qed

lemma unregister_client_not_live:
  assumes "dbi N b"
  shows "dbi N (snd (unregister_client X c b)) \<and> \<not> live (snd (unregister_client X c b)) c"
proof -
  have d: "dbi N (drop_client X c b) \<and> \<not> live (drop_client X c b) c"
    using assms drop_client_inv drop_client_not_live by blast
  with gone.announce_keeps [of N c] show ?thesis
    by (simp add: unregister_client_def unregister_client_with_def Let_def ann_keeps_def)
qed

lemma finish_peer_not_live:
  assumes "dbi N b"
  shows "dbi N (snd (finish_peer X c name e b)) \<and> \<not> live (snd (finish_peer X c name e b)) c"
  using unregister_client_not_live [OF assms, of c]
  by (auto simp: finish_peer_def act_then_def split: prod.splits eff.splits sum.splits)

lemma peer_register_inv:
  assumes "dbi N (fst s)" and "name \<in> N"
  shows "dbi N (fst (snd (peer_register X wres PP name s)))"
proof -
  let ?cl = "bus_client_new X name (primary_of name) (pp_queue_size PP) (pp_kind PP) (pp_source PP) (pp_source_port PP)"
  let ?b = "snd (alloc ?cl (fst s))"
  have "dbi N ?b"
    by (rule alloc_inv [OF assms(1) bus_client_new_wf]) (simp_all add: bus_client_new_def assms(2))
  then have "dbi N (snd (register_client X (length (b_objs (fst s))) ?b))"
    by (rule register_client_inv) (simp_all add: alloc_simps bus_client_new_def)
  then show ?thesis
    by (cases "register_client X (length (b_objs (fst s))) ?b")
       (auto simp: peer_register_def alloc_simps Let_def on_out_def act_then_def prod.case_eq_if
         split: eff.splits)
qed

end

end
