(* ===== verification/Bus_Traffic.thy ===== *)
theory Bus_Traffic
  imports Bus_Peer
begin

text \<open>
  What goes through the broker: the frames in the queues of the clients and the counters of what was
  received.  The locale \<open>traffic_invariant\<close> proves once that every operation keeps a predicate on queues and
  counters that the primitive changes keep; it is used for the soundness of the queued frames and for the
  conservation of the counters.
\<close>

section \<open>The traffic of a broker\<close>

definition traffic_obj :: "('am, 'ch) bus_client \<Rightarrow> string \<times> 'ch \<times> u64 \<times> u64" where
  "traffic_obj cl = (c_name cl, c_tx cl, c_r_frames cl, c_r_bytes cl)"

definition traffic ::
  "('sm, 'bm, 'am, 'ch) broker \<Rightarrow> (string \<times> 'ch \<times> u64 \<times> u64) list \<times> cid option \<times> u64 \<times> u64" where
  "traffic b = (map traffic_obj (b_objs b), b_rpc_client b, b_r_frames b, b_r_bytes b)"

lemma traffic_upd_obj:
  assumes "\<And>cl. traffic_obj (f cl) = traffic_obj cl"
  shows "traffic (upd_obj c f b) = traffic b"
proof -
  have "map traffic_obj ((b_objs b)[c := f (obj b c)]) = map traffic_obj (b_objs b)"
    by (rule nth_equalityI) (auto simp: nth_upd assms)
  then show ?thesis by (simp add: traffic_def upd_obj_def)
qed

lemma traffic_objD:
  assumes "traffic b = traffic b'"
  shows "length (b_objs b) = length (b_objs b')" "b_rpc_client b = b_rpc_client b'"
    "b_r_frames b = b_r_frames b'" "b_r_bytes b = b_r_bytes b'"
    "c < length (b_objs b) \<Longrightarrow> c_name (obj b c) = c_name (obj b' c) \<and> c_tx (obj b c) = c_tx (obj b' c)"
    "map c_r_frames (b_objs b) = map c_r_frames (b_objs b')" "map c_r_bytes (b_objs b) = map c_r_bytes (b_objs b')"
proof -
  have m: "map traffic_obj (b_objs b) = map traffic_obj (b_objs b')" using assms by (simp add: traffic_def)
  show l: "length (b_objs b) = length (b_objs b')" using map_eq_imp_length_eq [OF m] .
  show "b_rpc_client b = b_rpc_client b'" "b_r_frames b = b_r_frames b'" "b_r_bytes b = b_r_bytes b'"
    using assms by (simp_all add: traffic_def)
  have n: "traffic_obj (obj b c) = traffic_obj (obj b' c)" if "c < length (b_objs b)" for c
    using arg_cong [OF m, of "\<lambda>xs. xs ! c"] that l by simp
  then show "c < length (b_objs b) \<Longrightarrow> c_name (obj b c) = c_name (obj b' c) \<and> c_tx (obj b c) = c_tx (obj b' c)"
    by (simp add: traffic_obj_def)
  show "map c_r_frames (b_objs b) = map c_r_frames (b_objs b')" "map c_r_bytes (b_objs b) = map c_r_bytes (b_objs b')"
    using n l by (auto intro!: nth_equalityI simp: traffic_obj_def)
qed

lemma traffic_db_frame:
  assumes "db_frame b b'"
  shows "traffic b' = traffic b"
proof -
  have "map traffic_obj (b_objs b') = map traffic_obj (b_objs b)"
  proof (rule nth_equalityI)
    fix i assume "i < length (map traffic_obj (b_objs b'))"
    then have i: "i < length (b_objs b)" "i < length (b_objs b')" using db_frame_length [OF assms] by simp_all
    have "traffic_obj (obj b' i) = traffic_obj (obj b i)"
      using db_frame_obj [OF assms i(1)] by (cases "obj b i"; cases "obj b' i") (simp add: obj_frame_def traffic_obj_def)
    then show "map traffic_obj (b_objs b') ! i = map traffic_obj (b_objs b) ! i" using i by simp
  qed (simp add: db_frame_length [OF assms])
  then show ?thesis using assms by (cases b; cases b') (simp add: traffic_def db_frame_def)
qed

lemma traffic_maps [simp]:
  "traffic (b\<lparr>b_subscriptions := m\<rparr>) = traffic b" "traffic (b\<lparr>b_broadcasts := m'\<rparr>) = traffic b"
  "traffic (b\<lparr>b_clients := cs\<rparr>) = traffic b" "traffic (b\<lparr>b_rpc_locked := r\<rparr>) = traffic b"
  "traffic (b\<lparr>b_core_locked := l\<rparr>) = traffic b" "traffic (db_w n len b) = traffic b"
  "traffic (b\<lparr>b_force_register := fr\<rparr>) = traffic b"
  by (simp_all add: traffic_def db_w_def)

lemma traffic_client_w [simp]: "traffic (client_w c len b) = traffic b"
  unfolding client_w_def by (rule traffic_upd_obj) (simp add: traffic_obj_def)

lemma traffic_drop_client [simp]: "traffic (drop_client X c b) = traffic b"
  by (rule traffic_db_frame [OF db_frame_drop(1)])

lemma traffic_trigger [simp]: "traffic (trigger c b) = traffic b"
  by (rule traffic_db_frame [OF db_frame_trigger])

lemma traffic_insert_client [simp]: "traffic (snd (insert_client X c b)) = traffic b"
  by (simp add: insert_client_def Let_def traffic_upd_obj traffic_obj_def)

lemma traffic_register_entry [simp]: "traffic (snd (register_entry X c b)) = traffic b"
proof -
  obtain r b1 where i: "insert_client X c b = (r, b1)" by force
  with traffic_insert_client [of X c b] have "traffic b1 = traffic b" by simp
  then show ?thesis by (auto simp: register_entry_def Let_def i split: sum.splits option.splits)
qed

lemma traffic_excl [simp]:
  "traffic (upd_obj c (excl_insert X t) b) = traffic b" "traffic (upd_obj c (excl_remove X t) b) = traffic b"
  "traffic (upd_obj c (excl_settle X) b) = traffic b"
  "traffic (upd_obj c (\<lambda>cl. cl\<lparr>c_has_exclusions := h\<rparr>) b) = traffic b"
  by (simp_all add: traffic_upd_obj traffic_obj_def excl_insert_def excl_remove_def excl_settle_def)

lemma traffic_obj_fold_excl:
  "traffic_obj (fold (excl_insert X) ts cl) = traffic_obj cl" "traffic_obj (fold (excl_remove X) ts cl) = traffic_obj cl"
  by (induction ts arbitrary: cl) (simp_all add: traffic_obj_def excl_insert_def excl_remove_def)

lemma traffic_obj_settle: "traffic_obj (excl_settle X cl) = traffic_obj cl"
  by (simp add: excl_settle_def traffic_obj_def)

lemma traffic_exclude_bulk [simp]:
  "traffic (snd (client_exclude_bulk X k topics qos b)) = traffic b"
  "traffic (snd (client_unexclude_bulk X k topics qos b)) = traffic b"
  unfolding client_exclude_bulk_def client_unexclude_bulk_def snd_conv
  by (rule traffic_upd_obj, simp add: traffic_obj_fold_excl, simp add: traffic_obj_def)
     (rule traffic_upd_obj, simp add: traffic_obj_settle traffic_obj_fold_excl)

lemma traffic_subscribe_bulk [simp]:
  "traffic (snd (client_subscribe_bulk X k topics qos b)) = traffic b"
  "traffic (snd (client_unsubscribe_bulk X k topics qos b)) = traffic b"
  by (induction topics arbitrary: b) (simp_all add: Let_def prod.case_eq_if)

lemma traffic_subscribe_all [simp]: "traffic (subscribe_all X c topics b) = traffic b"
  by (simp add: subscribe_all_def)

lemma traffic_force_disconnect [simp]: "traffic (snd (force_disconnect name b)) = traffic b"
  by (auto simp: force_disconnect_def trigger_disconnect_def split: option.splits)

section \<open>Frames that can be written\<close>

text \<open>
  A frame the broker may put into a queue: a ping, an acknowledgement of an operation, or a routed frame
  that has the name of a client as sender, a topic exactly if it is a publication, and a payload.
\<close>

definition sound_frame :: "string set \<Rightarrow> frame \<Rightarrow> bool" where
  "sound_frame N f \<longleftrightarrow>
     f = new_nop \<or> (\<exists>w code rt. f = ack_frame (le32 w) code rt) \<or>
     f_kind f \<in> {KMessage, KBroadcast, KPublish} \<and> (\<exists>s \<in> N. f_sender f = Some s) \<and>
     (f_topic f \<noteq> None \<longleftrightarrow> f_kind f = KPublish) \<and> f_payload_pos f \<le> length (f_buf f)"

lemma sound_frameI:
  "s \<in> N \<Longrightarrow> pos \<le> length buf \<Longrightarrow> sound_frame N (frame_new KMessage (Some s) None h buf pos rt)"
  "s \<in> N \<Longrightarrow> pos \<le> length buf \<Longrightarrow> sound_frame N (frame_new KBroadcast (Some s) None h buf pos rt)"
  "s \<in> N \<Longrightarrow> pos \<le> length buf \<Longrightarrow> sound_frame N (frame_new KPublish (Some s) (Some t) h buf pos rt)"
  "sound_frame N new_nop" "sound_frame N (ack_frame (le32 w) code rt)"
  by (auto simp: sound_frame_def frame_new_def)

lemma sound_frame_writes: "sound_frame N f \<Longrightarrow> \<not> snd (frame_writes f)"
  by (auto simp: sound_frame_def frame_writes_def frame_payload_def new_nop_def ack_frame_def frame_new_def Let_def)

lemma handle_writer_no_panic:
  assumes "\<forall>f \<in> set fs. \<not> snd (frame_writes f)" and "\<forall>k. wres k \<noteq> WriteCancelled"
  shows "fst (handle_writer wres fs out) \<noteq> Pending"
proof -
  have w: "fst (write_list wres ws out) \<noteq> Pending" for ws out
    using assms(2) by (induction ws arbitrary: out) (auto split: write_outcome.splits)
  show ?thesis
    using assms(1)
  proof (induction fs arbitrary: out)
    case (Cons f fs)
    obtain ws where f: "frame_writes f = (ws, False)" using Cons.prems by (cases "frame_writes f") auto
    obtain r out' where l: "write_list wres ws out = (r, out')" by force
    with w [of ws out] Cons f show ?case by (cases r) (auto simp: act_then_def)
  qed simp
qed

lemma parse_target_length: "parse_target buf = Inr (t, pos) \<Longrightarrow> pos \<le> length buf"
proof -
  assume "parse_target buf = Inr (t, pos)"
  then obtain rest where "splitn0 2 buf = rest" "rest \<noteq> []" "tl rest \<noteq> []" "pos = length (hd rest) + 1"
    by (auto simp: parse_target_def split: list.splits sum.splits if_splits)
  then show "pos \<le> length buf" using splitn0_2_length [of buf "hd rest" "tl rest"] by simp
qed

section \<open>Operations that keep a property of the traffic\<close>

text \<open>
  \<open>Q\<close> speaks about queues and received counters only, knows that the clients have names in \<open>N\<close> and that the
  core RPC client exists, and is kept by the primitive changes.
\<close>

locale traffic_invariant =
  fixes X :: "('sm, 'bm, 'am, 'ch) ctx" and N :: "string set"
    and Q :: "('sm, 'bm, 'am, 'ch) broker \<Rightarrow> bool"
  assumes Q_traffic: "traffic b = traffic b' \<Longrightarrow> Q b \<Longrightarrow> Q b'"
    and Q_names: "Q b \<Longrightarrow> c < length (b_objs b) \<Longrightarrow> c_name (obj b c) \<in> N"
    and Q_core: "Q b \<Longrightarrow> b_rpc_client b = Some c \<Longrightarrow> c < length (b_objs b)"
    and Q_count: "Q b \<Longrightarrow> c < length (b_objs b) \<Longrightarrow> Q (count_r c len b)"
    and Q_send: "Q b \<Longrightarrow> sound_frame N f \<Longrightarrow> Q (snd (channel_send X c f b))"
    and Q_close: "Q b \<Longrightarrow> Q (upd_obj c (\<lambda>cl. cl\<lparr>c_tx := ch_close X (c_tx cl)\<rparr>) b)"
    and Q_drain: "Q b \<Longrightarrow> Q (upd_obj c (\<lambda>cl. cl\<lparr>c_tx := ch_drain X n (c_tx cl)\<rparr>) b)"
    and Q_alloc: "Q b \<Longrightarrow> name \<in> N \<Longrightarrow> 0 < n \<Longrightarrow> Q (snd (alloc (bus_client_new X name p n kind src port) b))"
    and Q_set_core: "Q b \<Longrightarrow> c < length (b_objs b) \<Longrightarrow> Q (b\<lparr>b_rpc_client := Some c\<rparr>)"
begin

lemma Q_eq: "traffic b' = traffic b \<Longrightarrow> Q b' \<longleftrightarrow> Q b"
  using Q_traffic by metis

lemmas Q_same [simp] = traffic_maps [THEN Q_eq] traffic_client_w [THEN Q_eq] traffic_drop_client [THEN Q_eq]
  traffic_trigger [THEN Q_eq] traffic_excl [THEN Q_eq] traffic_subscribe_all [THEN Q_eq]
  traffic_register_entry [THEN Q_eq] traffic_exclude_bulk [THEN Q_eq] traffic_subscribe_bulk [THEN Q_eq]
  traffic_force_disconnect [THEN Q_eq]

lemma Q_locks [simp]: "Q (b\<lparr>b_rpc_locked := r, b_core_locked := l\<rparr>) \<longleftrightarrow> Q b"
  by (rule Q_eq) (simp add: traffic_def)

lemma unregister_client_with_Q:
  "ann_keeps Q ann \<Longrightarrow> Q b \<Longrightarrow> Q (snd (unregister_client_with X ann c b))"
  by (simp add: unregister_client_with_def Let_def ann_keeps_def)

lemma safe_send_frame_Q:
  assumes ann: "ann_keeps Q ann" and f: "sound_frame N f" and b: "Q b"
  shows "Q (snd (safe_send_frame X ann timeout c f b))"
proof -
  obtain r b' where s: "channel_send X c f b = (r, b')" by (cases "channel_send X c f b")
  then have "Q b'" using Q_send [OF b f, of c] by simp
  moreover have "Q (snd (act_then (unregister_client_with X ann c) (\<lambda>_ b'.
      (Done (Inl err_not_delivered), upd_obj c (\<lambda>cl. cl\<lparr>c_tx := ch_close X (c_tx cl)\<rparr>) b')) b))"
    using b by (rule act_then_keeps) (simp_all add: unregister_client_with_Q [OF ann] Q_close)
  ultimately show ?thesis by (auto simp: safe_send_frame_def s split: option.splits)
qed

lemma deliver_Q:
  assumes "ann_keeps Q ann" and "sound_frame N f"
  shows "Q b \<Longrightarrow> Q (snd (deliver X ann timeout len f subs b))"
proof (induction subs arbitrary: b)
  case (Cons sub subs)
  have "Q (client_w (snd sub) len b)" using Cons.prems by simp
  then show ?case
    by (simp, elim act_then_keeps) (simp_all add: safe_send_frame_Q [OF assms] Cons.IH)
qed simp

lemma send_msg_Q:
  assumes "ann_keeps Q ann" and "Q b" and "client < length (b_objs b)" and "pos \<le> length buf"
  shows "Q (snd (send_msg X ann client target header buf pos len rt timeout b))"
  using assms
  by (auto simp: send_msg_def Let_def Q_count Q_names sound_frameI intro!: safe_send_frame_Q split: option.splits)

lemma send_broadcast_Q:
  assumes "ann_keeps Q ann" and "Q b" and "client < length (b_objs b)" and "pos \<le> length buf"
  shows "Q (snd (send_broadcast X ann client target header buf pos len rt timeout b))"
  using assms by (auto simp: send_broadcast_def Let_def Q_count Q_names sound_frameI intro!: deliver_Q)

lemma publish_where_Q:
  assumes "ann_keeps Q ann" and "Q b" and "client < length (b_objs b)" and "pos \<le> length buf"
  shows "Q (snd (publish_where keep X ann client topic header buf pos len rt timeout b))"
  using assms by (auto simp: publish_where_def Let_def Q_count Q_names sound_frameI intro!: deliver_Q)

lemma unlock_core_Q: "Q (snd r) \<Longrightarrow> Q (snd (unlock_core r))"
  by (auto simp: unlock_core_def split: prod.splits eff.splits)

lemma announce_fuel_Q: "ann_keeps Q (announce_fuel X n)"
proof (induction n)
  case (Suc n)
  have "Q (snd (announce_fuel X (Suc n) ev b))" if "Q b" for ev b
    using that Suc Q_core [OF that]
    by (auto simp: Let_def publish_def intro!: unlock_core_Q publish_where_Q split: option.splits sum.splits)
  then show ?case by (simp add: ann_keeps_def del: announce_fuel.simps)
qed (simp add: ann_keeps_def)

lemma announce_Q: "ann_keeps Q (announce X)"
  by (simp add: announce_def announce_fuel_Q del: One_nat_def)

lemma announce_QD: "Q b \<Longrightarrow> Q (snd (announce X ev b))"
  using announce_Q by (simp add: ann_keeps_def)

lemmas routes_Q = send_msg_Q [OF announce_Q] send_broadcast_Q [OF announce_Q]
  publish_where_Q [OF announce_Q, where keep = "not_excluded X topic" and topic = topic for topic, folded publish_def]
  publish_where_Q [OF announce_Q, where keep = "\<lambda>sub. c_primary_name sub = receiver \<and> not_excluded X topic sub"
    and topic = topic for topic receiver, folded publish_for_def]

lemma unregister_client_Q: "Q b \<Longrightarrow> Q (snd (unregister_client X c b))"
  by (simp add: unregister_client_def unregister_client_with_Q announce_Q)

lemma register_client_Q: "Q b \<Longrightarrow> Q (snd (register_client X c b))"
proof -
  assume b: "Q b"
  obtain r b1 where e: "register_entry X c b = (r, b1)" by force
  with traffic_register_entry [of X c b] b have "Q b1" using Q_traffic by (metis snd_conv)
  then show ?thesis by (auto simp: register_client_def e announce_QD split: sum.splits)
qed

text \<open>Registration of an internal client and of a connection.\<close>

lemma broker_register_client_Q:
  assumes "Q b" and "name \<in> N" and "0 < queue_size"
  shows "Q (snd (broker_register_client X queue_size name b))"
proof -
  let ?b = "snd (alloc (bus_client_new X name (primary_of name) queue_size Internal None None) b)"
  have "Q (snd (register_client X (length (b_objs b)) ?b))"
    using assms by (intro register_client_Q Q_alloc)
  then show ?thesis
    by (auto simp: broker_register_client_def alloc_simps act_then_def prod.case_eq_if split: eff.splits)
qed

lemma peer_register_Q:
  assumes "Q (fst s)" and "name \<in> N" and "0 < pp_queue_size PP"
  shows "Q (fst (snd (peer_register X wres PP name s)))"
proof -
  let ?cl = "bus_client_new X name (primary_of name) (pp_queue_size PP) (pp_kind PP) (pp_source PP) (pp_source_port PP)"
  let ?b = "snd (alloc ?cl (fst s))"
  have "Q (snd (register_client X (length (b_objs (fst s))) ?b))"
    using assms by (intro register_client_Q Q_alloc)
  then show ?thesis
    by (cases "register_client X (length (b_objs (fst s))) ?b")
       (auto simp: peer_register_def alloc_simps Let_def on_out_def act_then_def prod.case_eq_if
         split: eff.splits)
qed

text \<open>The reader.\<close>

lemma send_ack_Q: "Q b \<Longrightarrow> length op_id = 4 \<Longrightarrow> Q (snd (send_ack X c op_id code rt b))"
proof -
  assume b: "Q b" and i: "length op_id = 4"
  obtain x y z w where "op_id = [x, y, z, w]"
    using i by (auto simp: eval_nat_numeral length_Suc_conv)
  then have "op_id = le32 (of_le32 op_id)" by simp
  then have f: "sound_frame N (ack_frame op_id code rt)" using sound_frameI(5) by metis
  have "Q (db_w 1 6 (client_w c 6 b))" using b by simp
  from Q_send [OF this f, of c] show ?thesis
    by (cases "channel_send X c (ack_frame op_id code rt) (db_w 1 6 (client_w c 6 b))")
       (auto simp: send_ack_def split: option.splits sum.splits)
qed

lemma ack_if_needed_Q: "Q b \<Longrightarrow> length op_id = 4 \<Longrightarrow> Q (snd (ack_if_needed X c op_id qos code b))"
  by (simp add: ack_if_needed_def send_ack_Q)

lemma collect_topics_Q:
  assumes "length op_id = 4"
  shows "Q b \<Longrightarrow> Q (snd (collect_topics X aaa c op_id qos sp topics b))"
proof (induction sp arbitrary: topics b)
  case (Cons t sp)
  have "Q (snd (act_then (ack_if_needed X c op_id qos ERR_ACCESS)
      (\<lambda>_. collect_topics X aaa c op_id qos sp topics) b))"
    using Cons.prems by (rule act_then_keeps) (simp_all add: ack_if_needed_Q assms Cons.IH del: ERR_ACCESS_def)
  with Cons show ?case by (simp del: ERR_ACCESS_def split: sum.splits)
qed simp

lemma for_topics_Q:
  assumes "\<And>t b. Q b \<Longrightarrow> Q (f t b)"
  shows "Q b \<Longrightarrow> Q (snd (for_topics f sp b))"
  by (induction sp arbitrary: b) (simp_all add: assms split: sum.splits)

lemma handle_topics_Q:
  assumes b: "Q b" "c < length (b_objs b)" and i: "length op_id = 4"
  shows "Q (snd (handle_subscribe X aaa c op_id qos len buf b))" "Q (snd (handle_exclude X c op_id qos len buf b))"
    "Q (snd (handle_unexclude X c op_id qos len buf b))" "Q (snd (handle_unsubscribe X c op_id qos len buf b))"
proof -
  have r: "Q (count_r c (ucast len) b)" using b by (rule Q_count)
  show "Q (snd (handle_subscribe X aaa c op_id qos len buf b))"
    unfolding handle_subscribe_def using r
    by (rule act_then_keeps) (simp_all add: collect_topics_Q ack_if_needed_Q i)
  show "Q (snd (handle_exclude X c op_id qos len buf b))"
    unfolding handle_exclude_def using r
    by (rule act_then_keeps) (simp_all add: for_topics_Q ack_if_needed_Q i)
  show "Q (snd (handle_unexclude X c op_id qos len buf b))"
    unfolding handle_unexclude_def using r
    by (rule act_then_keeps) (simp_all add: for_topics_Q ack_if_needed_Q i)
  show "Q (snd (handle_unsubscribe X c op_id qos len buf b))"
    unfolding handle_unsubscribe_def using r
    by (rule act_then_keeps) (simp_all add: for_topics_Q ack_if_needed_Q i)
qed

lemma handle_targeted_Q:
  assumes b: "Q b" "c < length (b_objs b)" and i: "length op_id = 4"
  shows "Q (snd (handle_targeted X P c op_id op qos buf b))"
proof -
  have a: "Q (snd (act_then m (\<lambda>x. ack_if_needed X c op_id qos (code x)) b))"
    if "Q (snd (m b))" for m :: "('sm, 'bm, 'am, 'ch, 'x) bact" and code
    using that i by (cases "m b") (auto simp: act_then_def ack_if_needed_Q split: eff.splits)
  note rules = a b i ack_if_needed_Q routes_Q
  show ?thesis
    using parse_target_length [of buf] parse_target_length [of "drop pos buf" for pos]
    by (cases op) (fastforce simp: handle_targeted_def Let_def intro!: rules split: sum.splits)+
qed

lemma handle_frame_Q:
  assumes "Q b" "c < length (b_objs b)" and "length op_id = 4"
  shows "Q (snd (handle_frame X P c op_id op qos len buf b))"
  using handle_topics_Q [OF assms] handle_targeted_Q [OF assms] by (cases op) (simp_all add: handle_frame_def)

lemma pinger_turn_Q: "Q b \<Longrightarrow> Q (snd (pinger_turn X c b))"
  using Q_send [of b new_nop c] sound_frameI(4)
  by (cases "channel_send X c new_nop b") (auto simp: pinger_turn_def split: option.splits sum.splits)

text \<open>Internal clients.\<close>

lemma client_routes_Q:
  assumes "Q b" and "k_bus k < length (b_objs b)"
  shows "Q (snd (client_send X k target p qos b))" "Q (snd (client_zc_send X k target h p qos b))"
    "Q (snd (client_send_broadcast X k target p qos b))" "Q (snd (client_publish X k topic p qos b))"
    "Q (snd (client_publish_for X k topic receiver p qos b))"
proof -
  have a: "Q (snd (act_then m g b))"
    if "Q (snd (m b))" "\<And>x b. snd (g x b) = b" for m :: "('sm, 'bm, 'am, 'ch, 'x) bact" and g :: "'x \<Rightarrow> ('sm, 'bm, 'am, 'ch, confirm) bact"
    using that by (cases "m b") (auto simp: act_then_def split: eff.splits)
  have t: "snd (try_result qos r b) = b" for r b by (auto simp: try_result_def split: sum.splits)
  show "Q (snd (client_send X k target p qos b))" "Q (snd (client_zc_send X k target h p qos b))"
    "Q (snd (client_send_broadcast X k target p qos b))" "Q (snd (client_publish X k topic p qos b))"
    "Q (snd (client_publish_for X k topic receiver p qos b))"
    unfolding client_send_def client_zc_send_def client_send_broadcast_def client_publish_def client_publish_for_def
    by (rule a, use assms in \<open>auto intro!: routes_Q simp: t\<close>)+
qed

end

section \<open>Soundness of the queues\<close>

definition wiring :: "string set \<Rightarrow> ('sm, 'bm, 'am, 'ch) broker \<Rightarrow> bool" where
  "wiring N b \<longleftrightarrow>
     (\<forall>c < length (b_objs b). c_name (obj b c) \<in> N) \<and> (\<forall>k. b_rpc_client b = Some k \<longrightarrow> k < length (b_objs b))"

definition queues_sound :: "('ch \<Rightarrow> frame list) \<Rightarrow> string set \<Rightarrow> ('sm, 'bm, 'am, 'ch) broker \<Rightarrow> bool" where
  "queues_sound chq N b \<longleftrightarrow> wiring N b \<and>
     (\<forall>c < length (b_objs b). \<forall>f \<in> set (chq (c_tx (obj b c))). sound_frame N f)"

lemma wiring_traffic: "traffic b = traffic b' \<Longrightarrow> wiring N b \<Longrightarrow> wiring N b'"
  using traffic_objD [of b b'] by (auto simp: wiring_def)

lemma wiring_upd_obj:
  "(\<And>cl. c_name (f cl) = c_name cl) \<Longrightarrow> wiring N (upd_obj c f b) \<longleftrightarrow> wiring N b"
  by (auto simp: wiring_def upd_obj_def nth_upd)

lemma wiring_channel_send: "wiring N b \<Longrightarrow> wiring N (snd (channel_send X c f b))"
  by (auto simp: channel_send_def wiring_upd_obj split: send_poll.splits waited.splits)

lemma wiring_count_r: "wiring N (count_r c len b) \<longleftrightarrow> wiring N b"
proof -
  have "wiring N (count_r c len b) \<longleftrightarrow>
      wiring N (upd_obj c (\<lambda>cl. cl\<lparr>c_r_frames := c_r_frames cl + 1, c_r_bytes := c_r_bytes cl + len\<rparr>) b)"
    by (simp add: count_r_def wiring_def Let_def)
  then show ?thesis by (simp add: wiring_upd_obj)
qed

lemma wiring_alloc: "wiring N b \<Longrightarrow> c_name cl \<in> N \<Longrightarrow> wiring N (snd (alloc cl b))"
  by (auto simp: wiring_def alloc_def nth_append less_Suc_eq)

lemma wiring_core: "wiring N b \<Longrightarrow> c < length (b_objs b) \<Longrightarrow> wiring N (b\<lparr>b_rpc_client := Some c\<rparr>)"
  by (simp add: wiring_def)

context bounded_channel
begin

lemma queues_upd_tx:
  assumes "queues_sound chq N b" and "set (chq (g (obj b c))) \<subseteq> insert f (set (chq (c_tx (obj b c))))"
    and "sound_frame N f"
  shows "queues_sound chq N (upd_obj c (\<lambda>cl. cl\<lparr>c_tx := g cl\<rparr>) b)"
proof -
  have "\<forall>h \<in> set (chq (c_tx (obj (upd_obj c (\<lambda>cl. cl\<lparr>c_tx := g cl\<rparr>) b) k))). sound_frame N h"
    if "k < length (b_objs b)" for k
    using that assms by (auto simp: queues_sound_def upd_obj_def nth_upd)
  with assms(1) show ?thesis by (simp add: queues_sound_def wiring_upd_obj)
qed

lemma queues_channel_send:
  assumes q: "queues_sound chq N b" and f: "sound_frame N f"
  shows "queues_sound chq N (snd (channel_send X c f b))"
proof -
  have u: "queues_sound chq N (upd_obj c (\<lambda>cl. cl\<lparr>c_tx := ch'\<rparr>) b)"
    if "ch_send X f ch = Sent ch'" "set (chq ch) \<subseteq> set (chq (c_tx (obj b c)))" for ch ch'
    using that ch_send_Sent [of f ch ch'] by (intro queues_upd_tx [OF q _ f]) auto
  have d: "set (chq (ch_drain X n ch)) \<subseteq> set (chq ch)" for n ch by (simp add: ch_drain set_drop_subset)
  have k: "queues_sound chq N (upd_obj c (\<lambda>cl. cl\<lparr>c_tx := ch_close X (c_tx cl)\<rparr>) b)"
    by (rule queues_upd_tx [OF q _ f]) (auto simp: ch_close)
  show ?thesis
    using q u [OF _ subset_refl] u [OF _ d] k
    by (auto simp: channel_send_def split: send_poll.splits waited.splits)
qed

end

sublocale bounded_channel \<subseteq> queues: traffic_invariant X N "queues_sound chq N" for N
proof unfold_locales
  fix b b' :: "('sm, 'bm, 'am, 'ch) broker" and c len f n name p kind src port
  show "queues_sound chq N b'" if "traffic b = traffic b'" "queues_sound chq N b"
    using that wiring_traffic [of b b' N] traffic_objD [of b b'] by (auto simp: queues_sound_def)
  show "c_name (obj b c) \<in> N" if "queues_sound chq N b" "c < length (b_objs b)"
    using that by (simp add: queues_sound_def wiring_def)
  show "c < length (b_objs b)" if "queues_sound chq N b" "b_rpc_client b = Some c"
    using that by (simp add: queues_sound_def wiring_def)
  show "queues_sound chq N (count_r c len b)" if "queues_sound chq N b"
    using that by (auto simp: queues_sound_def wiring_count_r)
  show "queues_sound chq N (snd (channel_send X c f b))" if "queues_sound chq N b" "sound_frame N f"
    using that by (rule queues_channel_send)
  show "queues_sound chq N (upd_obj c (\<lambda>cl. cl\<lparr>c_tx := ch_close X (c_tx cl)\<rparr>) b)" if "queues_sound chq N b"
    by (rule queues_upd_tx [OF that _ sound_frameI(4)]) (auto simp: ch_close)
  show "queues_sound chq N (upd_obj c (\<lambda>cl. cl\<lparr>c_tx := ch_drain X n (c_tx cl)\<rparr>) b)" if "queues_sound chq N b"
    by (rule queues_upd_tx [OF that _ sound_frameI(4)]) (use set_drop_subset in \<open>fastforce simp: ch_drain\<close>)
  show "queues_sound chq N (snd (alloc (bus_client_new X name p n kind src port) b))"
    if "queues_sound chq N b" "name \<in> N" "0 < n"
    using that ch_bounded [of n]
    by (auto simp: queues_sound_def bus_client_new_def intro!: wiring_alloc) (auto simp: alloc_def nth_append less_Suc_eq)
  show "queues_sound chq N (b\<lparr>b_rpc_client := Some c\<rparr>)" if "queues_sound chq N b" "c < length (b_objs b)"
    using that by (simp add: queues_sound_def wiring_core)
qed

context bounded_channel
begin

lemma queues_traffic: "traffic_invariant X N (queues_sound chq N)"
  by (rule queues.traffic_invariant_axioms)

end

section \<open>Conservation of the counters\<close>

text \<open>Every frame the broker received was received from one of its clients.\<close>

definition counters_ok :: "string set \<Rightarrow> ('sm, 'bm, 'am, 'ch) broker \<Rightarrow> bool" where
  "counters_ok N b \<longleftrightarrow> wiring N b \<and> b_r_frames b = sum_list (map c_r_frames (b_objs b)) \<and>
     b_r_bytes b = sum_list (map c_r_bytes (b_objs b))"

lemma sum_list_list_update:
  fixes g :: "'a \<Rightarrow> 'b :: ab_group_add"
  shows "c < length xs \<Longrightarrow> sum_list (map g (xs[c := y])) = sum_list (map g xs) + (g y - g (xs ! c))"
proof (induction xs arbitrary: c)
  case (Cons x xs)
  then show ?case by (cases c) (simp_all add: algebra_simps)
qed simp

lemma map_upd_same: "(\<And>x. g (f x) = g x) \<Longrightarrow> map g (xs[c := f (xs ! c)]) = map g xs"
  by (rule nth_equalityI) (auto simp: nth_upd)

lemma counters_ok_tx:
  "counters_ok N (upd_obj c (\<lambda>cl. cl\<lparr>c_tx := g cl\<rparr>) b) \<longleftrightarrow> counters_ok N b"
  by (simp add: counters_ok_def wiring_upd_obj) (simp add: upd_obj_def map_upd_same)

interpretation counters: traffic_invariant X N "counters_ok N" for X N
proof unfold_locales
  fix b b' :: "('a, 'b, 'c, 'd) broker" and c len f n name p kind src port
  show "counters_ok N b'" if "traffic b = traffic b'" "counters_ok N b"
    using that wiring_traffic [of b b' N] traffic_objD [of b b'] by (auto simp: counters_ok_def)
  show "c_name (obj b c) \<in> N" if "counters_ok N b" "c < length (b_objs b)"
    using that by (simp add: counters_ok_def wiring_def)
  show "c < length (b_objs b)" if "counters_ok N b" "b_rpc_client b = Some c"
    using that by (simp add: counters_ok_def wiring_def)
  show "counters_ok N (count_r c len b)" if "counters_ok N b" "c < length (b_objs b)"
    using that by (simp add: counters_ok_def wiring_count_r)
      (simp add: count_r_def upd_obj_def Let_def sum_list_list_update)
  show "counters_ok N (snd (channel_send X c f b))" if "counters_ok N b" for X :: "('a, 'b, 'c, 'd) ctx"
    using that by (auto simp: channel_send_def counters_ok_tx split: send_poll.splits waited.splits)
  show "counters_ok N (upd_obj c (\<lambda>cl. cl\<lparr>c_tx := ch_close X (c_tx cl)\<rparr>) b)"
    "counters_ok N (upd_obj c (\<lambda>cl. cl\<lparr>c_tx := ch_drain X n (c_tx cl)\<rparr>) b)" if "counters_ok N b"
    using that by (simp_all add: counters_ok_tx)
  show "counters_ok N (snd (alloc (bus_client_new X name p n kind src port) b))"
    if "counters_ok N b" "name \<in> N"
    using that by (auto simp: counters_ok_def bus_client_new_def intro!: wiring_alloc) (simp_all add: alloc_def)
  show "counters_ok N (b\<lparr>b_rpc_client := Some c\<rparr>)" if "counters_ok N b" "c < length (b_objs b)"
    using that by (simp add: counters_ok_def wiring_core)
qed

end
