(* ===== verification/Bus_Common.thy ===== *)
theory Bus_Common
  imports Bus_Core
begin

text \<open>
  The shared data of \<open>src/src/common.rs\<close>: what the broker reports about clients and about itself, and
  \<open>str_to_params_map\<close>, which reads the parameters of a call from words of the form \<open>name=value\<close>, as the
  FIFO commands and the command-line client use it.  The parts of the standard library it calls
  (trimming, parsing of \<open>i64\<close> and \<open>f64\<close>) are modelled first.
\<close>

section \<open>Trimming\<close>

text \<open>The characters of property \<open>White_Space\<close> as UTF-8.\<close>

definition white_space :: "string list" where
  "white_space = map (map char_of)
     ([[9], [10], [11], [12], [13], [32 :: nat], [0xC2, 0x85], [0xC2, 0xA0], [0xE1, 0x9A, 0x80]]
      @ map (\<lambda>b. [0xE2, 0x80, b]) ([0x80..<0x8B] @ [0xA8, 0xA9, 0xAF])
      @ [[0xE2, 0x81, 0x9F], [0xE3, 0x80, 0x80]])"

fun strip_any :: "string list \<Rightarrow> string \<Rightarrow> string option" where
  "strip_any [] s = None"
| "strip_any (w # ws) s = (if w \<noteq> [] \<and> prefix w s then Some (drop (length w) s) else strip_any ws s)"

lemma strip_any_shorter: "strip_any ws s = Some s' \<Longrightarrow> length s' < length s"
  by (induction ws s rule: strip_any.induct) (auto split: if_splits simp: prefix_def)

function trim_start_with :: "string list \<Rightarrow> string \<Rightarrow> string" where
  "trim_start_with ws s = (case strip_any ws s of Some s' \<Rightarrow> trim_start_with ws s' | None \<Rightarrow> s)"
  by pat_completeness auto
termination by (relation "measure (\<lambda>(_, s). length s)") (auto dest: strip_any_shorter)

declare trim_start_with.simps [simp del]

text \<open>\<open>str::trim\<close>\<close>

definition str_trim :: "string \<Rightarrow> string" where
  "str_trim s = rev (trim_start_with (map rev white_space) (rev (trim_start_with white_space s)))"

lemma trim_start_with_unchanged: "strip_any ws s = None \<Longrightarrow> trim_start_with ws s = s"
  by (simp add: trim_start_with.simps)

lemma str_trim_unchanged:
  "strip_any white_space s = None \<Longrightarrow> strip_any (map rev white_space) (rev s) = None \<Longrightarrow> str_trim s = s"
  by (simp add: str_trim_def trim_start_with_unchanged)

lemma trim_start_with_suffix: "suffix (trim_start_with ws s) s"
proof (induction ws s rule: trim_start_with.induct)
  case (1 ws s)
  have "suffix s' s" if "strip_any ws s = Some s'" for s'
    using that by (induction ws s rule: strip_any.induct) (auto split: if_splits simp: suffix_drop)
  with 1 show ?case by (subst trim_start_with.simps) (auto split: option.splits intro: suffix_order.trans)
qed

text \<open>Trimming keeps the first character of a line that does not start with white space, or empties the line.\<close>

lemma str_trim_head:
  assumes "strip_any white_space s = None"
  shows "prefix (str_trim s) s"
proof -
  have "suffix (trim_start_with (map rev white_space) (rev s)) (rev s)" by (rule trim_start_with_suffix)
  then show ?thesis
    using assms by (simp add: str_trim_def trim_start_with_unchanged suffix_to_prefix)
qed

section \<open>Numbers\<close>

type_synonym i64 = "64 word"

definition is_digit :: "char \<Rightarrow> bool" where
  "is_digit c \<longleftrightarrow> 48 \<le> (of_char c :: nat) \<and> of_char c \<le> (57 :: nat)"

definition digits_value :: "string \<Rightarrow> nat" where
  "digits_value s = foldl (\<lambda>n c. 10 * n + (of_char c - 48)) 0 s"

text \<open>\<open>str::parse::<i64>\<close>: a sign, then at least one digit, and no overflow.\<close>

definition unsign :: "string \<Rightarrow> bool \<times> string" where
  "unsign s = (case s of [] \<Rightarrow> (False, [])
     | c # r \<Rightarrow> if c = CHR ''-'' then (True, r) else if c = CHR ''+'' then (False, r) else (False, s))"

definition parse_i64 :: "string \<Rightarrow> i64 option" where
  "parse_i64 s =
     (let (neg, ds) = unsign s; v = (if neg then - int (digits_value ds) else int (digits_value ds))
      in if ds \<noteq> [] \<and> list_all is_digit ds \<and> - (2 ^ 63) \<le> v \<and> v < 2 ^ 63 then Some (word_of_int v) else None)"

text \<open>
  \<open>str::parse::<f64>\<close>: which texts are numbers.  The value, the double closest to the number, is represented
  by the text.
\<close>

definition lower :: "char \<Rightarrow> char" where
  "lower c = (if 65 \<le> (of_char c :: nat) \<and> of_char c \<le> (90 :: nat) then char_of (of_char c + 32 :: nat) else c)"

definition is_exponent :: "string \<Rightarrow> bool" where
  "is_exponent s \<longleftrightarrow> (case s of [] \<Rightarrow> True
     | c # r \<Rightarrow> lower c = CHR ''e'' \<and> (let ds = snd (unsign r) in ds \<noteq> [] \<and> list_all is_digit ds))"

definition is_decimal :: "string \<Rightarrow> bool" where
  "is_decimal s \<longleftrightarrow>
     (let i = takeWhile is_digit s; r = dropWhile is_digit s
      in case r of
           c # r' \<Rightarrow>
             if c = CHR ''.'' then
               (i \<noteq> [] \<or> takeWhile is_digit r' \<noteq> []) \<and> is_exponent (dropWhile is_digit r')
             else i \<noteq> [] \<and> is_exponent r
         | [] \<Rightarrow> i \<noteq> [])"

definition is_f64 :: "string \<Rightarrow> bool" where
  "is_f64 s \<longleftrightarrow>
     (let r = snd (unsign s)
      in map lower r \<in> set [''inf'', ''infinity'', ''nan''] \<or> is_decimal r)"

section \<open>Reports\<close>

record client_info =
  ci_name :: string
  ci_kind :: string
  ci_source :: "string option"
  ci_port :: "string option"
  ci_r_frames :: u64
  ci_r_bytes :: u64
  ci_w_frames :: u64
  ci_w_bytes :: u64
  ci_queue :: usize
  ci_instances :: usize

text \<open>\<open>impl Ord for ClientInfo\<close> compares the names; \<open>clients.sort()\<close> is a stable sort in that order.\<close>

definition client_info_cmp :: "client_info \<Rightarrow> string" where
  "client_info_cmp c = ci_name c"

record broker_stats =
  bs_uptime :: u64
  bs_r_frames :: u64
  bs_r_bytes :: u64
  bs_w_frames :: u64
  bs_w_bytes :: u64

record broker_info =
  bi_author :: string
  bi_version :: string

section \<open>Parameters\<close>

text \<open>The variants of \<open>serde_value::Value\<close> the function makes.\<close>

datatype param = PBool bool | PI64 i64 | PF64 string | PString string

definition param_of :: "string \<Rightarrow> param" where
  "param_of v =
     (if v = ''false'' then PBool False
      else if v = ''true'' then PBool True
      else case parse_i64 v of
        Some i \<Rightarrow> PI64 i
      | None \<Rightarrow> if is_f64 v then PF64 v else PString v)"

fun str_to_params_map_from :: "(string \<rightharpoonup> param) \<Rightarrow> string list \<Rightarrow> error + (string \<rightharpoonup> param)" where
  "str_to_params_map_from params [] = Inr params"
| "str_to_params_map_from params (pair # s) =
     (if pair \<noteq> [] then
        (case split_on CHR ''='' pair of
           [] \<Rightarrow> Inl (err_data [Lit ''var name not specified''])
         | [var] \<Rightarrow> Inl (err_data [Lit ''var value not specified''])
         | var # v # _ \<Rightarrow> str_to_params_map_from (params(var \<mapsto> param_of v)) s)
      else str_to_params_map_from params s)"

definition str_to_params_map :: "string list \<Rightarrow> error + (string \<rightharpoonup> param)" where
  "str_to_params_map s = str_to_params_map_from Map.empty s"

section \<open>Reading back what was printed\<close>

lemma of_char_digit_char: "d < 10 \<Longrightarrow> of_char (digit_char d) = (48 + d :: nat)"
  by (simp add: digit_char_def)

lemma digits_value_snoc: "digits_value (s @ [c]) = 10 * digits_value s + (of_char c - 48)"
  by (simp add: digits_value_def)

lemma show_nat_digits: "list_all is_digit (show_base 8 n) \<and> digits_value (show_base 8 n) = n"
proof (induction "8 :: nat" n rule: show_base.induct)
  case (1 n)
  have d: "is_digit (digit_char k) \<and> of_char (digit_char k) - 48 = k" if "k < 10" for k
    using that of_char_digit_char [OF that] by (simp add: is_digit_def)
  show ?case
  proof (cases "n < 10")
    case True
    then show ?thesis
      using d [OF True] by (subst (1 2) show_base.simps) (simp add: digits_value_def)
  next
    case False
    have "n mod 10 < 10" by simp
    with False 1 d [OF this] have "list_all is_digit (show_base 8 (n div 10) @ [digit_char (n mod 10)]) \<and>
        digits_value (show_base 8 (n div 10) @ [digit_char (n mod 10)]) = n"
      by (simp add: digits_value_snoc)
    with False show ?thesis by (subst (1 2) show_base.simps) simp
  qed
qed

text \<open>\<open>Display\<close> of a signed number.\<close>

definition show_int :: "int \<Rightarrow> string" where
  "show_int i = (if i < 0 then CHR ''-'' # show_nat (nat (- i)) else show_nat (nat i))"

definition show_i64 :: "i64 \<Rightarrow> string" where
  "show_i64 w = show_int (sint w)"

lemma unsign_digits: "list_all is_digit ds \<Longrightarrow> unsign ds = (False, ds)"
  by (auto simp: unsign_def is_digit_def split: list.splits)

lemma parse_show_i64: "parse_i64 (show_i64 w) = Some w"
proof -
  have r: "- (2 ^ 63) \<le> sint w \<and> sint w < 2 ^ 63" using sint_greater_eq [of w] sint_less [of w] by simp
  have dig: "list_all is_digit (show_nat n)" "digits_value (show_nat n) = n" "show_nat n \<noteq> []" for n
    using show_nat_digits [of n] by (simp_all add: show_nat_def)
  have neg: "unsign (CHR ''-'' # ds) = (True, ds)" for ds by (simp add: unsign_def)
  show ?thesis
    using r by (auto simp: parse_i64_def show_i64_def show_int_def unsign_digits [OF dig(1)] neg dig Let_def)
qed

fun show_param :: "param \<Rightarrow> string" where
  "show_param (PBool b) = (if b then ''true'' else ''false'')"
| "show_param (PI64 i) = show_i64 i"
| "show_param (PF64 t) = t"
| "show_param (PString s) = s"

definition show_pair :: "string \<times> param \<Rightarrow> string" where
  "show_pair p = fst p @ ''='' @ show_param (snd p)"

text \<open>The parameters a word can carry: no \<open>=\<close> in them, and texts that are not read as something else.\<close>

fun plain_param :: "param \<Rightarrow> bool" where
  "plain_param (PBool b) = True"
| "plain_param (PI64 i) = True"
| "plain_param (PF64 t) = (CHR ''='' \<notin> set t \<and> param_of t = PF64 t)"
| "plain_param (PString s) = (CHR ''='' \<notin> set s \<and> param_of s = PString s)"

lemma show_i64_no_eq: "CHR ''='' \<notin> set (show_i64 w)"
proof -
  have "CHR ''='' \<notin> set (show_nat n)" for n
    using show_nat_digits [of n] by (auto simp: show_nat_def list_all_iff is_digit_def)
  then show ?thesis by (simp add: show_i64_def show_int_def)
qed

lemma show_i64_no_bool: "show_i64 w \<noteq> ''true'' \<and> show_i64 w \<noteq> ''false''"
proof -
  have "show_nat n \<noteq> ''true'' \<and> show_nat n \<noteq> ''false''" for n
    using show_nat_digits [of n] by (auto simp: show_nat_def is_digit_def)
  then show ?thesis by (auto simp: show_i64_def show_int_def)
qed

lemma param_of_show: "plain_param v \<Longrightarrow> CHR ''='' \<notin> set (show_param v) \<and> param_of (show_param v) = v"
  using show_i64_no_eq show_i64_no_bool parse_show_i64 by (cases v) (auto simp: param_of_def)

lemma str_to_params_map_from_show:
  assumes "\<forall>(k, v) \<in> set kvs. CHR ''='' \<notin> set k \<and> plain_param v"
  shows "str_to_params_map_from params (map show_pair kvs) = Inr (params ++ map_of (rev kvs))"
  using assms
proof (induction kvs arbitrary: params)
  case (Cons p kvs)
  obtain k v where p: "p = (k, v)" by (cases p)
  with Cons.prems have "CHR ''='' \<notin> set k" "CHR ''='' \<notin> set (show_param v)" "param_of (show_param v) = v"
    using param_of_show [of v] by auto
  then have "str_to_params_map_from params (show_pair p # ws) = str_to_params_map_from (params(k \<mapsto> v)) ws" for ws
    by (simp add: p show_pair_def split_on_append split_on_none)
  moreover have "str_to_params_map_from (params(k \<mapsto> v)) (map show_pair kvs) = Inr (params(k \<mapsto> v) ++ map_of (rev kvs))"
    by (rule Cons.IH) (use Cons.prems in simp)
  ultimately show ?case by (simp add: p)
qed simp

end
