(* ===== verification/Bus_Rpc.thy ===== *)
theory Bus_Rpc
  imports Bus_Writer
begin

text \<open>
  The RPC layer's messages, \<open>src/src/rpc/mod.rs\<close>: events and their accessors, errors, and the header of
  a call.  A panic of an accessor is \<^const>\<open>None\<close>.  The lemmas show that a parsed event can be read
  without panic, and that an event means the same whether its header travelled beside the payload
  (inside the broker process) or in front of it (over a socket).
\<close>

section \<open>Events\<close>

definition RPC_NOTIFICATION :: u8 where [simp]: "RPC_NOTIFICATION = 0x00"
definition RPC_REQUEST :: u8 where [simp]: "RPC_REQUEST = 0x01"
definition RPC_REPLY :: u8 where [simp]: "RPC_REPLY = 0x11"
definition RPC_ERROR :: u8 where [simp]: "RPC_ERROR = 0x12"

datatype rpc_event_kind = RpcNotification | RpcRequest | RpcReply | RpcErrorReply

record rpc_event =
  re_kind :: rpc_event_kind
  re_frame :: frame
  re_payload_pos :: usize
  re_use_header :: bool

text \<open>\<open>bs[i..j]\<close>\<close>

definition slice :: "usize \<Rightarrow> usize \<Rightarrow> bytes \<Rightarrow> bytes option" where
  "slice i j bs = (if i \<le> j \<and> j \<le> length bs then Some (take (j - i) (drop i bs)) else None)"

definition event_payload :: "rpc_event \<Rightarrow> bytes option" where
  "event_payload e =
     (case frame_payload (re_frame e) of
        Some p \<Rightarrow> slice (re_payload_pos e) (length p) p
      | None \<Rightarrow> None)"

text \<open>The bytes the accessors read: the header or the payload of the frame.\<close>

definition event_body :: "rpc_event \<Rightarrow> bytes option" where
  "event_body e = (if re_use_header e then f_header (re_frame e) else frame_payload (re_frame e))"

definition event_id :: "rpc_event \<Rightarrow> u32 option" where
  "event_id e = (case event_body e of Some h \<Rightarrow> map_option of_le32 (slice 1 5 h) | None \<Rightarrow> None)"

definition is_response_required :: "rpc_event \<Rightarrow> bool option" where
  "is_response_required e = map_option (\<lambda>i. i \<noteq> 0) (event_id e)"

text \<open>\<open>header.len() - 1\<close> and \<open>payload_pos - 1\<close> panic on 0.\<close>

definition event_method :: "rpc_event \<Rightarrow> bytes option" where
  "event_method e =
     (if re_use_header e then
        (case f_header (re_frame e) of
           Some h \<Rightarrow> if length h = 0 then None else slice 5 (length h - 1) h
         | None \<Rightarrow> None)
      else
        (case frame_payload (re_frame e) of
           Some p \<Rightarrow> if re_payload_pos e = 0 then None else slice 5 (re_payload_pos e - 1) p
         | None \<Rightarrow> None))"

definition event_parse_method :: "rpc_event \<Rightarrow> (error + string) option" where
  "event_parse_method e = map_option parse_str (event_method e)"

definition event_code :: "rpc_event \<Rightarrow> i16 option" where
  "event_code e =
     (if re_kind e = RpcErrorReply
      then (case event_body e of Some h \<Rightarrow> map_option of_le16 (slice 5 7 h) | None \<Rightarrow> None)
      else Some 0)"

text \<open>\<open>impl TryFrom<Frame> for RpcEvent\<close>\<close>

definition rpc_try_from :: "frame \<Rightarrow> (error + rpc_event) option" where
  "rpc_try_from f =
     (case (case f_header f of Some h \<Rightarrow> Some (h, True)
            | None \<Rightarrow> map_option (\<lambda>p. (p, False)) (frame_payload f)) of
        None \<Rightarrow> None
      | Some (body, use_header) \<Rightarrow> Some (
          if body = [] then Inl (err_data [Lit ''Empty RPC frame''])
          else if body ! 0 = RPC_NOTIFICATION then
            Inr \<lparr>re_kind = RpcNotification, re_frame = f,
                 re_payload_pos = (if use_header then 0 else 1), re_use_header = False\<rparr>
          else if body ! 0 = RPC_REQUEST then
            (if length body < 6 then Inl (err_data [Lit ''Invalid RPC frame''])
             else if use_header then
               Inr \<lparr>re_kind = RpcRequest, re_frame = f, re_payload_pos = 0, re_use_header = True\<rparr>
             else (case splitn0 2 (drop 5 body) of
                     [] \<Rightarrow> Inl (err_data [Lit ''No RPC method''])
                   | m # rest \<Rightarrow>
                       if rest = [] then Inl (err_data [Lit ''No RPC params block''])
                       else Inr \<lparr>re_kind = RpcRequest, re_frame = f,
                                 re_payload_pos = 6 + length m, re_use_header = False\<rparr>))
          else if body ! 0 = RPC_REPLY then
            (if length body < 5 then Inl (err_data [Lit ''Invalid RPC frame''])
             else Inr \<lparr>re_kind = RpcReply, re_frame = f,
                       re_payload_pos = (if use_header then 0 else 5), re_use_header = use_header\<rparr>)
          else if body ! 0 = RPC_ERROR then
            (if length body < 7 then Inl (err_data [Lit ''Invalid RPC frame''])
             else Inr \<lparr>re_kind = RpcErrorReply, re_frame = f,
                       re_payload_pos = (if use_header then 0 else 7), re_use_header = use_header\<rparr>)
          else Inl (err_data [Lit ''Unsupported RPC frame code '', Lit (show_nat (unat (body ! 0)))])))"

section \<open>Errors\<close>

record rpc_error =
  rx_code :: i16
  rx_data :: "bytes option"

definition RPC_ERROR_CODE_NOT_FOUND :: i16 where "RPC_ERROR_CODE_NOT_FOUND = - 32001"
definition RPC_ERROR_CODE_PARSE :: i16 where "RPC_ERROR_CODE_PARSE = - 32700"
definition RPC_ERROR_CODE_INVALID_REQUEST :: i16 where "RPC_ERROR_CODE_INVALID_REQUEST = - 32600"
definition RPC_ERROR_CODE_METHOD_NOT_FOUND :: i16 where "RPC_ERROR_CODE_METHOD_NOT_FOUND = - 32601"
definition RPC_ERROR_CODE_INVALID_METHOD_PARAMS :: i16 where "RPC_ERROR_CODE_INVALID_METHOD_PARAMS = - 32602"
definition RPC_ERROR_CODE_INTERNAL :: i16 where "RPC_ERROR_CODE_INTERNAL = - 32603"

lemmas rpc_code_defs = RPC_ERROR_CODE_NOT_FOUND_def RPC_ERROR_CODE_PARSE_def
  RPC_ERROR_CODE_INVALID_REQUEST_def RPC_ERROR_CODE_METHOD_NOT_FOUND_def
  RPC_ERROR_CODE_INVALID_METHOD_PARAMS_def RPC_ERROR_CODE_INTERNAL_def

definition rpc_error_new :: "i16 \<Rightarrow> bytes option \<Rightarrow> rpc_error" where
  "rpc_error_new code data = \<lparr>rx_code = code, rx_data = data\<rparr>"
definition rpc_error_method :: "bytes option \<Rightarrow> rpc_error" where
  "rpc_error_method err = \<lparr>rx_code = RPC_ERROR_CODE_METHOD_NOT_FOUND, rx_data = err\<rparr>"
definition rpc_error_not_found :: "bytes option \<Rightarrow> rpc_error" where
  "rpc_error_not_found err = \<lparr>rx_code = RPC_ERROR_CODE_NOT_FOUND, rx_data = err\<rparr>"
definition rpc_error_params :: "bytes option \<Rightarrow> rpc_error" where
  "rpc_error_params err = \<lparr>rx_code = RPC_ERROR_CODE_INVALID_METHOD_PARAMS, rx_data = err\<rparr>"
definition rpc_error_parse :: "bytes option \<Rightarrow> rpc_error" where
  "rpc_error_parse err = \<lparr>rx_code = RPC_ERROR_CODE_PARSE, rx_data = err\<rparr>"
definition rpc_error_invalid :: "bytes option \<Rightarrow> rpc_error" where
  "rpc_error_invalid err = \<lparr>rx_code = RPC_ERROR_CODE_INVALID_REQUEST, rx_data = err\<rparr>"
definition rpc_error_internal :: "bytes option \<Rightarrow> rpc_error" where
  "rpc_error_internal err = \<lparr>rx_code = RPC_ERROR_CODE_INTERNAL, rx_data = err\<rparr>"

text \<open>\<open>impl From<Error> for RpcError\<close>: \<open>-32000 - e.kind() as i16\<close>.\<close>

definition rpc_error_from :: "error \<Rightarrow> rpc_error" where
  "rpc_error_from e = \<lparr>rx_code = - 32000 - ucast (kind_code (e_kind e)), rx_data = None\<rparr>"

text \<open>\<open>impl TryFrom<&RpcEvent> for RpcError\<close>\<close>

definition rpc_error_try_from :: "rpc_event \<Rightarrow> (error + rpc_error) option" where
  "rpc_error_try_from e =
     (if re_kind e = RpcErrorReply then
        (case (event_code e, event_payload e) of
           (Some c, Some p) \<Rightarrow> Some (Inr (rpc_error_new c (Some p)))
         | _ \<Rightarrow> None)
      else Some (Inl (err_data [Lit ''not a RPC error''])))"

definition prepare_call_payload :: "string \<Rightarrow> bytes \<Rightarrow> bytes" where
  "prepare_call_payload method id_bytes = [RPC_REQUEST] @ id_bytes @ as_bytes method @ [0x00]"

section \<open>A parsed event can be read\<close>

text \<open>The events \<open>try_from\<close> makes.\<close>

definition event_wf :: "bytes \<Rightarrow> bool \<Rightarrow> rpc_event \<Rightarrow> bool" where
  "event_wf body use_header e \<longleftrightarrow>
     (case re_kind e of
        RpcNotification \<Rightarrow> \<not> re_use_header e \<and> re_payload_pos e = (if use_header then 0 else 1) \<and> 1 \<le> length body
      | RpcRequest \<Rightarrow> re_use_header e = use_header \<and> 6 \<le> length body \<and>
          (if use_header then re_payload_pos e = 0 else 6 \<le> re_payload_pos e \<and> re_payload_pos e \<le> length body)
      | RpcReply \<Rightarrow> re_use_header e = use_header \<and> 5 \<le> length body \<and>
          re_payload_pos e = (if use_header then 0 else 5)
      | RpcErrorReply \<Rightarrow> re_use_header e = use_header \<and> 7 \<le> length body \<and>
          re_payload_pos e = (if use_header then 0 else 7))"

lemma rpc_try_from_header:
  "rpc_try_from f = Some (Inr e) \<Longrightarrow> f_header f = Some h \<Longrightarrow> re_frame e = f \<and> event_wf h True e"
  by (cases h) (auto simp: rpc_try_from_def event_wf_def split: if_splits)

lemma rpc_try_from_payload:
  assumes "rpc_try_from f = Some (Inr e)" and "f_header f = None" and p: "frame_payload f = Some p"
  shows "re_frame e = f \<and> event_wf p False e"
proof (cases "p \<noteq> [] \<and> p ! 0 = RPC_REQUEST \<and> \<not> length p < 6")
  case True
  then obtain m rest where "splitn0 2 (drop 5 p) = m # rest" "rest \<noteq> []"
      "e = \<lparr>re_kind = RpcRequest, re_frame = f, re_payload_pos = 6 + length m, re_use_header = False\<rparr>"
    using assms by (auto simp: rpc_try_from_def split: list.splits if_splits)
  with splitn0_2_length [of "drop 5 p" m rest] True show ?thesis by (simp add: event_wf_def)
next
  case False
  with assms show ?thesis by (cases p) (auto simp: rpc_try_from_def event_wf_def split: if_splits)
qed

lemma rpc_accessors:
  assumes "rpc_try_from f = Some (Inr e)" and pos: "f_payload_pos f \<le> length (f_buf f)"
  shows "event_payload e \<noteq> None \<and> event_code e \<noteq> None \<and>
    (re_kind e \<noteq> RpcNotification \<longrightarrow> event_id e \<noteq> None) \<and> (re_kind e = RpcRequest \<longrightarrow> event_method e \<noteq> None)"
proof -
  obtain p where p: "frame_payload f = Some p" using pos by (simp add: frame_payload_def)
  note acc = event_payload_def event_code_def event_id_def event_method_def event_body_def slice_def event_wf_def
  show ?thesis
  proof (cases "f_header f")
    case None
    from rpc_try_from_payload [OF assms(1) None p] p show ?thesis
      by (cases "re_kind e") (auto simp: acc)
  next
    case (Some h)
    from rpc_try_from_header [OF assms(1) Some] p Some show ?thesis
      by (cases "re_kind e") (auto simp: acc)
  qed
qed

text \<open>The id of a notification is read from its frame, which may be too short.\<close>

lemma rpc_notification_id:
  assumes "rpc_try_from f = Some (Inr e)" and pos: "f_payload_pos f \<le> length (f_buf f)"
  shows "re_kind e = RpcNotification \<longrightarrow> (event_id e = None \<longleftrightarrow> length (f_buf f) < f_payload_pos f + 5)"
proof -
  obtain p where p: "frame_payload f = Some p" "length p = length (f_buf f) - f_payload_pos f"
    using pos by (simp add: frame_payload_def)
  note acc = event_id_def event_body_def slice_def event_wf_def
  show ?thesis
  proof (cases "f_header f")
    case None
    from rpc_try_from_payload [OF assms(1) None p(1)] p pos show ?thesis by (auto simp: acc)
  next
    case (Some h)
    from rpc_try_from_header [OF assms(1) Some] p pos Some show ?thesis by (auto simp: acc)
  qed
qed

text \<open>
  The method is read at the same place of every kind of event.  In a reply that place is empty, so the accessor
  panics, unless the reply has a longer header than the clients send; in an error reply it is the code.
\<close>

lemma rpc_method_panics:
  assumes "rpc_try_from f = Some (Inr e)" and pos: "f_payload_pos f \<le> length (f_buf f)"
  shows "event_method e = None \<longleftrightarrow>
    re_kind e = RpcNotification \<or> re_kind e = RpcReply \<and> (case f_header f of Some h \<Rightarrow> length h = 5 | None \<Rightarrow> True)"
proof -
  obtain p where p: "frame_payload f = Some p" using pos by (simp add: frame_payload_def)
  note acc = event_method_def slice_def event_wf_def
  show ?thesis
  proof (cases "f_header f")
    case None
    from rpc_try_from_payload [OF assms(1) None p] p None show ?thesis
      by (cases "re_kind e") (auto simp: acc)
  next
    case (Some h)
    from rpc_try_from_header [OF assms(1) Some] p Some show ?thesis
      by (cases "re_kind e") (auto simp: acc split: if_splits)
  qed
qed

section \<open>Header transport and wire transport\<close>

text \<open>The headers the RPC clients send.\<close>

definition reply_header :: "u32 \<Rightarrow> bytes" where
  "reply_header i = RPC_REPLY # le32 i"

definition error_header :: "u32 \<Rightarrow> i16 \<Rightarrow> bytes" where
  "error_header i code = RPC_ERROR # le32 i @ le16 code"

definition rpc_header :: "bytes \<Rightarrow> bool" where
  "rpc_header h \<longleftrightarrow> h = [RPC_NOTIFICATION] \<or> (\<exists>i. h = reply_header i) \<or> (\<exists>i c. h = error_header i c) \<or>
     (\<exists>i m. h = prepare_call_payload m (le32 i) \<and> nul_free m)"

definition same_event :: "rpc_event \<Rightarrow> rpc_event \<Rightarrow> bool" where
  "same_event e e' \<longleftrightarrow> re_kind e = re_kind e' \<and> event_payload e = event_payload e' \<and>
     event_code e = event_code e' \<and> f_sender (re_frame e) = f_sender (re_frame e') \<and>
     f_realtime (re_frame e) = f_realtime (re_frame e') \<and>
     (re_kind e \<noteq> RpcNotification \<longrightarrow> event_id e = event_id e') \<and>
     (re_kind e = RpcRequest \<longrightarrow> event_method e = event_method e')"

lemma length_le_sum [simp]: "length (le32 i @ xs) = 4 + length xs"
  by simp

lemma take_le32 [simp]: "take 4 (le32 i @ xs) = le32 i" "drop 4 (le32 i @ xs) = xs"
  by simp_all

text \<open>What an event with a given header says, by either transport.\<close>

definition carries :: "bytes \<Rightarrow> bytes \<Rightarrow> frame \<Rightarrow> bool" where
  "carries h q f \<longleftrightarrow> f_header f = Some h \<and> frame_payload f = Some q \<or>
     f_header f = None \<and> frame_payload f = Some (h @ q)"

definition parses :: "frame \<Rightarrow> (rpc_event \<Rightarrow> bool) \<Rightarrow> bool" where
  "parses f P \<longleftrightarrow> (case rpc_try_from f of Some (Inr e) \<Rightarrow> re_frame e = f \<and> P e | _ \<Rightarrow> False)"

lemma parsesD: "parses f P \<Longrightarrow> \<exists>e. rpc_try_from f = Some (Inr e) \<and> re_frame e = f \<and> P e"
  by (auto simp: parses_def split: option.splits sum.splits)

lemmas event_accessors = event_payload_def event_code_def event_id_def event_method_def event_body_def slice_def

lemma drop5_request: "drop 5 (x # le32 i @ xs) = xs"
  by (simp add: drop_Cons')

lemma rpc_parse_request:
  assumes "nul_free m" and "carries (prepare_call_payload m (le32 i)) q f"
  shows "parses f (\<lambda>e. re_kind e = RpcRequest \<and> event_id e = Some i \<and> event_code e = Some 0 \<and>
      event_method e = Some (as_bytes m) \<and> event_payload e = Some q)"
proof -
  have s: "splitn0 2 (as_bytes m @ 0 # q) = [as_bytes m, q]"
    using assms(1) splitn0_2_conv by (auto simp: nul_free_def)
  have d: "drop (6 + length m) (x # le32 i @ as_bytes m @ 0 # q) = q" for x by (simp add: drop_Cons')
  from assms(2) show ?thesis unfolding carries_def
  proof
    assume "f_header f = Some (prepare_call_payload m (le32 i)) \<and> frame_payload f = Some q"
    then show ?thesis
      by (simp add: parses_def rpc_try_from_def prepare_call_payload_def event_accessors drop5_request)
  next
    assume "f_header f = None \<and> frame_payload f = Some (prepare_call_payload m (le32 i) @ q)"
    then show ?thesis using s d
      by (simp add: parses_def rpc_try_from_def prepare_call_payload_def event_accessors drop5_request)
  qed
qed

lemma rpc_parse_reply:
  assumes "carries (reply_header i) q f"
  shows "parses f (\<lambda>e. re_kind e = RpcReply \<and> event_id e = Some i \<and> event_code e = Some 0 \<and>
      event_payload e = Some q)"
  using assms unfolding carries_def
  by (auto simp: parses_def rpc_try_from_def reply_header_def event_accessors drop5_request)

lemma rpc_parse_error:
  assumes "carries (error_header i c) q f"
  shows "parses f (\<lambda>e. re_kind e = RpcErrorReply \<and> event_id e = Some i \<and> event_code e = Some c \<and>
      event_payload e = Some q)"
proof -
  have d: "drop 7 (x # le32 i @ le16 c @ q) = q" for x by (simp add: drop_Cons')
  with assms show ?thesis unfolding carries_def
    by (auto simp: parses_def rpc_try_from_def error_header_def event_accessors drop5_request)
qed

lemma rpc_parse_notification:
  assumes "carries [RPC_NOTIFICATION] q f"
  shows "parses f (\<lambda>e. re_kind e = RpcNotification \<and> event_code e = Some 0 \<and> event_payload e = Some q)"
  using assms unfolding carries_def
  by (auto simp: parses_def rpc_try_from_def event_accessors)

lemma same_eventI:
  assumes "parses f P" and "parses g P" and "f_sender f = f_sender g" and "f_realtime f = f_realtime g"
    and "\<And>e e'. P e \<Longrightarrow> P e' \<Longrightarrow> re_kind e = re_kind e' \<and> event_payload e = event_payload e' \<and>
      event_code e = event_code e' \<and> (re_kind e \<noteq> RpcNotification \<longrightarrow> event_id e = event_id e') \<and>
      (re_kind e = RpcRequest \<longrightarrow> event_method e = event_method e')"
  shows "\<exists>e e'. rpc_try_from f = Some (Inr e) \<and> rpc_try_from g = Some (Inr e') \<and> same_event e e'"
proof -
  obtain e e' where "rpc_try_from f = Some (Inr e)" "re_frame e = f" "P e"
      "rpc_try_from g = Some (Inr e')" "re_frame e' = g" "P e'"
    using parsesD [OF assms(1)] parsesD [OF assms(2)] by blast
  with assms(3-5) show ?thesis unfolding same_event_def by blast
qed

lemma transport_same:
  assumes h: "f_header f = Some h" "rpc_header h" and pos: "f_payload_pos f \<le> length (f_buf f)"
  shows "\<exists>e e'. rpc_try_from f = Some (Inr e) \<and> rpc_try_from (arrives f) = Some (Inr e') \<and> same_event e e'"
proof -
  let ?q = "drop (f_payload_pos f) (f_buf f)"
  have f: "frame_payload f = Some ?q" using pos by (simp add: frame_payload_def)
  have a: "f_header (arrives f) = None" "frame_payload (arrives f) = Some (h @ ?q)"
    "f_sender (arrives f) = f_sender f" "f_realtime (arrives f) = f_realtime f"
    "f_payload_pos (arrives f) \<le> length (f_buf (arrives f))"
    using h(1) by (simp_all add: arrives_payload) (simp_all add: arrives_def frame_new_def Let_def)
  have c: "carries h ?q f" "carries h ?q (arrives f)" using h(1) f a(1,2) by (simp_all add: carries_def)
  from h(2) consider (n) "h = [RPC_NOTIFICATION]" | (r) i where "h = reply_header i"
    | (x) i k where "h = error_header i k"
    | (q) i m where "h = prepare_call_payload m (le32 i)" "nul_free m"
    by (auto simp: rpc_header_def)
  then show ?thesis
  proof cases
    case n
    with c show ?thesis
      by (intro same_eventI [OF rpc_parse_notification rpc_parse_notification]) (auto simp: a)
  next
    case r
    with c show ?thesis
      by (intro same_eventI [OF rpc_parse_reply rpc_parse_reply]) (auto simp: a)
  next
    case x
    with c show ?thesis
      by (intro same_eventI [OF rpc_parse_error rpc_parse_error]) (auto simp: a)
  next
    case q
    with c show ?thesis
      by (intro same_eventI [OF rpc_parse_request rpc_parse_request]) (auto simp: a)
  qed
qed

end
