(* ===== verification/Bus_RpcClient.thy ===== *)
theory Bus_RpcClient
  imports Bus_Rpc
begin

text \<open>
  The RPC clients, \<open>src/src/rpc/async_client.rs\<close> and \<open>src/src/sync/rpc.rs\<close>: the processor of incoming
  frames, requests and their replies, and calls.  The bus client underneath is only known by its
  interface, so how its \<open>zc_send\<close>, the confirmation and the reply end are arguments.
\<close>

section \<open>State\<close>

record rpc_options =
  ro_blocking_notifications :: bool
  ro_blocking_frames :: bool

text \<open>What the processor starts: a handler in its own task or in place.\<close>

datatype rpc_action =
  HandleNotification bool rpc_event
| HandleFrame bool frame
| HandleRequest rpc_event "(u32 \<times> string) option"

record rpc_client =
  r_call_id :: u32
  r_timeout :: "duration option"
  r_calls :: "u32 \<rightharpoonup> ticket"
  r_next_ticket :: ticket
  r_results :: "ticket \<rightharpoonup> rpc_event"
  r_actions :: "rpc_action list"

definition rpc_client_new :: "duration option \<Rightarrow> rpc_client" where
  "rpc_client_new timeout = \<lparr>r_call_id = 0, r_timeout = timeout, r_calls = Map.empty, r_next_ticket = 0,
     r_results = Map.empty, r_actions = []\<rparr>"

section \<open>The processor\<close>

definition act_on :: "rpc_action \<Rightarrow> rpc_client \<Rightarrow> rpc_client" where
  "act_on a cl = cl\<lparr>r_actions := r_actions cl @ [a]\<rparr>"

definition resolve_call :: "u32 \<Rightarrow> rpc_event \<Rightarrow> rpc_client \<Rightarrow> rpc_client" where
  "resolve_call i event cl =
     (case r_calls cl i of
        Some tx \<Rightarrow> cl\<lparr>r_calls := (r_calls cl)(i := None), r_results := (r_results cl)(tx \<mapsto> event)\<rparr>
      | None \<Rightarrow> cl)"

text \<open>One turn of \<open>processor\<close>; \<^const>\<open>None\<close> is a panic.\<close>

definition processor_step :: "rpc_options \<Rightarrow> frame \<Rightarrow> rpc_client \<Rightarrow> rpc_client option" where
  "processor_step opts f cl =
     (if f_kind f = KMessage then
        (case rpc_try_from f of
           None \<Rightarrow> None
         | Some (Inl e) \<Rightarrow> Some cl
         | Some (Inr event) \<Rightarrow>
             (case re_kind event of
                RpcNotification \<Rightarrow> Some (act_on (HandleNotification (ro_blocking_notifications opts) event) cl)
              | RpcRequest \<Rightarrow>
                  (case event_id event of
                     None \<Rightarrow> None
                   | Some i \<Rightarrow>
                       if i > 0 then
                         (case frame_sender (re_frame event) of
                            Some target \<Rightarrow> Some (act_on (HandleRequest event (Some (i, target))) cl)
                          | None \<Rightarrow> None)
                       else Some (act_on (HandleRequest event None) cl))
              | _ \<Rightarrow>
                  (case event_id event of None \<Rightarrow> None | Some i \<Rightarrow> Some (resolve_call i event cl))))
      else Some (act_on (HandleFrame (ro_blocking_frames opts) f) cl))"

fun processor :: "rpc_options \<Rightarrow> frame list \<Rightarrow> rpc_client \<Rightarrow> rpc_client option" where
  "processor opts [] cl = Some cl"
| "processor opts (f # fs) cl = (case processor_step opts f cl of Some cl' \<Rightarrow> processor opts fs cl' | None \<Rightarrow> None)"

text \<open>\<open>Processor::run\<close> of the synchronous client: notifications and frames are handled in place.\<close>

definition sync_processor_step :: "frame \<Rightarrow> rpc_client \<Rightarrow> rpc_client option" where
  "sync_processor_step f cl =
     (if f_kind f = KMessage then
        (case rpc_try_from f of
           None \<Rightarrow> None
         | Some (Inl e) \<Rightarrow> Some cl
         | Some (Inr event) \<Rightarrow>
             (case re_kind event of
                RpcNotification \<Rightarrow> Some (act_on (HandleNotification True event) cl)
              | RpcRequest \<Rightarrow>
                  (case event_id event of
                     None \<Rightarrow> None
                   | Some i \<Rightarrow>
                       if i > 0 then
                         (case frame_sender (re_frame event) of
                            Some target \<Rightarrow> Some (act_on (HandleRequest event (Some (i, target))) cl)
                          | None \<Rightarrow> None)
                       else Some (act_on (HandleRequest event None) cl))
              | _ \<Rightarrow>
                  (case event_id event of None \<Rightarrow> None | Some i \<Rightarrow> Some (resolve_call i event cl))))
      else Some (act_on (HandleFrame True f) cl))"

fun processor_run :: "frame list \<Rightarrow> rpc_client \<Rightarrow> rpc_client option" where
  "processor_run [] cl = Some cl"
| "processor_run (f # fs) cl = (case sync_processor_step f cl of Some cl' \<Rightarrow> processor_run fs cl' | None \<Rightarrow> None)"

section \<open>Requests and replies\<close>

type_synonym rpc_result = "rpc_error + bytes option"

text \<open>The arguments of \<open>zc_send\<close>.\<close>

record zc_args =
  z_target :: string
  z_header :: bytes
  z_payload :: bytes
  z_qos :: QoS

text \<open>The task of a request: call the handler, and reply if a reply is wanted.\<close>

definition handle_request ::
  "(rpc_event \<Rightarrow> rpc_result) \<Rightarrow> rpc_event \<Rightarrow> (u32 \<times> string) option \<Rightarrow> zc_args option" where
  "handle_request handle_call event ev =
     (let qos = (if f_realtime (re_frame event) then RealtimeProcessed else Processed);
          res = handle_call event
      in case ev of
           None \<Rightarrow> None
         | Some (i, target) \<Rightarrow>
             (case res of
                Inr v \<Rightarrow> Some \<lparr>z_target = target, z_header = [RPC_REPLY] @ le32 i,
                             z_payload = (case v of Some r \<Rightarrow> r | None \<Rightarrow> []), z_qos = qos\<rparr>
              | Inl e \<Rightarrow> Some \<lparr>z_target = target, z_header = [RPC_ERROR] @ le32 i @ le16 (rx_code e),
                             z_payload = (case rx_data e of Some r \<Rightarrow> r | None \<Rightarrow> []), z_qos = qos\<rparr>))"

definition dummy_handle_call :: "rpc_event \<Rightarrow> rpc_result" where
  "dummy_handle_call event =
     Inl (rpc_error_new RPC_ERROR_CODE_METHOD_NOT_FOUND (Some (as_bytes ''RPC handler is not implemented'')))"

definition default_handle_call :: "rpc_event \<Rightarrow> rpc_result" where
  "default_handle_call event = Inl (rpc_error_method None)"

section \<open>Calls\<close>

definition rpc_notify :: "string \<Rightarrow> cow \<Rightarrow> QoS \<Rightarrow> zc_args" where
  "rpc_notify target data qos =
     \<lparr>z_target = target, z_header = [RPC_NOTIFICATION], z_payload = cow_slice data, z_qos = qos\<rparr>"

definition rpc_call0 :: "string \<Rightarrow> string \<Rightarrow> cow \<Rightarrow> QoS \<Rightarrow> zc_args" where
  "rpc_call0 target method params qos =
     \<lparr>z_target = target, z_header = prepare_call_payload method [0, 0, 0, 0], z_payload = cow_slice params,
      z_qos = qos\<rparr>"

definition next_call_id :: "u32 \<Rightarrow> u32" where
  "next_call_id call_id = (if call_id = - 1 then 1 else call_id + 1)"

text \<open>Up to the send: a new call id, a ticket for the reply, and the request.\<close>

definition call_begin ::
  "string \<Rightarrow> string \<Rightarrow> cow \<Rightarrow> QoS \<Rightarrow> rpc_client \<Rightarrow> (u32 \<times> ticket \<times> zc_args) \<times> rpc_client" where
  "call_begin target method params qos cl =
     (let call_id = next_call_id (r_call_id cl);
          rx = r_next_ticket cl
      in ((call_id, rx,
           \<lparr>z_target = target, z_header = prepare_call_payload method (le32 call_id),
            z_payload = cow_slice params, z_qos = qos\<rparr>),
          cl\<lparr>r_call_id := call_id, r_calls := (r_calls cl)(call_id \<mapsto> rx), r_next_ticket := rx + 1\<rparr>))"

definition cancel_call :: "u32 \<Rightarrow> rpc_client \<Rightarrow> rpc_client" where
  "cancel_call call_id cl = cl\<lparr>r_calls := (r_calls cl)(call_id := None)\<rparr>"

text \<open>How \<open>zc_send\<close> ends, and the confirmation it may return.\<close>

datatype confirm_outcome = Confirmed "error + unit" | ConfirmDropped | ConfirmNever

datatype zc_outcome = ZcOk "confirm_outcome option" | ZcErr error | ZcElapsed | ZcNever

text \<open>
  From the send to the wait for the reply: \<^const>\<open>Done\<close> means that the call now waits for its ticket.
  Without a timeout a send that does not end is waited for.
\<close>

definition call_send :: "u32 \<Rightarrow> zc_outcome \<Rightarrow> (rpc_client, rpc_error, unit) act" where
  "call_send call_id z cl =
     (case z of
        ZcOk None \<Rightarrow> (Done (), cl)
      | ZcOk (Some (Confirmed (Inr _))) \<Rightarrow> (Done (), cl)
      | ZcOk (Some (Confirmed (Inl e))) \<Rightarrow> (Bail (rpc_error_from e), cancel_call call_id cl)
      | ZcOk (Some ConfirmDropped) \<Rightarrow> (Bail (rpc_error_from err_eof), cancel_call call_id cl)
      | ZcOk (Some ConfirmNever) \<Rightarrow> (Pending, cl)
      | ZcErr e \<Rightarrow> (Bail (rpc_error_from e), cancel_call call_id cl)
      | ZcElapsed \<Rightarrow>
          (case r_timeout cl of
             Some _ \<Rightarrow> (Bail (rpc_error_from err_timeout), cancel_call call_id cl)
           | None \<Rightarrow> (Pending, cl))
      | ZcNever \<Rightarrow> (Pending, cl))"

text \<open>The reply: an error reply is the error of the call.\<close>

definition call_result :: "rpc_event \<Rightarrow> (rpc_error + rpc_event) option" where
  "call_result event =
     (case rpc_error_try_from event of
        Some (Inr e) \<Rightarrow> Some (Inl e)
      | Some (Inl _) \<Rightarrow> Some (Inr event)
      | None \<Rightarrow> None)"

text \<open>
  \<open>call\<close> of the synchronous client: the send is not cancelled on failure, the confirmation is not
  awaited, and the reply is awaited for \<open>timeout\<close>.  The panic of \<open>call_result\<close>, which does not happen for
  a parsed event, is \<^const>\<open>Pending\<close>.
\<close>

datatype reply_outcome = Replied rpc_event | ReplyDropped | ReplyElapsed

definition sync_call_send :: "u32 \<Rightarrow> zc_outcome \<Rightarrow> (rpc_client, rpc_error, unit) act" where
  "sync_call_send call_id z cl =
     (case z of
        ZcOk _ \<Rightarrow> (Done (), cl)
      | ZcErr e \<Rightarrow> (Bail (rpc_error_from e), cl)
      | _ \<Rightarrow> (Pending, cl))"

definition sync_call_wait :: "u32 \<Rightarrow> reply_outcome \<Rightarrow> (rpc_client, rpc_error, rpc_event) act" where
  "sync_call_wait call_id r cl =
     (case r of
        Replied event \<Rightarrow>
          (case call_result event of
             Some (Inr v) \<Rightarrow> (Done v, cl)
           | Some (Inl e) \<Rightarrow> (Bail e, cl)
           | None \<Rightarrow> (Pending, cl))
      | ReplyDropped \<Rightarrow>
          (Bail (rpc_error_from (err_io [Shown (ExternError ''RecvError'')])), cancel_call call_id cl)
      | ReplyElapsed \<Rightarrow>
          (case r_timeout cl of
             Some _ \<Rightarrow> (Bail (rpc_error_from err_timeout), cancel_call call_id cl)
           | None \<Rightarrow> (Pending, cl)))"

section \<open>Lemmas\<close>

interpretation call_ids: id_source next_call_id
  by unfold_locales (simp_all add: next_call_id_def)

lemma zc_headers:
  "[RPC_REPLY] @ le32 i = reply_header i" "[RPC_ERROR] @ le32 i @ le16 c = error_header i c"
  by (simp_all add: reply_header_def error_header_def)

text \<open>The frame a \<open>zc_send\<close> puts into the queue of an internal client.\<close>

definition zc_frame :: "string \<Rightarrow> zc_args \<Rightarrow> frame" where
  "zc_frame sender z =
     frame_new KMessage (Some sender) None (Some (z_header z)) (z_payload z) 0 (is_realtime (z_qos z))"

text \<open>
  The frame the reader task puts into the queue of an internal client for a \<open>zc_send\<close> of an IPC client: its buffer
  begins with the target, and the header is a part of the payload.
\<close>

definition zc_frame_ipc :: "string \<Rightarrow> zc_args \<Rightarrow> frame" where
  "zc_frame_ipc sender z =
     frame_new KMessage (Some sender) None None (as_bytes (z_target z) @ [0] @ z_header z @ z_payload z)
       (length (z_target z) + 1) (is_realtime (z_qos z))"

text \<open>What the other client gets: from its queue, if it is internal, or as it reads it from its socket.\<close>

definition delivered_as :: "string \<Rightarrow> zc_args \<Rightarrow> frame \<Rightarrow> bool" where
  "delivered_as sender z f \<longleftrightarrow>
     f \<in> {zc_frame sender z, zc_frame_ipc sender z, arrives (zc_frame sender z), arrives (zc_frame_ipc sender z)}"

lemma delivered_carries:
  "delivered_as sender z f \<Longrightarrow> carries (z_header z) (z_payload z) f \<and> f_kind f = KMessage \<and> f_sender f = Some sender"
  by (auto simp: delivered_as_def zc_frame_def zc_frame_ipc_def carries_def arrives_def frame_new_def frame_payload_def Let_def)

text \<open>A request reaches the handler with the method and the parameters of the call.\<close>

lemma processor_step_request:
  assumes d: "delivered_as caller z f" and z: "z_header z = prepare_call_payload m (le32 i)"
    and "nul_free m" and "i \<noteq> 0"
  shows "\<exists>e. processor_step opts f cl = Some (act_on (HandleRequest e (Some (i, caller))) cl) \<and>
    event_method e = Some (as_bytes m) \<and> event_payload e = Some (z_payload z)"
proof -
  have "carries (prepare_call_payload m (le32 i)) (z_payload z) f" and k: "f_kind f = KMessage" "f_sender f = Some caller"
    using delivered_carries [OF d] z by simp_all
  from parsesD [OF rpc_parse_request [OF assms(3) this(1)]] obtain e where
    "rpc_try_from f = Some (Inr e)" "re_frame e = f" "re_kind e = RpcRequest" "event_id e = Some i"
    "event_method e = Some (as_bytes m)" "event_payload e = Some (z_payload z)" by blast
  with k assms(4) show ?thesis
    by (intro exI [of _ e]) (simp add: processor_step_def frame_sender_def word_neq_0_conv)
qed

text \<open>A reply resolves the ticket its id is registered under, and no other.\<close>

lemma processor_step_reply:
  assumes d: "delivered_as sender z f"
    and z: "z_header z = reply_header i \<and> r = Inr (z_payload z) \<or>
      (\<exists>c. z_header z = error_header i c \<and> r = Inl (rpc_error_new c (Some (z_payload z))))"
    and t: "r_calls cl i = Some t"
  shows "\<exists>e cl'. processor_step opts f cl = Some cl' \<and> r_results cl' = (r_results cl)(t \<mapsto> e) \<and>
    r_calls cl' = (r_calls cl)(i := None) \<and> r_actions cl' = r_actions cl \<and>
    (case r of Inr p \<Rightarrow> call_result e = Some (Inr e) \<and> event_payload e = Some p
     | Inl x \<Rightarrow> call_result e = Some (Inl x))"
proof -
  note k = delivered_carries [OF d]
  from z show ?thesis
  proof (elim disjE exE conjE)
    assume h: "z_header z = reply_header i" and r: "r = Inr (z_payload z)"
    from k h parsesD [OF rpc_parse_reply [of i "z_payload z" f]] obtain e where
      "rpc_try_from f = Some (Inr e)" "re_kind e = RpcReply" "event_id e = Some i"
      "event_payload e = Some (z_payload z)" by auto
    with k t r show ?thesis
      by (intro exI [of _ e]) (simp add: processor_step_def resolve_call_def call_result_def rpc_error_try_from_def)
  next
    fix c assume h: "z_header z = error_header i c" and r: "r = Inl (rpc_error_new c (Some (z_payload z)))"
    from k h parsesD [OF rpc_parse_error [of i c "z_payload z" f]] obtain e where
      "rpc_try_from f = Some (Inr e)" "re_kind e = RpcErrorReply" "event_id e = Some i"
      "event_code e = Some c" "event_payload e = Some (z_payload z)" by auto
    with k t r show ?thesis
      by (intro exI [of _ e]) (simp add: processor_step_def resolve_call_def call_result_def rpc_error_try_from_def)
  qed
qed

lemma sync_processor_step_eq:
  "sync_processor_step = processor_step \<lparr>ro_blocking_notifications = True, ro_blocking_frames = True\<rparr>"
  by (auto simp: sync_processor_step_def processor_step_def fun_eq_iff
      split: option.splits sum.splits rpc_event_kind.splits)

text \<open>No frame makes the processor panic, if it has a sender and its payload position is in range.\<close>

lemma processor_step_total:
  assumes "f_sender f \<noteq> None" and "f_payload_pos f \<le> length (f_buf f)"
  shows "processor_step opts f cl \<noteq> None"
proof (cases "rpc_try_from f")
  case None
  then show ?thesis using assms(2)
    by (auto simp: rpc_try_from_def frame_payload_def processor_step_def split: option.splits)
next
  case (Some r)
  show ?thesis
  proof (cases r)
    case (Inl e)
    with Some show ?thesis by (simp add: processor_step_def)
  next
    case (Inr e)
    with Some have p: "rpc_try_from f = Some (Inr e)" by simp
    have "re_frame e = f"
      using p rpc_try_from_header rpc_try_from_payload assms(2)
      by (cases "f_header f") (force simp: frame_payload_def)+
    with rpc_accessors [OF p assms(2)] p assms(1) show ?thesis
      by (auto simp: processor_step_def frame_sender_def split: rpc_event_kind.splits option.splits)
  qed
qed

end
