(* ===== verification/Bus_CoreRpc.thy ===== *)
theory Bus_CoreRpc
  imports Bus_Common Bus_RpcClient Bus_Delivery
begin

text \<open>
  The core RPC of the broker, \<open>src/src/broker.rs\<close>: the methods \<open>BrokerRpcHandlers\<close> serves (test, information,
  statistics, the list of clients), and the FIFO commands, which the broker sends through its core RPC client.
  The encodings of \<open>rmp_serde\<close> and the expressions of \<open>regex\<close> are an argument.
\<close>

section \<open>Encodings\<close>

text \<open>An error is the text it displays.\<close>

record core_codec =
  enc_info :: "broker_info \<Rightarrow> string + bytes"
  enc_stats :: "broker_stats \<Rightarrow> string + bytes"
  enc_clients :: "client_info list \<Rightarrow> string + bytes"
  enc_params :: "(string \<rightharpoonup> param) \<Rightarrow> string + bytes"
  dec_filter :: "bytes \<Rightarrow> string + string option"
  regex_new :: "string \<Rightarrow> string + (string \<Rightarrow> bool)"

text \<open>The conversions into \<open>RpcError\<close>, from an error of \<open>rmp_serde\<close> (both ways), \<open>regex\<close> and \<open>std::io\<close>.\<close>

definition rpc_error_from_encode :: "string \<Rightarrow> rpc_error" where
  "rpc_error_from_encode e = \<lparr>rx_code = RPC_ERROR_CODE_INTERNAL, rx_data = Some (as_bytes e)\<rparr>"
definition rpc_error_from_regex :: "string \<Rightarrow> rpc_error" where
  "rpc_error_from_regex e = \<lparr>rx_code = RPC_ERROR_CODE_PARSE, rx_data = Some (as_bytes e)\<rparr>"
definition rpc_error_from_std_io :: "string \<Rightarrow> rpc_error" where
  "rpc_error_from_std_io e = \<lparr>rx_code = RPC_ERROR_CODE_INTERNAL, rx_data = Some (as_bytes e)\<rparr>"
definition rpc_error_from_decode :: "string \<Rightarrow> rpc_error" where
  "rpc_error_from_decode e = \<lparr>rx_code = RPC_ERROR_CODE_PARSE, rx_data = Some (as_bytes e)\<rparr>"

definition rpc_error_display :: "rpc_error \<Rightarrow> string" where
  "rpc_error_display e = ''rpc error code: '' @ show_int (sint (rx_code e))"

definition convert_data :: "string \<Rightarrow> bytes" where
  "convert_data v = as_bytes v"

section \<open>The methods of the core RPC\<close>

definition VERSION :: string where "VERSION = ''0.5.6''"
definition AUTHOR :: string where "AUTHOR = ''(c) 2022 Bohemia Automation / Altertech''"

definition broker_stats_of :: "u64 \<Rightarrow> ('sm, 'bm, 'am, 'ch) broker \<Rightarrow> broker_stats" where
  "broker_stats_of uptime b = \<lparr>bs_uptime = uptime, bs_r_frames = b_r_frames b, bs_r_bytes = b_r_bytes b,
     bs_w_frames = b_w_frames b, bs_w_bytes = b_w_bytes b\<rparr>"

definition broker_info_of :: broker_info where
  "broker_info_of = \<lparr>bi_author = AUTHOR, bi_version = VERSION\<rparr>"

definition RPC_OK :: bytes where "RPC_OK = [129, 162, 111, 107, 195]"

definition client_info_of :: "('sm, 'bm, 'am, 'ch) ctx \<Rightarrow> ('am, 'ch) bus_client \<Rightarrow> client_info" where
  "client_info_of X v =
     \<lparr>ci_name = c_name v, ci_kind = client_kind_str (c_kind v), ci_source = c_source v, ci_port = c_port v,
      ci_r_frames = c_r_frames v, ci_r_bytes = c_r_bytes v, ci_w_frames = c_w_frames v, ci_w_bytes = c_w_bytes v,
      ci_queue = ch_len X (c_tx v), ci_instances = card (set (c_secondaries v)) + 1\<rparr>"

text \<open>\<open>keys\<close> is the order in which \<open>values()\<close> visits the client table.\<close>

definition client_infos ::
  "('sm, 'bm, 'am, 'ch) ctx \<Rightarrow> (string \<Rightarrow> bool) option \<Rightarrow> string list \<Rightarrow> ('sm, 'bm, 'am, 'ch) broker
     \<Rightarrow> client_info list" where
  "client_infos X re keys b =
     sort_key client_info_cmp
       (map (client_info_of X)
         (filter (\<lambda>c. c_primary c \<and> (case re of Some r \<Rightarrow> r (c_name c) | None \<Rightarrow> True))
           (map (\<lambda>n. obj b (the (b_clients b n))) keys)))"

text \<open>The filter of the call: none without parameters, or the expression in them.\<close>

definition client_filter :: "core_codec \<Rightarrow> bytes \<Rightarrow> rpc_error + (string \<Rightarrow> bool) option" where
  "client_filter CC payload =
     (if payload = [] then Inr None
      else case dec_filter CC payload of
        Inl e \<Rightarrow> Inl (rpc_error_from_decode e)
      | Inr None \<Rightarrow> Inr None
      | Inr (Some expr) \<Rightarrow>
          (case regex_new CC expr of
             Inl e \<Rightarrow> Inl (rpc_error_from_regex e)
           | Inr r \<Rightarrow> Inr (Some r)))"

definition client_list ::
  "core_codec \<Rightarrow> ('sm, 'bm, 'am, 'ch) ctx \<Rightarrow> string list \<Rightarrow> bytes \<Rightarrow> ('sm, 'bm, 'am, 'ch) broker \<Rightarrow> rpc_result" where
  "client_list CC X keys payload b =
     (case client_filter CC payload of
        Inl e \<Rightarrow> Inl e
      | Inr re \<Rightarrow>
          (case enc_clients CC (client_infos X re keys b) of
             Inl e \<Rightarrow> Inl (rpc_error_from_encode e)
           | Inr v \<Rightarrow> Inr (Some v)))"

text \<open>\<open>BrokerRpcHandlers::handle_call\<close>; \<^const>\<open>None\<close> is a panic of an accessor.\<close>

definition core_method ::
  "core_codec \<Rightarrow> ('sm, 'bm, 'am, 'ch) ctx \<Rightarrow> u64 \<Rightarrow> string list \<Rightarrow> string \<Rightarrow> bytes \<Rightarrow> ('sm, 'bm, 'am, 'ch) broker
     \<Rightarrow> rpc_result" where
  "core_method CC X uptime keys method payload b =
     (let encoded = (\<lambda>r. case r of Inl e \<Rightarrow> Inl (rpc_error_from_encode e) | Inr v \<Rightarrow> Inr (Some v))
      in if method = ''benchmark.test'' then Inr (Some payload)
         else if method = ''test'' then
           (if payload \<noteq> [] then Inl (rpc_error_params None) else Inr (Some RPC_OK))
         else if method = ''info'' then
           (if payload \<noteq> [] then Inl (rpc_error_params None) else encoded (enc_info CC broker_info_of))
         else if method = ''stats'' then
           (if payload \<noteq> [] then Inl (rpc_error_params None) else encoded (enc_stats CC (broker_stats_of uptime b)))
         else if method = ''client.list'' then client_list CC X keys payload b
         else Inl (rpc_error_method None))"

definition core_handle_call ::
  "core_codec \<Rightarrow> ('sm, 'bm, 'am, 'ch) ctx \<Rightarrow> u64 \<Rightarrow> string list \<Rightarrow> ('sm, 'bm, 'am, 'ch) broker \<Rightarrow> rpc_event
     \<Rightarrow> rpc_result option" where
  "core_handle_call CC X uptime keys b event =
     (case event_parse_method event of
        None \<Rightarrow> None
      | Some (Inl e) \<Rightarrow> Some (Inl (rpc_error_from e))
      | Some (Inr method) \<Rightarrow>
          (case event_payload event of
             None \<Rightarrow> None
           | Some payload \<Rightarrow> Some (core_method CC X uptime keys method payload b)))"

section \<open>FIFO commands\<close>

definition BROKER_RPC_NOT_INIT_ERR :: string where
  "BROKER_RPC_NOT_INIT_ERR = ''broker core RPC client not initialized''"

datatype fifo_cmd =
  FifoPublish string string
| FifoNotify string string
| FifoCall string string bytes
| FifoBroadcast string string
| FifoSend string string

text \<open>
  The words of a command.  The trimmed line is used for publications only; the other commands split the
  line as it is.
\<close>

definition fifo_target :: "core_codec \<Rightarrow> string list \<Rightarrow> error + fifo_cmd" where
  "fifo_target CC words =
     (case words of
        [] \<Rightarrow> Inl (err_data [Lit ''target not specified''])
      | [_] \<Rightarrow> Inl (err_data [Lit ''payload not specified''])
      | target # payload # sp \<Rightarrow>
          (case payload of
             c # s \<Rightarrow>
               if c = CHR ''.'' then Inr (FifoNotify target s)
               else if c = CHR '':'' then
                 (case str_to_params_map sp of
                    Inl e \<Rightarrow> Inl e
                  | Inr params \<Rightarrow>
                      (case enc_params CC params of
                         Inl e \<Rightarrow> Inl (err_data [Shown (ExternError e)])
                       | Inr v \<Rightarrow> Inr (FifoCall target s v)))
               else if CHR ''*'' \<in> set target \<or> CHR ''?'' \<in> set target then Inr (FifoBroadcast target payload)
               else Inr (FifoSend target payload)
           | [] \<Rightarrow>
               if CHR ''*'' \<in> set target \<or> CHR ''?'' \<in> set target then Inr (FifoBroadcast target payload)
               else Inr (FifoSend target payload)))"

definition fifo_parse :: "core_codec \<Rightarrow> string \<Rightarrow> error + fifo_cmd" where
  "fifo_parse CC line =
     (case str_trim line of
        c # s \<Rightarrow>
          if c = CHR ''='' then
            (case split_on CHR '' '' s of
               [] \<Rightarrow> Inl (err_data [Lit ''topic not specified''])
             | [_] \<Rightarrow> Inl (err_data [Lit ''payload not specified''])
             | topic # payload # _ \<Rightarrow> Inr (FifoPublish topic payload))
          else fifo_target CC (split_on CHR '' '' line)
      | [] \<Rightarrow> fifo_target CC (split_on CHR '' '' line))"

text \<open>The internal client of the core RPC client, and \<open>zc_send\<close> on it with the arguments RPC made.\<close>

definition core_client :: "cid \<Rightarrow> ('sm, 'bm, 'am, 'ch) broker \<Rightarrow> client" where
  "core_client c b = \<lparr>k_name = c_name (obj b c), k_bus = c, k_rx = False, k_secondary_counter = 0\<rparr>"

definition zc_client_send ::
  "('sm, 'bm, 'am, 'ch) ctx \<Rightarrow> client \<Rightarrow> zc_args \<Rightarrow> ('sm, 'bm, 'am, 'ch, confirm) bact" where
  "zc_client_send X k z = client_zc_send X k (z_target z) (Owned (z_header z)) (Borrowed (z_payload z)) (z_qos z)"

fun fifo_exec ::
  "('sm, 'bm, 'am, 'ch) ctx \<Rightarrow> client \<Rightarrow> fifo_cmd \<Rightarrow> ('sm, 'bm, 'am, 'ch, confirm) bact" where
  "fifo_exec X k (FifoPublish topic payload) = client_publish X k topic (Borrowed (as_bytes payload)) QosNo"
| "fifo_exec X k (FifoNotify target s) = zc_client_send X k (rpc_notify target (Borrowed (as_bytes s)) QosNo)"
| "fifo_exec X k (FifoCall target method params) =
     zc_client_send X k (rpc_call0 target method (Owned params) QosNo)"
| "fifo_exec X k (FifoBroadcast target payload) =
     client_send_broadcast X k target (Borrowed (as_bytes payload)) QosNo"
| "fifo_exec X k (FifoSend target payload) = client_send X k target (Borrowed (as_bytes payload)) QosNo"

text \<open>
  \<open>send_fifo_cmd\<close>: the mutex around the core RPC client is held until the function returns, the one of its
  bus client while the frame is sent.
\<close>

definition send_fifo_cmd ::
  "core_codec \<Rightarrow> ('sm, 'bm, 'am, 'ch) ctx \<Rightarrow> string \<Rightarrow> ('sm, 'bm, 'am, 'ch, unit) bact" where
  "send_fifo_cmd CC X line b =
     (if b_rpc_locked b then (Pending, b)
      else case b_rpc_client b of
        None \<Rightarrow> (Bail (err_not_supported [Lit BROKER_RPC_NOT_INIT_ERR]), b)
      | Some c \<Rightarrow>
          (case fifo_parse CC line of
             Inl e \<Rightarrow> (Bail e, b)
           | Inr cmd \<Rightarrow>
               if b_core_locked b then (Pending, b\<lparr>b_rpc_locked := True\<rparr>)
               else unlock_core
                 (act_then (fifo_exec X (core_client c b) cmd) (\<lambda>_ b'. (Done (), b'))
                   (b\<lparr>b_rpc_locked := True, b_core_locked := True\<rparr>))))"

text \<open>The task of \<open>spawn_fifo\<close> over what \<open>next_line\<close> gives; errors are logged.\<close>

fun fifo_service ::
  "core_codec \<Rightarrow> ('sm, 'bm, 'am, 'ch) ctx \<Rightarrow> (io_kind + string) list \<Rightarrow> ('sm, 'bm, 'am, 'ch, unit) bact" where
  "fifo_service CC X [] b = (Done (), b)"
| "fifo_service CC X (Inl e # ls) b = fifo_service CC X ls b"
| "fifo_service CC X (Inr line # ls) b =
     act_then (log_err (send_fifo_cmd CC X line)) (\<lambda>_. fifo_service CC X ls) b"

section \<open>The list of clients\<close>

definition listed :: "(string \<Rightarrow> bool) option \<Rightarrow> ('sm, 'bm, 'am, 'ch) broker \<Rightarrow> cid \<Rightarrow> bool" where
  "listed re b c \<longleftrightarrow> live b c \<and> c_primary (obj b c) \<and> (case re of Some r \<Rightarrow> r (c_name (obj b c)) | None \<Rightarrow> True)"

lemma clients_ok_the: "clients_ok b \<Longrightarrow> n \<in> dom (b_clients b) \<Longrightarrow>
    live b (the (b_clients b n)) \<and> c_name (obj b (the (b_clients b n))) = n"
  unfolding clients_ok_def by (metis domD option.sel)

lemma clients_ok_live: "clients_ok b \<Longrightarrow> live b c \<Longrightarrow> b_clients b (c_name (obj b c)) = Some c"
  by (simp add: clients_ok_def)

lemma client_infos_set:
  assumes "clients_ok b" and "set keys = dom (b_clients b)"
  shows "set (client_infos X re keys b) = (\<lambda>c. client_info_of X (obj b c)) ` {c. listed re b c}"
proof -
  have "c \<in> (\<lambda>n. the (b_clients b n)) ` set keys" if "live b c" for c
    using that assms by (intro image_eqI [of _ _ "c_name (obj b c)"]) (auto simp: clients_ok_live)
  with assms have "(\<lambda>n. the (b_clients b n)) ` set keys = {c. live b c}"
    using clients_ok_the [OF assms(1)] by auto
  then have "set (map (\<lambda>n. obj b (the (b_clients b n))) keys) = (\<lambda>c. obj b c) ` {c. live b c}"
    by (simp only: set_map) (metis image_image)
  then show ?thesis by (auto simp: client_infos_def listed_def)
qed

lemma sorted_client_infos: "sorted (map ci_name (client_infos X re keys b))"
proof -
  have "client_info_cmp = ci_name" by (simp add: fun_eq_iff client_info_cmp_def)
  then show ?thesis by (simp add: client_infos_def)
qed

lemma distinct_client_infos:
  assumes "clients_ok b" and "distinct keys" and "set keys = dom (b_clients b)"
  shows "distinct (map ci_name (client_infos X re keys b))"
proof -
  let ?ns = "map (\<lambda>n. c_name (obj b (the (b_clients b n)))) keys"
  have "?ns = keys" using assms(3) clients_ok_the [OF assms(1)] by (intro map_idI) simp
  then have "distinct (map c_name (map (\<lambda>n. obj b (the (b_clients b n))) keys))"
    using assms(2) by (simp add: comp_def)
  then have "distinct (map c_name (filter P (map (\<lambda>n. obj b (the (b_clients b n))) keys)))" for P
    by (rule distinct_map_filter)
  then have "distinct (map ci_name (map (client_info_of X) (filter P (map (\<lambda>n. obj b (the (b_clients b n))) keys))))" for P
    by (simp add: comp_def client_info_of_def)
  then show ?thesis unfolding client_infos_def distinct_map set_sort distinct_sort by blast
qed

text \<open>The instances of a primary client: the registered clients that have it as their primary.\<close>

lemma secondaries_registered:
  assumes "db_inv X smv bmv N b" and "live b c" and "c_primary (obj b c)"
  shows "set (c_secondaries (obj b c)) =
    {n \<in> dom (b_clients b). primary_of n = c_name (obj b c)} - {c_name (obj b c)}"
proof -
  from assms(1) have o: "objs_ok X N b" and cl: "clients_ok b" and or: "orphans_ok {} b" and se: "secs_ok {} b"
    by (simp_all add: db_inv_def db_inv_ex_def)
  have "n \<in> set (c_secondaries (obj b c))"
    if n: "b_clients b n = Some k" "primary_of n = c_name (obj b c)" "n \<noteq> c_name (obj b c)" for n k
  proof -
    have k: "live b k" "c_name (obj b k) = n" using cl n(1) by (auto simp: clients_ok_def)
    then have w: "c_primary_name (obj b k) = primary_of n" "\<not> c_primary (obj b k)"
      using objs_okD [OF o live_less [OF k(1)]] n by (auto simp: obj_wf_def)
    with or k obtain p where p: "b_clients b (primary_of n) = Some p" "n \<in> set (c_secondaries (obj b p))"
      by (auto simp: orphans_ok_def)
    with n(2) cl assms(2) have "p = c" using clients_ok_live [OF cl assms(2)] by simp
    with p show ?thesis by simp
  qed
  moreover have "n \<in> dom (b_clients b) \<and> primary_of n = c_name (obj b c) \<and> n \<noteq> c_name (obj b c)"
    if "n \<in> set (c_secondaries (obj b c))" for n
    using secs_okD [OF se live_less [OF assms(2)] _ that] by auto
  ultimately show ?thesis by blast
qed

lemma instances_registered:
  assumes "db_inv X smv bmv N b" and "live b c" and "c_primary (obj b c)" and "finite (dom (b_clients b))"
  shows "ci_instances (client_info_of X (obj b c)) = card {n \<in> dom (b_clients b). primary_of n = c_name (obj b c)}"
proof -
  have o: "objs_ok X N b" and cl: "clients_ok b" using assms(1) by (simp_all add: db_inv_def db_inv_ex_def)
  have "c_name (obj b c) \<in> dom (b_clients b)" using cl assms(2) by (auto simp: clients_ok_def)
  moreover have "primary_of (c_name (obj b c)) = c_name (obj b c)"
    using objs_okD [OF o live_less [OF assms(2)]] assms(3) by (simp add: obj_wf_def)
  ultimately have m: "c_name (obj b c) \<in> {n \<in> dom (b_clients b). primary_of n = c_name (obj b c)}" by simp
  have "card {n \<in> dom (b_clients b). primary_of n = c_name (obj b c)} = Suc (card (set (c_secondaries (obj b c))))"
    unfolding secondaries_registered [OF assms(1-3)] using assms(4) by (intro card.remove [OF _ m]) simp
  then show ?thesis by (simp add: client_info_of_def)
qed

text \<open>Every registered client is counted once.\<close>

lemma client_infos_total:
  assumes inv: "db_inv X smv bmv N b" and keys: "distinct keys" "set keys = dom (b_clients b)"
  shows "sum_list (map ci_instances (client_infos X None keys b)) = card (dom (b_clients b))"
proof -
  from inv have o: "objs_ok X N b" and cl: "clients_ok b" and or: "orphans_ok {} b"
    by (simp_all add: db_inv_def db_inv_ex_def)
  have fin: "finite (dom (b_clients b))" using keys(2) by (metis List.finite_set)
  let ?L = "client_infos X None keys b" and ?D = "dom (b_clients b)"
  have set: "set ?L = (\<lambda>c. client_info_of X (obj b c)) ` {c. live b c \<and> c_primary (obj b c)}"
    using client_infos_set [OF cl keys(2)] by (simp add: listed_def)
  have d: "distinct (map ci_name ?L)" by (rule distinct_client_infos [OF cl keys])
  have i: "ci_instances i = card {n \<in> ?D. primary_of n = ci_name i}" if "i \<in> set ?L" for i
    using that instances_registered [OF inv _ _ fin] by (auto simp: set client_info_of_def)
  have "primary_of ` ?D \<subseteq> ci_name ` set ?L"
  proof
    fix m assume "m \<in> primary_of ` ?D"
    then obtain n k where k: "live b k" "c_name (obj b k) = n" "m = primary_of n" using cl by (auto simp: clients_ok_def)
    have w: "obj_wf X (obj b k)" using objs_okD [OF o live_less [OF k(1)]] by simp
    obtain p where p: "live b p" "c_name (obj b p) = m"
    proof (cases "c_primary (obj b k)")
      case True
      then show ?thesis using that [of k] k w by (simp add: obj_wf_def)
    next
      case False
      with or k w show ?thesis using that cl by (auto simp: orphans_ok_def clients_ok_def obj_wf_def)
    qed
    have "primary_of m = m" by (simp add: k(3))
    with objs_okD [OF o live_less [OF p(1)]] p have "c_primary (obj b p)" by (simp add: obj_wf_def)
    with p show "m \<in> ci_name ` set ?L" by (force simp: set client_info_of_def)
  qed
  then have "card ?D = (\<Sum>m \<in> ci_name ` set ?L. card {n \<in> ?D. primary_of n = m})"
    using sum.group [OF fin, of "ci_name ` set ?L" primary_of "\<lambda>_. 1 :: nat"] by simp
  also have "\<dots> = (\<Sum>i \<in> set ?L. ci_instances i)"
    using d i by (subst sum.reindex) (auto simp: distinct_map)
  also have "\<dots> = sum_list (map ci_instances ?L)"
    using d by (simp add: distinct_map sum_list_distinct_conv_sum_set)
  finally show ?thesis by simp
qed

section \<open>What the FIFO commands do\<close>

text \<open>A word that can start a command for a target.\<close>

definition target_word :: "string \<Rightarrow> bool" where
  "target_word w \<longleftrightarrow> w \<noteq> [] \<and> CHR '' '' \<notin> set w \<and> hd w \<noteq> CHR ''='' \<and>
     (\<forall>r. strip_any white_space (w @ r) = None)"

lemma strip_any_head: "\<forall>v \<in> set ws. v \<noteq> [] \<longrightarrow> hd v \<noteq> x \<Longrightarrow> strip_any ws (x # r) = None"
  by (induction ws) (auto simp: prefix_Cons)

lemma target_wordI:
  assumes "x \<notin> set (map hd white_space)" and "x \<noteq> CHR ''=''" and "CHR '' '' \<notin> set (x # w)"
  shows "target_word (x # w)"
  using assms strip_any_head [of white_space x] by (auto simp: target_word_def)

lemma fifo_parse_words:
  assumes "target_word w" and "\<forall>v \<in> set ws. CHR '' '' \<notin> set v"
  shows "fifo_parse CC (w @ concat (map (Cons CHR '' '') ws)) = fifo_target CC (w # ws)"
proof -
  let ?line = "w @ concat (map (Cons CHR '' '') ws)"
  have "prefix (str_trim ?line) ?line" using assms(1) by (intro str_trim_head) (simp add: target_word_def)
  with assms(1) have "str_trim ?line = [] \<or> hd (str_trim ?line) \<noteq> CHR ''=''"
    by (cases "str_trim ?line"; cases w) (auto simp: target_word_def)
  moreover have "split_on CHR '' '' ?line = w # ws"
    using assms by (intro split_on_words) (simp_all add: target_word_def)
  ultimately show ?thesis by (auto simp: fifo_parse_def split: list.splits)
qed

lemma show_nat_plain: "c \<in> set (show_nat n) \<Longrightarrow> is_digit c"
  using show_nat_digits [of n] by (auto simp: show_nat_def list_all_iff)

lemma show_i64_no_space: "CHR '' '' \<notin> set (show_i64 w)"
proof -
  have "CHR '' '' \<notin> set (show_nat n)" for n using show_nat_plain [of "CHR '' ''" n] by (auto simp: is_digit_def)
  then show ?thesis by (simp add: show_i64_def show_int_def)
qed

text \<open>A parameter that is one word of a command.\<close>

fun param_word :: "string \<times> param \<Rightarrow> bool" where
  "param_word (k, v) \<longleftrightarrow> CHR ''='' \<notin> set k \<and> CHR '' '' \<notin> set k \<and> plain_param v \<and> CHR '' '' \<notin> set (show_param v)"

lemma fifo_parse_call:
  assumes "target_word w" and "CHR '' '' \<notin> set method" and "\<forall>p \<in> set kvs. param_word p"
    and "enc_params CC (map_of (rev kvs)) = Inr payload"
  shows "fifo_parse CC (w @ '' :'' @ method @ concat (map (\<lambda>p. '' '' @ show_pair p) kvs)) = Inr (FifoCall w method payload)"
proof -
  have "str_to_params_map (map show_pair kvs) = Inr (map_of (rev kvs))"
    using str_to_params_map_from_show [of kvs Map.empty] assms(3) by (force simp: str_to_params_map_def)
  moreover have "\<forall>v \<in> set ((CHR '':'' # method) # map show_pair kvs). CHR '' '' \<notin> set v"
    using assms(2,3) by (auto simp: show_pair_def)
  from fifo_parse_words [OF assms(1) this, of CC] have
    "fifo_parse CC (w @ '' :'' @ method @ concat (map (\<lambda>p. '' '' @ show_pair p) kvs)) =
      fifo_target CC (w # (CHR '':'' # method) # map show_pair kvs)"
    by (simp add: comp_def)
  ultimately show ?thesis using assms(4) by (simp add: fifo_target_def)
qed

lemma unlock_core_tx [simp]: "c_tx (obj (snd (unlock_core r)) c) = c_tx (obj (snd r) c)"
  by (auto simp: unlock_core_def split: prod.splits eff.splits)

lemma unlock_core_Done: "unlock_core (Done x, b) = (Done x, b\<lparr>b_rpc_locked := False, b_core_locked := False\<rparr>)"
  by (simp add: unlock_core_def)

context broker_libs
begin

text \<open>A call or notification that finds room: the frame the target gets carries header and payload.\<close>

lemma zc_client_send_room:
  assumes inv: "dbi N b" and t: "b_clients b (z_target z) = Some c" and room: "has_room chq chcap chclosed (c_tx (obj b c))"
  shows "\<exists>b' f. zc_client_send X k z b = (Done (make_confirm_channel (z_qos z)), b') \<and>
    chq (c_tx (obj b' c)) = chq (c_tx (obj b c)) @ [f] \<and> carries (z_header z) (z_payload z) f \<and>
    f_sender f = Some (c_name (obj b (k_bus k)))"
proof -
  let ?f = "frame_new KMessage (Some (c_name (obj b (k_bus k)))) None (Some (z_header z)) (z_payload z) 0 (is_realtime (z_qos z))"
  have nf: "\<not> ch_is_full X (c_tx (obj b c))" using room by (simp add: has_room_def ch_is_full)
  obtain b' where "send_msg X (announce X) (k_bus k) (z_target z) (Some (z_header z)) (z_payload z) 0
      (word_of_nat (length (z_payload z) + length (z_header z))) (is_realtime (z_qos z)) None b =
      (Done (send_result chq chcap chclosed (c_tx (obj b c))), b')"
    and q: "offered chq chcap chclosed ?f (c_tx (obj b c)) (c_tx (obj b' c))"
    using send_msg_offered [OF inv t, of "k_bus k" "Some (z_header z)" "z_payload z" 0
      "word_of_nat (length (z_payload z) + length (z_header z))" "is_realtime (z_qos z)" None] nf by blast
  moreover have "carries (z_header z) (z_payload z) ?f"
    by (simp add: carries_def frame_new_def frame_payload_def)
  moreover have "f_sender ?f = Some (c_name (obj b (k_bus k)))" by (simp add: frame_new_def)
  ultimately show ?thesis
    using room
    by (auto simp: zc_client_send_def client_zc_send_def act_then_def try_result_def send_result_def offered_def)
qed

lemma send_fifo_call:
  assumes inv: "dbi N b" and core: "b_rpc_client b = Some k" and free: "\<not> b_rpc_locked b" "\<not> b_core_locked b"
    and t: "b_clients b w = Some c" and room: "has_room chq chcap chclosed (c_tx (obj b c))"
    and parse: "fifo_parse CC line = Inr (FifoCall w method payload)"
  shows "\<exists>b' f. send_fifo_cmd CC X line b = (Done (), b') \<and> \<not> b_rpc_locked b' \<and>
    chq (c_tx (obj b' c)) = chq (c_tx (obj b c)) @ [f] \<and>
    carries (prepare_call_payload method (le32 0)) payload f \<and> f_sender f = Some (c_name (obj b k))"
proof -
  let ?b = "b\<lparr>b_rpc_locked := True, b_core_locked := True\<rparr>" and ?z = "rpc_call0 w method (Owned payload) QosNo"
  have "dbi N ?b" using inv by simp
  moreover have "b_clients ?b (z_target ?z) = Some c" "has_room chq chcap chclosed (c_tx (obj ?b c))"
    using t room by (simp_all add: rpc_call0_def)
  ultimately obtain b' f where "zc_client_send X (core_client k b) ?z ?b = (Done (make_confirm_channel (z_qos ?z)), b')"
    "chq (c_tx (obj b' c)) = chq (c_tx (obj b c)) @ [f]" "carries (z_header ?z) (z_payload ?z) f"
    "f_sender f = Some (c_name (obj b k))"
    using zc_client_send_room [of N ?b ?z c "core_client k b"] by (auto simp: core_client_def)
  moreover have "le32 0 = [0, 0, 0, 0]" by (simp add: le32_def)
  ultimately show ?thesis
    using core free parse by (auto simp: send_fifo_cmd_def act_then_def unlock_core_Done rpc_call0_def)
qed

text \<open>A message to a slow consumer: its unregistration is announced, which needs the mutex the command holds.\<close>

lemma send_fifo_blocks:
  assumes core: "b_rpc_client b = Some k" and free: "\<not> b_rpc_locked b" "\<not> b_core_locked b"
    and t: "b_clients b w = Some c" and blocks: "blocks X b c" and parse: "fifo_parse CC line = Inr (FifoSend w msg)"
  shows "\<exists>b'. send_fifo_cmd CC X line b = (Pending, b') \<and> b_rpc_locked b'"
proof -
  let ?b = "b\<lparr>b_rpc_locked := True, b_core_locked := True\<rparr>"
  let ?p = "as_bytes msg"
  let ?w = "db_w 1 (word_of_nat (length msg)) (client_w c (word_of_nat (length msg))
    (count_r k (word_of_nat (length msg)) ?b))"
  have "blocks X ?w c" "b_rpc_locked ?w" using blocks by (simp_all add: blocks_def)
  then have "unregister_client_with X (announce X) c ?w = (Pending, drop_client X c ?w)"
    by (simp add: unregister_client_with_def blocks_def Let_def log_err_def announce_locked)
  with \<open>blocks X ?w c\<close> have "safe_send_frame X (announce X) None c f ?w = (Pending, drop_client X c ?w)" for f
    by (simp add: safe_send_frame_def blocks_def act_then_def)
  with t have "client_send X (core_client k b) w (Borrowed ?p) QosNo ?b = (Pending, drop_client X c ?w)"
    by (simp add: client_send_def send_msg_def act_then_def core_client_def Let_def)
  moreover have "b_rpc_locked (drop_client X c ?w)" using \<open>b_rpc_locked ?w\<close> by simp
  ultimately show ?thesis
    using core free parse by (simp add: send_fifo_cmd_def act_then_def unlock_core_def)
qed

end

end
