(* ===== verification/Bus_System.thy ===== *)
theory Bus_System
  imports Bus_Traffic Bus_CoreRpc
begin

text \<open>
  The broker as a state machine: every operation of the broker and of its clients, by whatever task it is
  run, is a step; the steps of different tasks interleave.  The registry invariant holds in every state
  that can be reached.
\<close>

section \<open>Environments\<close>

text \<open>Each step has its own clock reading and its own way for waiting sends to end.\<close>

definition at_time :: "u64 \<Rightarrow> (cid \<Rightarrow> waited) \<Rightarrow> ('sm, 'bm, 'am, 'ch) ctx \<Rightarrow> ('sm, 'bm, 'am, 'ch) ctx" where
  "at_time t w X = X\<lparr>now_ns := t, waits := w\<rparr>"

lemma at_time_db_inv: "db_inv (at_time t w X) smv bmv N b \<longleftrightarrow> db_inv X smv bmv N b"
  by (simp add: at_time_def db_inv_def db_inv_ex_def objs_ok_def obj_wf_def)

lemma at_time_libs:
  assumes "broker_libs X smv topic_match bmv name_match amv acl_match chq chcap chclosed"
  shows "broker_libs (at_time t w X) smv topic_match bmv name_match amv acl_match chq chcap chclosed"
  using assms unfolding broker_libs_def sub_map_def broadcast_map_def acl_map_def bounded_channel_def at_time_def
  by simp

section \<open>Steps\<close>

text \<open>
  A task runs for a client that exists, a reader processes the frames it reads, and a queue has room for
  at least one frame: \<open>async_channel::bounded\<close> panics on 0.
\<close>

inductive broker_step ::
  "('sm, 'bm, 'am, 'ch) ctx \<Rightarrow> string set \<Rightarrow> ('sm, 'bm, 'am, 'ch) broker \<Rightarrow> ('sm, 'bm, 'am, 'ch) broker \<Rightarrow> bool"
  for X :: "('sm, 'bm, 'am, 'ch) ctx" and N :: "string set" where
  step_register: "name \<in> N \<Longrightarrow> 0 < queue_size \<Longrightarrow>
    broker_step X N b (snd (broker_register_client (at_time t w X) queue_size name b))"
| step_peer: "name \<in> N \<Longrightarrow> 0 < pp_queue_size PP \<Longrightarrow>
    broker_step X N b (fst (snd (peer_register (at_time t w X) wres PP name (b, out))))"
| step_unregister: "broker_step X N b (snd (unregister_client (at_time t w X) c b))"
| step_drop: "broker_step X N b (drop_client X c b)"
| step_frame: "c < length (b_objs b) \<Longrightarrow> read_client_frame P (c_name (obj b c)) s = InFrame op_id op qos len buf s' \<Longrightarrow>
    broker_step X N b (snd (handle_frame (at_time t w X) P c op_id op qos len buf b))"
| step_pinger: "broker_step X N b (snd (pinger_turn (at_time t w X) c b))"
| step_receive: "broker_step X N b (upd_obj c (\<lambda>cl. cl\<lparr>c_tx := ch_drain X n (c_tx cl)\<rparr>) b)"
| step_close: "broker_step X N b (upd_obj c (\<lambda>cl. cl\<lparr>c_tx := ch_close X (c_tx cl)\<rparr>) b)"
| step_send: "k_bus k < length (b_objs b) \<Longrightarrow>
    broker_step X N b (snd (client_send (at_time t w X) k target p qos b))"
| step_zc_send: "k_bus k < length (b_objs b) \<Longrightarrow>
    broker_step X N b (snd (client_zc_send (at_time t w X) k target h p qos b))"
| step_send_broadcast: "k_bus k < length (b_objs b) \<Longrightarrow>
    broker_step X N b (snd (client_send_broadcast (at_time t w X) k target p qos b))"
| step_publish: "k_bus k < length (b_objs b) \<Longrightarrow>
    broker_step X N b (snd (client_publish (at_time t w X) k topic p qos b))"
| step_publish_for: "k_bus k < length (b_objs b) \<Longrightarrow>
    broker_step X N b (snd (client_publish_for (at_time t w X) k topic receiver p qos b))"
| step_subscribe: "broker_step X N b (snd (client_subscribe_bulk X k topics qos b))"
| step_unsubscribe: "broker_step X N b (snd (client_unsubscribe_bulk X k topics qos b))"
| step_exclude: "broker_step X N b (snd (client_exclude_bulk X k topics qos b))"
| step_unexclude: "broker_step X N b (snd (client_unexclude_bulk X k topics qos b))"
| step_disconnect: "broker_step X N b (snd (force_disconnect name b))"
| step_announce: "broker_step X N b (snd (broker_announce (at_time t w X) ev b))"
| step_fifo: "broker_step X N b (snd (send_fifo_cmd CC (at_time t w X) line b))"
| step_core_rpc: "c < length (b_objs b) \<Longrightarrow> broker_step X N b (snd (set_core_rpc_client c b))"

inductive broker_reachable ::
  "('sm, 'bm, 'am, 'ch) ctx \<Rightarrow> string set \<Rightarrow> ('sm, 'bm, 'am, 'ch) broker \<Rightarrow> bool"
  for X :: "('sm, 'bm, 'am, 'ch) ctx" and N :: "string set" where
  reach_init: "broker_reachable X N (broker_create X force)"
| reach_step: "broker_reachable X N b \<Longrightarrow> broker_step X N b b' \<Longrightarrow> broker_reachable X N b'"

inductive_cases broker_stepE: "broker_step X N b b'"

section \<open>Every step keeps the invariant\<close>

context broker_libs
begin

lemma broker_register_client_inv:
  assumes "dbi N b" and "name \<in> N"
  shows "dbi N (snd (broker_register_client X queue_size name b))"
proof -
  let ?cl = "bus_client_new X name (primary_of name) queue_size Internal None None"
  let ?b = "snd (alloc ?cl b)"
  have "dbi N ?b"
    by (rule alloc_inv [OF assms(1) bus_client_new_wf]) (simp_all add: bus_client_new_def assms(2))
  then have "dbi N (snd (register_client X (length (b_objs b)) ?b))"
    by (rule register_client_inv) (simp_all add: alloc_simps bus_client_new_def)
  then show ?thesis
    by (auto simp: broker_register_client_def alloc_simps act_then_def prod.case_eq_if split: eff.splits)
qed

lemma pinger_turn_inv: "dbi N b \<Longrightarrow> dbi N (snd (pinger_turn X c b))"
proof -
  assume b: "dbi N b"
  obtain r b' where s: "channel_send X c new_nop b = (r, b')" by force
  then have "dbi N b'" using b same_registry_inv [OF same_registry_channel_send [of b X c new_nop]] by simp
  with b show ?thesis by (auto simp: pinger_turn_def s split: option.splits sum.splits)
qed

lemma try_result_inv: "dbi N b \<Longrightarrow> dbi N (snd (try_result qos r b))"
  by (auto simp: try_result_def split: sum.splits)

lemma client_routes_inv:
  assumes "dbi N b"
  shows "dbi N (snd (client_send X k target p qos b))"
    and "dbi N (snd (client_zc_send X k target h p qos b))"
    and "dbi N (snd (client_send_broadcast X k target p qos b))"
    and "dbi N (snd (client_publish X k topic p qos b))"
    and "dbi N (snd (client_publish_for X k topic receiver p qos b))"
proof -
  note rules = dbinv.send_msg_keeps dbinv.send_broadcast_keeps dbinv.publish_keeps dbinv.publish_for_keeps
    dbinv.announce_keeps try_result_inv
  show "dbi N (snd (client_send X k target p qos b))"
    unfolding client_send_def using assms by (rule act_then_keeps) (simp_all add: rules)
  show "dbi N (snd (client_zc_send X k target h p qos b))"
    unfolding client_zc_send_def using assms by (rule act_then_keeps) (simp_all add: rules)
  show "dbi N (snd (client_send_broadcast X k target p qos b))"
    unfolding client_send_broadcast_def using assms by (rule act_then_keeps) (simp_all add: rules)
  show "dbi N (snd (client_publish X k topic p qos b))"
    unfolding client_publish_def using assms by (rule act_then_keeps) (simp_all add: rules)
  show "dbi N (snd (client_publish_for X k topic receiver p qos b))"
    unfolding client_publish_for_def using assms by (rule act_then_keeps) (simp_all add: rules)
qed

lemma client_subscribe_bulk_inv: "dbi N b \<Longrightarrow> dbi N (snd (client_subscribe_bulk X k topics qos b))"
proof (induction topics arbitrary: b)
  case (Cons t ts)
  obtain ok m where s: "sm_subscribe X t (cref_of b (k_bus k)) (b_subscriptions b) = (ok, m)" by force
  then have "dbi N (b\<lparr>b_subscriptions := m\<rparr>)"
    using subs_ok_masks [OF Cons.prems, of m] smv_subscribe_dom [of t "cref_of b (k_bus k)" "b_subscriptions b"] by simp
  with Cons.IH s show ?case by (simp add: Let_def)
qed simp

lemma client_unsubscribe_bulk_inv: "dbi N b \<Longrightarrow> dbi N (snd (client_unsubscribe_bulk X k topics qos b))"
proof (induction topics arbitrary: b)
  case (Cons t ts)
  obtain ok m where s: "sm_unsubscribe X t (cref_of b (k_bus k)) (b_subscriptions b) = (ok, m)" by force
  then have "dbi N (b\<lparr>b_subscriptions := m\<rparr>)"
    using subs_ok_masks [OF Cons.prems, of m] smv_unsubscribe_dom [of t "cref_of b (k_bus k)" "b_subscriptions b"] by simp
  with Cons.IH s show ?case by (simp add: Let_def)
qed simp

lemma same_obj_fold_excl:
  "same_obj cl (fold (excl_insert X) ts cl')" "same_obj cl (fold (excl_remove X) ts cl')"
  if "same_obj cl cl'" for cl cl' :: "('am, 'ch) bus_client"
  using that
  by (induction ts arbitrary: cl') (simp_all add: same_obj_def excl_insert_def excl_remove_def)

lemma client_exclude_bulk_inv:
  assumes "dbi N b"
  shows "dbi N (snd (client_exclude_bulk X k topics qos b))" "dbi N (snd (client_unexclude_bulk X k topics qos b))"
proof -
  have "same_obj cl (excl_settle X (fold (excl_remove X) topics cl))" for cl :: "('am, 'ch) bus_client"
    using same_obj_fold_excl(2) [of cl cl topics] by (simp add: excl_settle_def same_obj_def)
  then have "same_registry b (upd_obj (k_bus k) (\<lambda>cl. excl_settle X (fold (excl_remove X) topics cl)) b)"
    by (rule same_registry_upd_obj)
  then show "dbi N (snd (client_unexclude_bulk X k topics qos b))"
    using assms by (simp add: client_unexclude_bulk_def same_registry_inv)
  have "same_obj cl (fold (excl_insert X) topics (if topics \<noteq> [] then cl\<lparr>c_has_exclusions := True\<rparr> else cl))"
    for cl :: "('am, 'ch) bus_client"
    by (rule same_obj_fold_excl(1)) (simp add: same_obj_def)
  then have "same_registry b (upd_obj (k_bus k) (\<lambda>cl. fold (excl_insert X) topics
      (if topics \<noteq> [] then cl\<lparr>c_has_exclusions := True\<rparr> else cl)) b)"
    by (rule same_registry_upd_obj)
  then show "dbi N (snd (client_exclude_bulk X k topics qos b))"
    using assms unfolding client_exclude_bulk_def snd_conv by (simp only: same_registry_inv)
qed

lemma force_disconnect_inv: "dbi N b \<Longrightarrow> dbi N (snd (force_disconnect name b))"
  by (auto simp: force_disconnect_def trigger_disconnect_def db_inv_def split: option.splits)

lemma set_core_rpc_client_inv: "dbi N b \<Longrightarrow> dbi N (snd (set_core_rpc_client c b))"
  by (simp add: set_core_rpc_client_def)

lemma broker_announce_inv: "dbi N b \<Longrightarrow> dbi N (snd (broker_announce X ev b))"
  using dbinv.announce_keeps [of N] by (simp add: broker_announce_def ann_keeps_def)

lemma send_fifo_cmd_inv: "dbi N b \<Longrightarrow> dbi N (snd (send_fifo_cmd CC X line b))"
proof -
  assume b: "dbi N b"
  then have "dbi N (snd (fifo_exec X k cmd b'))" if "dbi N b'" for k cmd b'
    using that by (cases cmd) (simp_all add: zc_client_send_def client_routes_inv)
  with b show ?thesis
    by (auto simp: send_fifo_cmd_def intro!: dbinv.unlock_core_keeps act_then_keeps [where P = "dbi N"]
        split: option.splits sum.splits)
qed

lemmas step_invs = broker_register_client_inv dbinv.unregister_client_keeps drop_client_inv
  handle_frame_inv pinger_turn_inv client_routes_inv client_subscribe_bulk_inv client_unsubscribe_bulk_inv
  client_exclude_bulk_inv force_disconnect_inv set_core_rpc_client_inv broker_announce_inv send_fifo_cmd_inv

lemma broker_create_inv: "inj_on (sha256 X) N \<Longrightarrow> dbi N (broker_create X force)"
proof -
  assume "inj_on (sha256 X) N"
  then have "dbi N (broker_db_default X)" by (rule broker_db_default_inv)
  moreover have "same_registry (broker_db_default X) (broker_create X force)"
    by (simp add: same_registry_def broker_create_def list_all2_refl)
  ultimately show ?thesis using same_registry_inv by blast
qed

end

lemma broker_step_inv:
  assumes libs: "broker_libs X smv topic_match bmv name_match amv acl_match chq chcap chclosed"
    and step: "broker_step X N b b'" and inv: "db_inv X smv bmv N b"
  shows "db_inv X smv bmv N b'"
proof -
  note L = broker_libs.step_invs [OF at_time_libs [OF libs], unfolded at_time_db_inv, OF inv]
  note I = broker_libs.step_invs [OF libs, OF inv]
  have fst_inv: "db_inv X smv bmv N (fst (b, out))" for out :: "bytes list" using inv by simp
  from step show ?thesis
  proof cases
    case (step_peer name t w wres PP out)
    then show ?thesis
      using broker_libs.peer_register_inv [OF at_time_libs [OF libs], unfolded at_time_db_inv, OF fst_inv] by simp
  qed (use inv in \<open>simp_all add: L I\<close>)
qed

lemma reachable_db_inv:
  assumes "broker_libs X smv topic_match bmv name_match amv acl_match chq chcap chclosed"
    and "inj_on (sha256 X) N" and "broker_reachable X N b"
  shows "db_inv X smv bmv N b"
  using assms(3)
proof induction
  case (reach_init force)
  show ?case using broker_libs.broker_create_inv [OF assms(1,2)] .
next
  case (reach_step b b')
  then show ?case using broker_step_inv [OF assms(1)] by blast
qed

section \<open>Every step keeps a property of the traffic\<close>

lemma read_client_frame_op_id: "read_client_frame P name s = InFrame op_id op qos len buf s' \<Longrightarrow> length op_id = 4"
  by (auto simp: read_client_frame_def Let_def read_exact_Got split: read_result.splits sum.splits option.splits if_splits)

context traffic_invariant
begin

lemma send_fifo_cmd_Q: "Q b \<Longrightarrow> Q (snd (send_fifo_cmd CC X line b))"
proof -
  assume b: "Q b"
  have e: "Q (snd (fifo_exec X k cmd b'))" if "Q b'" "k_bus k < length (b_objs b')" for k cmd b'
    using that by (cases cmd) (simp_all add: zc_client_send_def client_routes_Q)
  have "Q (snd (act_then (fifo_exec X (core_client c b) cmd) (\<lambda>_ b'. (Done (), b'))
      (b\<lparr>b_rpc_locked := True, b_core_locked := True\<rparr>)))" if "b_rpc_client b = Some c" for c cmd
    using e [of "b\<lparr>b_rpc_locked := True, b_core_locked := True\<rparr>" "core_client c b" cmd] Q_core [OF b that] b
    by (cases "fifo_exec X (core_client c b) cmd (b\<lparr>b_rpc_locked := True, b_core_locked := True\<rparr>)")
       (auto simp: act_then_def core_client_def split: eff.splits)
  with b show ?thesis
    by (auto simp: send_fifo_cmd_def intro!: unlock_core_Q split: option.splits sum.splits)
qed

end

lemma broker_step_traffic:
  assumes inv: "\<And>t w. traffic_invariant (at_time t w X) N Q" and step: "broker_step X N b b'" and Q: "Q b"
  shows "Q b'"
proof -
  have inv': "traffic_invariant X N Q" using inv [of "now_ns X" "waits X"] by (simp add: at_time_def)
  note L = traffic_invariant.broker_register_client_Q [OF inv] traffic_invariant.unregister_client_Q [OF inv]
    traffic_invariant.pinger_turn_Q [OF inv] traffic_invariant.client_routes_Q [OF inv]
    traffic_invariant.announce_QD [OF inv] traffic_invariant.send_fifo_cmd_Q [OF inv] traffic_invariant.Q_same [OF inv'] traffic_invariant.Q_set_core [OF inv']
    traffic_invariant.Q_drain [OF inv'] traffic_invariant.Q_close [OF inv']
  from step show ?thesis
  proof cases
    case (step_peer name PP t w wres out)
    then show ?thesis using traffic_invariant.peer_register_Q [OF inv, where s = "(b, out)"] Q by simp
  next
    case (step_frame c P s op_id op qos len buf s' t w)
    then show ?thesis
      using traffic_invariant.handle_frame_Q [OF inv Q] read_client_frame_op_id by blast
  qed (use Q in \<open>simp_all add: L broker_announce_def set_core_rpc_client_def\<close>)
qed

lemma reachable_traffic:
  assumes "\<And>t w. traffic_invariant (at_time t w X) N Q" and "\<And>force. Q (broker_create X force)"
    and "broker_reachable X N b"
  shows "Q b"
  using assms(3) by (induction rule: broker_reachable.induct) (use assms(1,2) broker_step_traffic in blast)+

lemma wiring_create: "wiring N (broker_create X force)"
  by (simp add: wiring_def broker_create_def broker_db_default_def)

lemma bounded_channel_at_time: "bounded_channel X chq chcap chclosed \<Longrightarrow> bounded_channel (at_time t w X) chq chcap chclosed"
  unfolding bounded_channel_def at_time_def by simp

lemma reachable_queues_sound:
  assumes "bounded_channel X chq chcap chclosed" and "broker_reachable X N b"
  shows "queues_sound chq N b"
  by (rule reachable_traffic [OF bounded_channel.queues_traffic [OF bounded_channel_at_time [OF assms(1)]] _ assms(2)])
     (simp add: queues_sound_def wiring_create, simp add: broker_create_def broker_db_default_def)

lemma reachable_counters_ok:
  assumes "broker_reachable X N b"
  shows "counters_ok N b"
  by (rule reachable_traffic [OF counters.traffic_invariant_axioms _ assms])
     (simp add: counters_ok_def wiring_create, simp add: broker_create_def broker_db_default_def)

end
