(* ===== verification/Bus_Session.thy ===== *)
theory Bus_Session
  imports Bus_System
begin

text \<open>
  The session of a connected client: the \<open>select!\<close> of \<open>handle_peer\<close> (\<open>src/src/broker.rs\<close>), which runs the reader,
  the writer and the pinger of the client beside the other tasks of the broker until one of them ends or the
  client is disconnected.  A session is a step relation; a step is a turn of one task.  The frames that are
  ever queued for the client and the ones its writer has taken are recorded as ghost state.
\<close>

section \<open>First in, first out\<close>

text \<open>
  What a step does to the queue of a client: \<open>A\<close> is queued behind what is there and \<open>D\<close> is taken from the front.
\<close>

definition queue_moves ::
  "('ch \<Rightarrow> frame list) \<Rightarrow> string set \<Rightarrow> cid \<Rightarrow> ('sm, 'bm, 'am, 'ch) broker \<Rightarrow> frame list \<Rightarrow> frame list
     \<Rightarrow> ('sm, 'bm, 'am, 'ch) broker \<Rightarrow> bool" where
  "queue_moves chq N c b A D b' \<longleftrightarrow>
     chq (c_tx (obj b c)) @ A = D @ chq (c_tx (obj b' c)) \<and> (\<forall>f \<in> set A. sound_frame N f)"

text \<open>A queue that was \<open>q\<close> may be \<open>q'\<close> now.\<close>

definition shifts :: "string set \<Rightarrow> frame list \<Rightarrow> frame list \<Rightarrow> bool" where
  "shifts N q q' \<longleftrightarrow> (\<exists>A D. q @ A = D @ q' \<and> (\<forall>f \<in> set A. sound_frame N f))"

lemma shiftsI: "q @ A = D @ q' \<Longrightarrow> \<forall>f \<in> set A. sound_frame N f \<Longrightarrow> shifts N q q'"
  by (auto simp: shifts_def)

lemma shifts_append: "sound_frame N f \<Longrightarrow> shifts N q (q @ [f])"
  by (rule shiftsI [of _ "[f]" "[]"]) simp_all

lemma shifts_drop: "shifts N q (drop n q)"
  by (rule shiftsI [of _ "[]" "take n q"]) simp_all

lemmas shifts_refl [simp] = shifts_drop [where n = 0, simplified]

lemma shifts_trans:
  assumes "shifts N q q'" and "shifts N q' q''"
  shows "shifts N q q''"
proof -
  obtain A D where 1: "q @ A = D @ q'" "\<forall>f \<in> set A. sound_frame N f" using assms(1) by (auto simp: shifts_def)
  obtain A' D' where 2: "q' @ A' = D' @ q''" "\<forall>f \<in> set A'. sound_frame N f" using assms(2) by (auto simp: shifts_def)
  have "q @ A @ A' = (D @ D') @ q''" using 1(1) 2(1) by (metis append.assoc)
  then show ?thesis by (rule shiftsI) (use 1(2) 2(2) in auto)
qed

text \<open>Every operation does nothing else to a queue: this is an invariant of the traffic.\<close>

definition fifo_from ::
  "('ch \<Rightarrow> frame list) \<Rightarrow> string set \<Rightarrow> cid \<Rightarrow> frame list \<Rightarrow> ('sm, 'bm, 'am, 'ch) broker \<Rightarrow> bool" where
  "fifo_from chq N c q b \<longleftrightarrow> wiring N b \<and> c < length (b_objs b) \<and> shifts N q (chq (c_tx (obj b c)))"

context bounded_channel
begin

lemma shifts_tx:
  "shifts N (chq ch) (chq (ch_close X ch))" "shifts N (chq ch) (chq (ch_drain X n ch))"
  "ch_send X f ch = Sent ch' \<Longrightarrow> sound_frame N f \<Longrightarrow> shifts N (chq ch) (chq ch')"
  "ch_send X f (ch_drain X n ch) = Sent ch' \<Longrightarrow> sound_frame N f \<Longrightarrow> shifts N (chq ch) (chq ch')"
proof -
  show "shifts N (chq ch) (chq (ch_close X ch))" by (simp add: ch_close)
  show d: "shifts N (chq ch) (chq (ch_drain X n ch))" for ch by (simp add: ch_drain shifts_drop)
  show s: "shifts N (chq ch) (chq ch')" if "ch_send X f ch = Sent ch'" "sound_frame N f" for ch
    using that ch_send_Sent [of f ch ch'] shifts_append by auto
  show "shifts N (chq ch) (chq ch')" if "ch_send X f (ch_drain X n ch) = Sent ch'" "sound_frame N f"
    using shifts_trans [OF d s [OF that]] .
qed

lemma fifo_upd_tx:
  assumes q: "fifo_from chq N c q b" and w: "shifts N (chq (c_tx (obj b k))) (chq (g (obj b k)))"
  shows "fifo_from chq N c q (upd_obj k (\<lambda>cl. cl\<lparr>c_tx := g cl\<rparr>) b)"
proof -
  have "shifts N q (chq (c_tx (obj (upd_obj k (\<lambda>cl. cl\<lparr>c_tx := g cl\<rparr>) b) c)))"
    using q w shifts_trans [of N q "chq (c_tx (obj b c))" "chq (g (obj b c))"]
    by (auto simp: fifo_from_def upd_obj_def nth_upd)
  with q show ?thesis by (simp add: fifo_from_def wiring_upd_obj)
qed

lemma fifo_channel_send:
  assumes q: "fifo_from chq N c q b" and f: "sound_frame N f"
  shows "fifo_from chq N c q (snd (channel_send X k f b))"
proof -
  note sent = fifo_upd_tx [OF q, of k, where g = "\<lambda>_. ch" for ch]
  show ?thesis
    using q sent [OF shifts_tx(3) [OF _ f]] sent [OF shifts_tx(4) [OF _ f]] 
      fifo_upd_tx [OF q, of k "\<lambda>cl. ch_close X (c_tx cl)"] shifts_tx(1) [of N "c_tx (obj b k)"]
    by (auto simp: channel_send_def split: send_poll.splits waited.splits)
qed

end

sublocale bounded_channel \<subseteq> fifo: traffic_invariant X N "fifo_from chq N c q" for N c q
proof unfold_locales
  fix b b' :: "('sm, 'bm, 'am, 'ch) broker" and k len f n name p kind src port
  show "fifo_from chq N c q b'" if "traffic b = traffic b'" "fifo_from chq N c q b"
    using that wiring_traffic [of b b' N] traffic_objD(1) [of b b'] traffic_objD(5) [of b b' c]
    by (simp add: fifo_from_def)
  show "c_name (obj b k) \<in> N" if "fifo_from chq N c q b" "k < length (b_objs b)"
    using that by (simp add: fifo_from_def wiring_def)
  show "k < length (b_objs b)" if "fifo_from chq N c q b" "b_rpc_client b = Some k"
    using that by (simp add: fifo_from_def wiring_def)
  show "fifo_from chq N c q (count_r k len b)" if "fifo_from chq N c q b"
  proof -
    have "c_tx (obj (count_r k len b) c) = c_tx (obj b c)" by (simp add: count_r_def upd_obj_def nth_upd Let_def)
    with that show ?thesis by (simp add: fifo_from_def wiring_count_r)
  qed
  show "fifo_from chq N c q (snd (channel_send X k f b))" if "fifo_from chq N c q b" "sound_frame N f"
    using that by (rule fifo_channel_send)
  show "fifo_from chq N c q (upd_obj k (\<lambda>cl. cl\<lparr>c_tx := ch_close X (c_tx cl)\<rparr>) b)"
    "fifo_from chq N c q (upd_obj k (\<lambda>cl. cl\<lparr>c_tx := ch_drain X n (c_tx cl)\<rparr>) b)" if "fifo_from chq N c q b"
    by (rule fifo_upd_tx [OF that], rule shifts_tx)+
  show "fifo_from chq N c q (snd (alloc (bus_client_new X name p n kind src port) b))"
    if "fifo_from chq N c q b" "name \<in> N"
    using that by (simp add: fifo_from_def wiring_alloc bus_client_new_def) (simp add: alloc_def nth_append)
  show "fifo_from chq N c q (b\<lparr>b_rpc_client := Some k\<rparr>)" if "fifo_from chq N c q b" "k < length (b_objs b)"
    using that by (simp add: fifo_from_def wiring_core)
qed

context bounded_channel
begin

lemma fifo_traffic: "traffic_invariant X N (fifo_from chq N c q)"
  by (rule fifo.traffic_invariant_axioms)

end

lemma broker_step_moves:
  assumes "bounded_channel X chq chcap chclosed" and "wiring N b" and "c < length (b_objs b)" and "broker_step X N b b'"
  shows "wiring N b' \<and> c < length (b_objs b') \<and> (\<exists>A D. queue_moves chq N c b A D b')"
proof -
  have "fifo_from chq N c (chq (c_tx (obj b c))) b" using assms(2,3) by (simp add: fifo_from_def)
  then have "fifo_from chq N c (chq (c_tx (obj b c))) b'"
    by (rule broker_step_traffic [OF bounded_channel.fifo_traffic [OF bounded_channel_at_time [OF assms(1)]] assms(4)])
  then show ?thesis by (auto simp: fifo_from_def shifts_def queue_moves_def)
qed

section \<open>Sessions\<close>

text \<open>
  A task that waits for ever takes no more turns.  The writer has its frames one by one; \<open>ss_written\<close> of those it
  took are written.  A panic of the writer is one of the whole task.
\<close>

datatype session_state = Running | Ended session_end | Panicked

record ('sm, 'bm, 'am, 'ch) session =
  ss_broker :: "('sm, 'bm, 'am, 'ch) broker"
  ss_stream :: stream
  ss_queued :: "frame list"
  ss_taken :: "frame list"
  ss_written :: nat
  ss_out :: "(bytes \<times> Flush) list"
  ss_reader :: bool
  ss_pinger :: bool
  ss_state :: session_state

definition session_start :: "('ch \<Rightarrow> frame list) \<Rightarrow> cid \<Rightarrow> stream \<Rightarrow> ('sm, 'bm, 'am, 'ch) broker
     \<Rightarrow> ('sm, 'bm, 'am, 'ch) session" where
  "session_start chq c str b = \<lparr>ss_broker = b, ss_stream = str, ss_queued = chq (c_tx (obj b c)), ss_taken = [],
     ss_written = 0, ss_out = [], ss_reader = True, ss_pinger = True, ss_state = Running\<rparr>"

definition moved ::
  "frame list \<Rightarrow> frame list \<Rightarrow> ('sm, 'bm, 'am, 'ch) broker \<Rightarrow> ('sm, 'bm, 'am, 'ch) session
     \<Rightarrow> ('sm, 'bm, 'am, 'ch) session" where
  "moved A D b s = s\<lparr>ss_broker := b, ss_queued := ss_queued s @ A, ss_taken := ss_taken s @ D\<rparr>"

fun reader_after ::
  "(error, unit) eff \<Rightarrow> ('sm, 'bm, 'am, 'ch) session \<Rightarrow> ('sm, 'bm, 'am, 'ch) session" where
  "reader_after (Done _) s = s"
| "reader_after (Bail e) s = s\<lparr>ss_state := Ended (ReaderEnd (Inl e))\<rparr>"
| "reader_after Pending s = s\<lparr>ss_reader := False\<rparr>"

fun pinger_after ::
  "(error, unit) eff \<Rightarrow> ('sm, 'bm, 'am, 'ch) session \<Rightarrow> ('sm, 'bm, 'am, 'ch) session" where
  "pinger_after (Done _) s = s"
| "pinger_after (Bail e) s = s\<lparr>ss_state := Ended (PingerEnd (Inl e))\<rparr>"
| "pinger_after Pending s = s\<lparr>ss_pinger := False\<rparr>"

fun writer_after ::
  "(error, unit) eff \<Rightarrow> bool \<Rightarrow> ('sm, 'bm, 'am, 'ch) session \<Rightarrow> ('sm, 'bm, 'am, 'ch) session" where
  "writer_after (Done _) panics s =
     (if panics then s\<lparr>ss_state := Panicked\<rparr> else s\<lparr>ss_written := Suc (ss_written s)\<rparr>)"
| "writer_after (Bail e) panics s = s\<lparr>ss_state := Ended (WriterEnd (Inl e))\<rparr>"
| "writer_after Pending panics s = s"

text \<open>
  The other tasks of the broker do not take frames from the queue of the client.  A write of the broker ends
  within its timeout.
\<close>

inductive session_step ::
  "('sm, 'bm, 'am, 'ch) ctx \<Rightarrow> ('ch \<Rightarrow> frame list) \<Rightarrow> ('ch \<Rightarrow> bool) \<Rightarrow> string set \<Rightarrow> 'am reader_params \<Rightarrow> cid
     \<Rightarrow> ('sm, 'bm, 'am, 'ch) session \<Rightarrow> ('sm, 'bm, 'am, 'ch) session \<Rightarrow> bool"
  for X chq chclosed N P c where
  s_ping: "ss_state s = Running \<Longrightarrow> ss_reader s \<Longrightarrow>
    read_client_frame P (c_name (obj (ss_broker s) c)) (ss_stream s) = InPing str \<Longrightarrow>
    session_step X chq chclosed N P c s (s\<lparr>ss_stream := str\<rparr>)"
| s_frame: "ss_state s = Running \<Longrightarrow> ss_reader s \<Longrightarrow>
    read_client_frame P (c_name (obj (ss_broker s) c)) (ss_stream s) = InFrame op_id op qos len buf str \<Longrightarrow>
    handle_frame (at_time t w X) P c op_id op qos len buf (ss_broker s) = (r, b) \<Longrightarrow>
    queue_moves chq N c (ss_broker s) A D b \<Longrightarrow>
    session_step X chq chclosed N P c s (reader_after r ((moved A D b s)\<lparr>ss_stream := str\<rparr>))"
| s_read_end: "ss_state s = Running \<Longrightarrow> ss_reader s \<Longrightarrow>
    read_client_frame P (c_name (obj (ss_broker s) c)) (ss_stream s) = InEnd r \<Longrightarrow>
    session_step X chq chclosed N P c s (s\<lparr>ss_state := Ended (ReaderEnd r)\<rparr>)"
| s_recv: "ss_state s = Running \<Longrightarrow> chq (c_tx (obj (ss_broker s) c)) = f # q \<Longrightarrow>
    session_step X chq chclosed N P c s
      (moved [] [f] (upd_obj c (\<lambda>cl. cl\<lparr>c_tx := ch_drain X 1 (c_tx cl)\<rparr>) (ss_broker s)) s)"
| s_write: "ss_state s = Running \<Longrightarrow> ss_written s < length (ss_taken s) \<Longrightarrow>
    frame_writes (ss_taken s ! ss_written s) = (ws, panics) \<Longrightarrow> \<forall>k. wres k \<noteq> WriteCancelled \<Longrightarrow>
    write_list wres ws (ss_out s) = (r, out) \<Longrightarrow>
    session_step X chq chclosed N P c s (writer_after r panics (s\<lparr>ss_out := out\<rparr>))"
| s_write_end: "ss_state s = Running \<Longrightarrow> chq (c_tx (obj (ss_broker s) c)) = [] \<Longrightarrow>
    chclosed (c_tx (obj (ss_broker s) c)) \<Longrightarrow> ss_written s = length (ss_taken s) \<Longrightarrow>
    session_step X chq chclosed N P c s (s\<lparr>ss_state := Ended (WriterEnd (Inr ()))\<rparr>)"
| s_pinger: "ss_state s = Running \<Longrightarrow> ss_pinger s \<Longrightarrow>
    pinger_turn (at_time t w X) c (ss_broker s) = (r, b) \<Longrightarrow> queue_moves chq N c (ss_broker s) A D b \<Longrightarrow>
    session_step X chq chclosed N P c s (pinger_after r (moved A D b s))"
| s_disconnect: "ss_state s = Running \<Longrightarrow> c_disconnect_trig (obj (ss_broker s) c) \<Longrightarrow>
    session_step X chq chclosed N P c s (s\<lparr>ss_state := Ended Disconnected\<rparr>)"
| s_other: "ss_state s = Running \<Longrightarrow> broker_step X N (ss_broker s) b \<Longrightarrow>
    queue_moves chq N c (ss_broker s) A [] b \<Longrightarrow>
    session_step X chq chclosed N P c s (moved A [] b s)"

inductive session_run ::
  "('sm, 'bm, 'am, 'ch) ctx \<Rightarrow> ('ch \<Rightarrow> frame list) \<Rightarrow> ('ch \<Rightarrow> bool) \<Rightarrow> string set \<Rightarrow> 'am reader_params \<Rightarrow> cid
     \<Rightarrow> ('sm, 'bm, 'am, 'ch) session \<Rightarrow> ('sm, 'bm, 'am, 'ch) session \<Rightarrow> bool"
  for X chq chclosed N P c where
  run_refl: "session_run X chq chclosed N P c s s"
| run_step: "session_run X chq chclosed N P c s s' \<Longrightarrow> session_step X chq chclosed N P c s' s'' \<Longrightarrow>
    session_run X chq chclosed N P c s s''"

lemma session_run_trans:
  assumes "session_run X chq chclosed N P c s s'" and "session_run X chq chclosed N P c s' s''"
  shows "session_run X chq chclosed N P c s s''"
  using assms(2,1) by (induction rule: session_run.induct) (auto intro: session_run.run_step)

inductive_cases session_stepE: "session_step X chq chclosed N P c s s'"

lemma after_broker [simp]:
  "ss_broker (reader_after r s) = ss_broker s" "ss_broker (pinger_after r s) = ss_broker s"
  "ss_broker (writer_after r p s) = ss_broker s" "ss_broker (moved A D b s) = b"
  by (cases r; simp add: moved_def)+

text \<open>A step of a session is one of the broker, or leaves the broker alone.\<close>

lemma session_step_broker:
  assumes "session_step X chq chclosed N P c s s'" and "c < length (b_objs (ss_broker s))"
  shows "ss_broker s' = ss_broker s \<or> broker_step X N (ss_broker s) (ss_broker s')"
  using assms
proof cases
  case (s_frame op_id op qos len buf str t w r b A D)
  then show ?thesis using broker_step.step_frame [OF assms(2) s_frame(4), of X N t w] by simp
next
  case (s_pinger t w r b A D)
  then show ?thesis using broker_step.step_pinger [of X N "ss_broker s" t w c] by simp
qed (auto intro: broker_step.step_receive)

text \<open>The end of a session gives the result of the task that ended it, unless the announcement waits.\<close>

lemma finish_peer_result:
  "fst (finish_peer X c name e b) = Pending \<or>
   fst (finish_peer X c name e b) = (case session_result name e of Inl err \<Rightarrow> Bail err | Inr u \<Rightarrow> Done u)"
proof -
  obtain r b' where u: "unregister_client X c b = (r, b')" by force
  then have "r = Pending \<or> r = Done ()"
    by (auto simp: unregister_client_def unregister_client_with_def log_err_def Let_def split: if_splits prod.splits eff.splits)
  with u show ?thesis by (auto simp: finish_peer_def act_then_def split: sum.splits)
qed

section \<open>What the client gets\<close>

definition written_frames :: "('sm, 'bm, 'am, 'ch) session \<Rightarrow> frame list" where
  "written_frames s = take (ss_written s) (ss_taken s)"

definition session_inv :: "('ch \<Rightarrow> frame list) \<Rightarrow> string set \<Rightarrow> cid \<Rightarrow> ('sm, 'bm, 'am, 'ch) session \<Rightarrow> bool" where
  "session_inv chq N c s \<longleftrightarrow>
     wiring N (ss_broker s) \<and> c < length (b_objs (ss_broker s)) \<and>
     ss_taken s @ chq (c_tx (obj (ss_broker s) c)) = ss_queued s \<and> (\<forall>f \<in> set (ss_queued s). sound_frame N f) \<and>
     ss_written s \<le> length (ss_taken s) \<and> ss_state s \<noteq> Panicked \<and>
     (\<exists>part. ss_out s = concat (map (\<lambda>f. fst (frame_writes f)) (written_frames s)) @ part \<and>
        (ss_state s = Running \<longrightarrow> part = []))"

lemma session_invD:
  assumes "session_inv chq N c s" and "ss_state s = Running"
  shows "wiring N (ss_broker s)" "c < length (b_objs (ss_broker s))"
    "ss_taken s @ chq (c_tx (obj (ss_broker s) c)) = ss_queued s" "\<forall>f \<in> set (ss_queued s). sound_frame N f"
    "ss_written s \<le> length (ss_taken s)" "ss_out s = concat (map (\<lambda>f. fst (frame_writes f)) (written_frames s))"
  using assms by (auto simp: session_inv_def)

lemma write_list_prefix:
  assumes "write_list wres ws out = (r, out')" and "\<forall>k. wres k \<noteq> WriteCancelled"
  shows "r \<noteq> Pending \<and> (\<exists>part. out' = out @ part \<and> (r = Done () \<longrightarrow> part = ws))"
  using assms(1)
proof (induction ws arbitrary: out)
  case (Cons w ws)
  then show ?case using assms(2) by (auto split: write_outcome.splits) (metis append.assoc append_Cons append_Nil)+
qed auto

lemma session_inv_moved:
  assumes "session_inv chq N c s" and "ss_state s = Running" and "queue_moves chq N c (ss_broker s) A D b"
    and "wiring N b" and "c < length (b_objs b)"
  shows "session_inv chq N c (moved A D b s)"
proof -
  note s = session_invD [OF assms(1,2)]
  have "(ss_taken s @ D) @ chq (c_tx (obj b c)) = ss_queued s @ A" "\<forall>f \<in> set A. sound_frame N f"
    using s(3) assms(3) by (simp_all add: queue_moves_def flip: s(3))
  moreover have "take (ss_written s) (ss_taken s @ D) = take (ss_written s) (ss_taken s)" using s(5) by simp
  ultimately show ?thesis
    using s assms(2,4,5) by (auto simp: session_inv_def moved_def written_frames_def)
qed

lemma session_inv_after:
  assumes "session_inv chq N c s"
  shows "session_inv chq N c (reader_after r s)" "session_inv chq N c (pinger_after r s)"
    "session_inv chq N c (s\<lparr>ss_state := Ended e\<rparr>)" "session_inv chq N c (s\<lparr>ss_stream := str\<rparr>)"
  using assms by (cases r; auto simp: session_inv_def written_frames_def)+

lemma session_inv_write:
  assumes inv: "session_inv chq N c s" "ss_state s = Running" and less: "ss_written s < length (ss_taken s)"
    and f: "frame_writes (ss_taken s ! ss_written s) = (ws, panics)"
    and w: "write_list wres ws (ss_out s) = (r, out)" "\<forall>k. wres k \<noteq> WriteCancelled"
  shows "session_inv chq N c (writer_after r panics (s\<lparr>ss_out := out\<rparr>))"
proof -
  note s = session_invD [OF inv]
  have "ss_taken s ! ss_written s \<in> set (ss_queued s)" using less s(3) by (metis UnCI nth_mem set_append)
  then have panics: "\<not> panics" using s(4) sound_frame_writes [of N "ss_taken s ! ss_written s"] f by simp
  obtain part where part: "r \<noteq> Pending" "out = ss_out s @ part" "r = Done () \<longrightarrow> part = ws"
    using write_list_prefix [OF w] by blast
  have nx: "take (Suc (ss_written s)) (ss_taken s) = written_frames s @ [ss_taken s ! ss_written s]"
    using less by (simp add: written_frames_def take_Suc_conv_app_nth)
  show ?thesis
    using s inv less panics part f nx by (cases r) (auto simp: session_inv_def written_frames_def)
qed

lemma session_step_inv:
  assumes ch: "bounded_channel X chq chcap chclosed" and step: "session_step X chq chclosed N P c s s'"
    and inv: "session_inv chq N c s"
  shows "session_inv chq N c s'"
proof -
  have b: "wiring N (ss_broker s')" "c < length (b_objs (ss_broker s'))"
    using session_step_broker [OF step] broker_step_moves [OF ch, of N "ss_broker s" c "ss_broker s'"] inv
    by (auto simp: session_inv_def)
  from step show ?thesis
  proof cases
    case (s_frame op_id op qos len buf str t w r b A D)
    then show ?thesis using b by (simp add: session_inv_moved [OF inv] session_inv_after)
  next
    case (s_recv f q)
    let ?b = "upd_obj c (\<lambda>cl. cl\<lparr>c_tx := ch_drain X 1 (c_tx cl)\<rparr>) (ss_broker s)"
    have "queue_moves chq N c (ss_broker s) [] [f] ?b"
      using s_recv(3) session_invD(2) [OF inv s_recv(2)] bounded_channel.ch_drain [OF ch, of 1]
      by (simp add: queue_moves_def upd_obj_def)
    then show ?thesis using b s_recv by (simp add: session_inv_moved [OF inv])
  next
    case (s_write ws panics wres r out)
    then show ?thesis using session_inv_write [OF inv] by blast
  next
    case (s_pinger t w r b A D)
    then show ?thesis using b by (simp add: session_inv_moved [OF inv] session_inv_after)
  next
    case (s_other b A)
    then show ?thesis using b by (simp add: session_inv_moved [OF inv])
  qed (simp_all add: session_inv_after inv)
qed

lemma session_run_inv:
  assumes ch: "bounded_channel X chq chcap chclosed" and "session_run X chq chclosed N P c s s'" and "session_inv chq N c s"
  shows "session_inv chq N c s'"
  using assms(2,3) by (induction rule: session_run.induct) (simp_all add: session_step_inv [OF ch])

lemma session_start_inv:
  assumes "bounded_channel X chq chcap chclosed" and "broker_reachable X N b" and "c < length (b_objs b)"
  shows "session_inv chq N c (session_start chq c str b)"
  using reachable_queues_sound [OF assms(1,2)] assms(3)
  by (simp add: session_inv_def session_start_def written_frames_def queues_sound_def)

lemma session_run_reachable:
  assumes ch: "bounded_channel X chq chcap chclosed" and "session_run X chq chclosed N P c s s'"
    and "session_inv chq N c s" and "broker_reachable X N (ss_broker s)"
  shows "broker_reachable X N (ss_broker s')"
  using assms(2,3,4)
proof (induction rule: session_run.induct)
  case (run_step s s' s'')
  then have "session_inv chq N c s'" using session_run_inv [OF ch] by blast
  then show ?case
    using session_step_broker [OF run_step.hyps(2)] run_step broker_reachable.reach_step
    by (fastforce simp: session_inv_def)
qed

text \<open>Whatever is queued can be written: the writer needs no other task for it.\<close>

lemma session_can_write:
  assumes ch: "bounded_channel X chq chcap chclosed" and "session_inv chq N c s" and "ss_state s = Running"
  shows "\<exists>s'. session_run X chq chclosed N P c s s' \<and> ss_state s' = Running \<and> ss_queued s' = ss_queued s \<and>
    written_frames s' = ss_queued s'"
  using assms(2,3)
proof (induction "2 * length (chq (c_tx (obj (ss_broker s) c))) + (length (ss_taken s) - ss_written s)"
    arbitrary: s rule: less_induct)
  case less
  note s = session_invD [OF less.prems]
  have on: "\<exists>s''. session_run X chq chclosed N P c s s'' \<and> ss_state s'' = Running \<and> ss_queued s'' = ss_queued s \<and>
      written_frames s'' = ss_queued s''"
    if "session_step X chq chclosed N P c s s'" "ss_state s' = Running" "ss_queued s' = ss_queued s"
      "2 * length (chq (c_tx (obj (ss_broker s') c))) + (length (ss_taken s') - ss_written s') <
       2 * length (chq (c_tx (obj (ss_broker s) c))) + (length (ss_taken s) - ss_written s)" for s'
    using less.hyps [OF that(4) session_step_inv [OF ch that(1) less.prems(1)] that(2)] that
      session_run_trans [OF session_run.run_step [OF session_run.run_refl that(1)]] by metis
  show ?case
  proof (cases "ss_written s < length (ss_taken s)")
    case True
    obtain ws panics where f: "frame_writes (ss_taken s ! ss_written s) = (ws, panics)" by force
    have "ss_taken s ! ss_written s \<in> set (ss_queued s)" using True s(3) by (metis UnCI nth_mem set_append)
    then have "\<not> panics" using s(4) sound_frame_writes [of N "ss_taken s ! ss_written s"] f by simp
    then show ?thesis
      using on [OF session_step.s_write [OF less.prems(2) True f, of "\<lambda>_. Written"]] True less.prems(2)
      by (simp add: write_list_all)
  next
    case False
    show ?thesis
    proof (cases "chq (c_tx (obj (ss_broker s) c))")
      case Nil
      then show ?thesis using False s less.prems(2) session_run.run_refl by (fastforce simp: written_frames_def)
    next
      case (Cons f q)
      then show ?thesis
        using on [OF session_step.s_recv [where chq = chq and c = c, OF less.prems(2) Cons]] False s less.prems(2)
          bounded_channel.ch_drain [OF ch, of 1]
        by (simp add: moved_def upd_obj_def)
    qed
  qed
qed

end
