(* ===== verification/Bus_Spec.thy ===== *)
theory Bus_Spec
  imports Bus_System
begin

text \<open>
  What the broker promises to the programs that use its internal clients, without queues of tasks,
  object identities, digests or maps of the crates: a bus is a table of members, each with the topics it
  listens to, the topics it excludes and a mailbox.  The broker of \<open>src/src/broker.rs\<close> refines this
  specification: every sequence of calls for which the mailboxes have room gives the same results and
  leaves the same members and the same mailboxes.
\<close>

section \<open>Functional simulations\<close>

text \<open>A sequence of commands, with the list of their results.\<close>

fun run_cmds :: "('c \<Rightarrow> 's \<Rightarrow> 'r \<times> 's) \<Rightarrow> 'c list \<Rightarrow> 's \<Rightarrow> 'r list \<times> 's" where
  "run_cmds f [] s = ([], s)"
| "run_cmds f (c # cs) s = (fst (f c s) # fst (run_cmds f cs (snd (f c s))), snd (run_cmds f cs (snd (f c s))))"

text \<open>Each command is allowed in the state it meets.\<close>

fun fits_run :: "('c \<Rightarrow> 's \<Rightarrow> 'r \<times> 's) \<Rightarrow> ('c \<Rightarrow> 's \<Rightarrow> bool) \<Rightarrow> 'c list \<Rightarrow> 's \<Rightarrow> bool" where
  "fits_run f ok [] s = True"
| "fits_run f ok (c # cs) s = (ok c s \<and> fits_run f ok cs (snd (f c s)))"

locale functional_simulation =
  fixes impl :: "'c \<Rightarrow> 's \<Rightarrow> 'r \<times> 's"
    and spec :: "'c \<Rightarrow> 't \<Rightarrow> 'r \<times> 't"
    and ok :: "'c \<Rightarrow> 't \<Rightarrow> bool"
    and inv :: "'s \<Rightarrow> bool"
    and view :: "'s \<Rightarrow> 't"
  assumes simulates: "inv s \<Longrightarrow> ok c (view s) \<Longrightarrow>
    fst (impl c s) = fst (spec c (view s)) \<and> view (snd (impl c s)) = snd (spec c (view s)) \<and>
    inv (snd (impl c s))"
begin

lemma runs_agree:
  "inv s \<Longrightarrow> fits_run spec ok cs (view s) \<Longrightarrow>
    fst (run_cmds impl cs s) = fst (run_cmds spec cs (view s)) \<and>
    view (snd (run_cmds impl cs s)) = snd (run_cmds spec cs (view s)) \<and> inv (snd (run_cmds impl cs s))"
proof (induction cs arbitrary: s)
  case (Cons c cs)
  then have "fst (impl c s) = fst (spec c (view s))" "view (snd (impl c s)) = snd (spec c (view s))"
    "inv (snd (impl c s))" using simulates [of s c] by simp_all
  with Cons.IH [of "snd (impl c s)"] Cons.prems show ?case by simp
qed simp

end

section \<open>The abstract bus\<close>

record member =
  mb_topics :: "string set"
  mb_excluded :: "string set"
  mb_size :: nat
  mb_mail :: "frame list"

record bus_state =
  bs_members :: "string \<rightharpoonup> member"
  bs_core :: "string option"
  bs_force :: bool

text \<open>When a mask matches, and how an event of the bus is encoded.\<close>

record bus_rules =
  br_topic :: "string \<Rightarrow> string \<Rightarrow> bool"
  br_name :: "string \<Rightarrow> string \<Rightarrow> bool"
  br_excl :: "string \<Rightarrow> string \<Rightarrow> bool"
  br_event :: "string \<Rightarrow> string option \<Rightarrow> u64 \<Rightarrow> string + bytes"

datatype bus_cmd =
  CmdJoin string usize
| CmdLeave string
| CmdDrop string
| CmdCore string
| CmdSubscribe string "string list" QoS
| CmdUnsubscribe string "string list" QoS
| CmdExclude string "string list" QoS
| CmdUnexclude string "string list" QoS
| CmdSend string string cow QoS
| CmdZcSend string string cow cow QoS
| CmdBroadcast string string cow QoS
| CmdPublish string string cow QoS
| CmdPublishFor string string string cow QoS
| CmdReceive string nat

datatype bus_result =
  Granted | Answered confirm | Refused ErrorKind | Received "frame list" | Blocked

text \<open>A member listens to a topic if one of its masks matches it and none of its exclusions does.\<close>

definition wants :: "bus_rules \<Rightarrow> string \<Rightarrow> member \<Rightarrow> bool" where
  "wants R topic m \<longleftrightarrow> (\<exists>k \<in> mb_topics m. br_topic R k topic) \<and> \<not> (\<exists>k \<in> mb_excluded m. br_excl R k topic)"

definition put :: "frame \<Rightarrow> (string \<Rightarrow> member \<Rightarrow> bool) \<Rightarrow> bus_state \<Rightarrow> bus_state" where
  "put f P s = s\<lparr>bs_members := (\<lambda>n. map_option (\<lambda>m. if P n m then m\<lparr>mb_mail := mb_mail m @ [f]\<rparr> else m)
     (bs_members s n))\<rparr>"

definition has_space :: "(string \<Rightarrow> member \<Rightarrow> bool) \<Rightarrow> bus_state \<Rightarrow> bool" where
  "has_space P s \<longleftrightarrow> (\<forall>n m. bs_members s n = Some m \<longrightarrow> P n m \<longrightarrow> length (mb_mail m) < mb_size m)"

text \<open>The broker tells the members who comes and who goes, in the name of its core client.\<close>

definition bus_event :: "bus_rules \<Rightarrow> u64 \<Rightarrow> string \<Rightarrow> string \<Rightarrow> bus_state \<Rightarrow> frame option" where
  "bus_event R t ev n s =
     (case bs_core s of
        None \<Rightarrow> None
      | Some k \<Rightarrow> (case br_event R ev (Some n) t of
          Inl _ \<Rightarrow> None
        | Inr p \<Rightarrow> Some (frame_new KPublish (Some k) (Some BROKER_INFO_TOPIC) None p 0 (is_realtime QosNo))))"

definition tell :: "bus_rules \<Rightarrow> u64 \<Rightarrow> string \<Rightarrow> string \<Rightarrow> bus_state \<Rightarrow> bus_state" where
  "tell R t ev n s =
     (case bus_event R t ev n s of None \<Rightarrow> s | Some f \<Rightarrow> put f (\<lambda>_. wants R BROKER_INFO_TOPIC) s)"

definition tell_fits :: "bus_rules \<Rightarrow> u64 \<Rightarrow> string \<Rightarrow> string \<Rightarrow> bus_state \<Rightarrow> bool" where
  "tell_fits R t ev n s \<longleftrightarrow>
     (bus_event R t ev n s = None \<or> has_space (\<lambda>_. wants R BROKER_INFO_TOPIC) s)"

text \<open>A primary member takes its secondary members with it.\<close>

definition family :: "string \<Rightarrow> string \<Rightarrow> bool" where
  "family n m \<longleftrightarrow> m = n \<or> primary_of n = n \<and> primary_of m = n"

definition without :: "string \<Rightarrow> bus_state \<Rightarrow> bus_state" where
  "without n s = s\<lparr>bs_members := (\<lambda>m. if family n m then None else bs_members s m)\<rparr>"

definition new_member :: "usize \<Rightarrow> member" where
  "new_member sz = \<lparr>mb_topics = {BROKER_WARN_TOPIC}, mb_excluded = {}, mb_size = sz, mb_mail = []\<rparr>"

definition with_member :: "string \<Rightarrow> member \<Rightarrow> bus_state \<Rightarrow> bus_state" where
  "with_member n m s = s\<lparr>bs_members := (bs_members s)(n \<mapsto> m)\<rparr>"

text \<open>Joining under a name that is taken: allowed to a primary member if the bus is told to force it.\<close>

definition entered :: "string \<Rightarrow> usize \<Rightarrow> bus_state \<Rightarrow> bus_state" where
  "entered n sz s = with_member n (new_member sz) (if bs_members s n = None then s else without n s)"

definition join_check :: "string \<Rightarrow> bus_state \<Rightarrow> ErrorKind option" where
  "join_check n s =
     (if primary_of n \<noteq> n \<and> bs_members s (primary_of n) = None then Some NotRegistered
      else if bs_members s n \<noteq> None \<and> \<not> (primary_of n = n \<and> bs_force s) then Some Busy
      else None)"

definition change :: "string \<Rightarrow> (member \<Rightarrow> member) \<Rightarrow> bus_state \<Rightarrow> bus_state" where
  "change n g s = s\<lparr>bs_members := (bs_members s)(n := map_option g (bs_members s n))\<rparr>"

definition note_of :: "FrameKind \<Rightarrow> string \<Rightarrow> string option \<Rightarrow> bytes option \<Rightarrow> cow \<Rightarrow> QoS \<Rightarrow> frame" where
  "note_of kind sender topic header p qos =
     frame_new kind (Some sender) topic header (cow_to_vec p) 0 (is_realtime qos)"

fun spec_step :: "bus_rules \<Rightarrow> u64 \<Rightarrow> bus_cmd \<Rightarrow> bus_state \<Rightarrow> bus_result \<times> bus_state" where
  "spec_step R t (CmdJoin n sz) s =
     (case join_check n s of
        Some e \<Rightarrow> (Refused e, s)
      | None \<Rightarrow> (Granted, if primary_of n = n then tell R t ''reg'' n (entered n sz s) else entered n sz s))"
| "spec_step R t (CmdLeave n) s =
     (Granted, if primary_of n = n then tell R t ''unreg'' n (without n s) else without n s)"
| "spec_step R t (CmdDrop n) s = (Granted, without n s)"
| "spec_step R t (CmdCore n) s = (Granted, s\<lparr>bs_core := Some n\<rparr>)"
| "spec_step R t (CmdSubscribe n ts qos) s =
     (Answered (make_confirm_channel qos), change n (\<lambda>m. m\<lparr>mb_topics := mb_topics m \<union> set ts\<rparr>) s)"
| "spec_step R t (CmdUnsubscribe n ts qos) s =
     (Answered (make_confirm_channel qos), change n (\<lambda>m. m\<lparr>mb_topics := mb_topics m - set ts\<rparr>) s)"
| "spec_step R t (CmdExclude n ts qos) s =
     (Answered (make_confirm_channel qos), change n (\<lambda>m. m\<lparr>mb_excluded := mb_excluded m \<union> set ts\<rparr>) s)"
| "spec_step R t (CmdUnexclude n ts qos) s =
     (Answered (make_confirm_channel qos), change n (\<lambda>m. m\<lparr>mb_excluded := mb_excluded m - set ts\<rparr>) s)"
| "spec_step R t (CmdSend n tgt p qos) s =
     (if bs_members s tgt = None then (Refused NotRegistered, s)
      else (Answered (make_confirm_channel qos), put (note_of KMessage n None None p qos) (\<lambda>k _. k = tgt) s))"
| "spec_step R t (CmdZcSend n tgt h p qos) s =
     (if bs_members s tgt = None then (Refused NotRegistered, s)
      else (Answered (make_confirm_channel qos),
            put (note_of KMessage n None (Some (cow_to_vec h)) p qos) (\<lambda>k _. k = tgt) s))"
| "spec_step R t (CmdBroadcast n mk p qos) s =
     (Answered (make_confirm_channel qos), put (note_of KBroadcast n None None p qos) (\<lambda>k _. br_name R mk k) s)"
| "spec_step R t (CmdPublish n topic p qos) s =
     (Answered (make_confirm_channel qos), put (note_of KPublish n (Some topic) None p qos) (\<lambda>_. wants R topic) s)"
| "spec_step R t (CmdPublishFor n topic receiver p qos) s =
     (Answered (make_confirm_channel qos),
      put (note_of KPublish n (Some topic) None p qos) (\<lambda>k m. primary_of k = receiver \<and> wants R topic m) s)"
| "spec_step R t (CmdReceive n j) s =
     (Received (take j (mb_mail (the (bs_members s n)))), change n (\<lambda>m. m\<lparr>mb_mail := drop j (mb_mail m)\<rparr>) s)"

text \<open>
  The commands the specification speaks about: issued by a member, names from a set without digest
  collisions, mailboxes that can hold a frame, and room in the mailboxes of the recipients.
\<close>

fun cmd_fits :: "bus_rules \<Rightarrow> string set \<Rightarrow> u64 \<Rightarrow> bus_cmd \<Rightarrow> bus_state \<Rightarrow> bool" where
  "cmd_fits R N t (CmdJoin n sz) s =
     (n \<in> N \<and> 0 < sz \<and> (join_check n s = None \<and> primary_of n = n \<longrightarrow> tell_fits R t ''reg'' n (entered n sz s)))"
| "cmd_fits R N t (CmdLeave n) s =
     (bs_members s n \<noteq> None \<and> (primary_of n = n \<longrightarrow> tell_fits R t ''unreg'' n (without n s)))"
| "cmd_fits R N t (CmdDrop n) s = (bs_members s n \<noteq> None)"
| "cmd_fits R N t (CmdCore n) s = (bs_members s n \<noteq> None)"
| "cmd_fits R N t (CmdSubscribe n ts qos) s = (bs_members s n \<noteq> None)"
| "cmd_fits R N t (CmdUnsubscribe n ts qos) s = (bs_members s n \<noteq> None)"
| "cmd_fits R N t (CmdExclude n ts qos) s = (bs_members s n \<noteq> None)"
| "cmd_fits R N t (CmdUnexclude n ts qos) s = (bs_members s n \<noteq> None)"
| "cmd_fits R N t (CmdSend n tgt p qos) s = (bs_members s n \<noteq> None \<and> has_space (\<lambda>k _. k = tgt) s)"
| "cmd_fits R N t (CmdZcSend n tgt h p qos) s = (bs_members s n \<noteq> None \<and> has_space (\<lambda>k _. k = tgt) s)"
| "cmd_fits R N t (CmdBroadcast n mk p qos) s =
     (bs_members s n \<noteq> None \<and> has_space (\<lambda>k _. br_name R mk k) s)"
| "cmd_fits R N t (CmdPublish n topic p qos) s = (bs_members s n \<noteq> None \<and> has_space (\<lambda>_. wants R topic) s)"
| "cmd_fits R N t (CmdPublishFor n topic receiver p qos) s =
     (bs_members s n \<noteq> None \<and> has_space (\<lambda>k m. primary_of k = receiver \<and> wants R topic m) s)"
| "cmd_fits R N t (CmdReceive n j) s = (bs_members s n \<noteq> None)"

text \<open>On a table of members written out.\<close>

lemma has_space_empty [simp]: "has_space P \<lparr>bs_members = Map.empty, bs_core = c, bs_force = g\<rparr>"
  by (simp add: has_space_def)

lemma has_space_upd [simp]:
  assumes "P k v \<longrightarrow> length (mb_mail v) < mb_size v" and "has_space P \<lparr>bs_members = m, bs_core = c, bs_force = g\<rparr>"
  shows "has_space P \<lparr>bs_members = m(k \<mapsto> v), bs_core = c, bs_force = g\<rparr>"
  using assms by (auto simp: has_space_def)

lemma put_empty [simp]:
  "put f P \<lparr>bs_members = Map.empty, bs_core = c, bs_force = g\<rparr> =
     \<lparr>bs_members = Map.empty, bs_core = c, bs_force = g\<rparr>"
  by (simp add: put_def)

lemma put_upd [simp]:
  "put f P \<lparr>bs_members = m(k \<mapsto> v), bs_core = c, bs_force = g\<rparr> =
     with_member k (if P k v then v\<lparr>mb_mail := mb_mail v @ [f]\<rparr> else v) (put f P \<lparr>bs_members = m, bs_core = c, bs_force = g\<rparr>)"
  by (auto simp: put_def with_member_def)

section \<open>The broker, call by call\<close>

fun answer :: "('a \<Rightarrow> bus_result) \<Rightarrow> (error, 'a) eff \<times> 's \<Rightarrow> bus_result \<times> 's" where
  "answer g (Done x, s) = (g x, s)"
| "answer g (Bail e, s) = (Refused (e_kind e), s)"
| "answer g (Pending, s) = (Blocked, s)"

text \<open>The handle of a registered client.\<close>

definition handle_of :: "('sm, 'bm, 'am, 'ch) broker \<Rightarrow> string \<Rightarrow> client" where
  "handle_of b n = \<lparr>k_name = n, k_bus = the (b_clients b n), k_rx = False, k_secondary_counter = 0\<rparr>"

fun bus_exec ::
  "('sm, 'bm, 'am, 'ch) ctx \<Rightarrow> ('ch \<Rightarrow> frame list) \<Rightarrow> bus_cmd \<Rightarrow> ('sm, 'bm, 'am, 'ch) broker
     \<Rightarrow> bus_result \<times> ('sm, 'bm, 'am, 'ch) broker" where
  "bus_exec X chq (CmdJoin n sz) b = answer (\<lambda>_. Granted) (broker_register_client X sz n b)"
| "bus_exec X chq (CmdLeave n) b = answer (\<lambda>_. Granted) (broker_unregister_client X (handle_of b n) b)"
| "bus_exec X chq (CmdDrop n) b = (Granted, client_drop X (handle_of b n) b)"
| "bus_exec X chq (CmdCore n) b = answer (\<lambda>_. Granted) (set_core_rpc_client (k_bus (handle_of b n)) b)"
| "bus_exec X chq (CmdSubscribe n ts qos) b = answer Answered (client_subscribe_bulk X (handle_of b n) ts qos b)"
| "bus_exec X chq (CmdUnsubscribe n ts qos) b = answer Answered (client_unsubscribe_bulk X (handle_of b n) ts qos b)"
| "bus_exec X chq (CmdExclude n ts qos) b = answer Answered (client_exclude_bulk X (handle_of b n) ts qos b)"
| "bus_exec X chq (CmdUnexclude n ts qos) b = answer Answered (client_unexclude_bulk X (handle_of b n) ts qos b)"
| "bus_exec X chq (CmdSend n tgt p qos) b = answer Answered (client_send X (handle_of b n) tgt p qos b)"
| "bus_exec X chq (CmdZcSend n tgt h p qos) b = answer Answered (client_zc_send X (handle_of b n) tgt h p qos b)"
| "bus_exec X chq (CmdBroadcast n mk p qos) b =
     answer Answered (client_send_broadcast X (handle_of b n) mk p qos b)"
| "bus_exec X chq (CmdPublish n topic p qos) b = answer Answered (client_publish X (handle_of b n) topic p qos b)"
| "bus_exec X chq (CmdPublishFor n topic receiver p qos) b =
     answer Answered (client_publish_for X (handle_of b n) topic receiver p qos b)"
| "bus_exec X chq (CmdReceive n j) b =
     (let c = k_bus (handle_of b n) in
      (Received (take j (chq (c_tx (obj b c)))), upd_obj c (\<lambda>cl. cl\<lparr>c_tx := ch_drain X j (c_tx cl)\<rparr>) b))"

text \<open>What the specification sees of a broker.\<close>

definition member_of ::
  "('sm \<Rightarrow> digest \<Rightarrow> (cid \<times> string set) option) \<Rightarrow> ('am \<Rightarrow> string set) \<Rightarrow> ('ch \<Rightarrow> frame list) \<Rightarrow> ('ch \<Rightarrow> nat)
     \<Rightarrow> ('sm, 'bm, 'am, 'ch) broker \<Rightarrow> cid \<Rightarrow> member" where
  "member_of smv amv chq chcap b c =
     \<lparr>mb_topics = (case smv (b_subscriptions b) (c_digest (obj b c)) of Some e \<Rightarrow> snd e | None \<Rightarrow> {}),
      mb_excluded = amv (c_exclusions (obj b c)), mb_size = chcap (c_tx (obj b c)), mb_mail = chq (c_tx (obj b c))\<rparr>"

definition bus_view ::
  "('sm \<Rightarrow> digest \<Rightarrow> (cid \<times> string set) option) \<Rightarrow> ('am \<Rightarrow> string set) \<Rightarrow> ('ch \<Rightarrow> frame list) \<Rightarrow> ('ch \<Rightarrow> nat)
     \<Rightarrow> ('sm, 'bm, 'am, 'ch) broker \<Rightarrow> bus_state" where
  "bus_view smv amv chq chcap b =
     \<lparr>bs_members = (\<lambda>n. map_option (member_of smv amv chq chcap b) (b_clients b n)),
      bs_core = map_option (\<lambda>c. c_name (obj b c)) (b_rpc_client b), bs_force = b_force_register b\<rparr>"

text \<open>
  The states between two calls: the registry invariant, no lock held, the core client an object that
  exists, and of every registered client the channel open, its exclusions announced by its flag and
  matched as the map of a new client matches.
\<close>

definition client_good ::
  "('sm, 'bm, 'am, 'ch) ctx \<Rightarrow> ('am \<Rightarrow> string set) \<Rightarrow> ('am \<Rightarrow> string \<Rightarrow> string \<Rightarrow> bool) \<Rightarrow> ('ch \<Rightarrow> bool)
     \<Rightarrow> ('am, 'ch) bus_client \<Rightarrow> bool" where
  "client_good X amv acl_match chclosed cl \<longleftrightarrow>
     \<not> chclosed (c_tx cl) \<and> (amv (c_exclusions cl) \<noteq> {} \<longrightarrow> c_has_exclusions cl) \<and>
     acl_match (c_exclusions cl) = acl_match (am_new X CHR ''/'' ''+'' ''#'')"

definition bus_good ::
  "('sm, 'bm, 'am, 'ch) ctx \<Rightarrow> ('sm \<Rightarrow> digest \<Rightarrow> (cid \<times> string set) option) \<Rightarrow> ('bm \<Rightarrow> digest \<Rightarrow> (cid \<times> string) option)
     \<Rightarrow> ('am \<Rightarrow> string set) \<Rightarrow> ('am \<Rightarrow> string \<Rightarrow> string \<Rightarrow> bool) \<Rightarrow> ('ch \<Rightarrow> bool) \<Rightarrow> string set
     \<Rightarrow> ('sm, 'bm, 'am, 'ch) broker \<Rightarrow> bool" where
  "bus_good X smv bmv amv acl_match chclosed N b \<longleftrightarrow>
     db_inv X smv bmv N b \<and> \<not> b_rpc_locked b \<and> \<not> b_core_locked b \<and>
     (\<forall>c. b_rpc_client b = Some c \<longrightarrow> c < length (b_objs b)) \<and>
     (\<forall>c. live b c \<longrightarrow> client_good X amv acl_match chclosed (obj b c))"

definition rules_of ::
  "('sm, 'bm, 'am, 'ch) ctx \<Rightarrow> (string \<Rightarrow> string \<Rightarrow> bool) \<Rightarrow> (string \<Rightarrow> string \<Rightarrow> bool)
     \<Rightarrow> ('am \<Rightarrow> string \<Rightarrow> string \<Rightarrow> bool) \<Rightarrow> bus_rules" where
  "rules_of X topic_match name_match acl_match =
     \<lparr>br_topic = topic_match, br_name = name_match,
      br_excl = acl_match (am_new X CHR ''/'' ''+'' ''#''), br_event = rmp_event X\<rparr>"

section \<open>Posting a frame\<close>

text \<open>The frame \<open>f\<close> is appended to the queues of the clients \<open>D\<close>; nothing else a client sees changes.\<close>

definition posted ::
  "('ch \<Rightarrow> frame list) \<Rightarrow> ('ch \<Rightarrow> nat) \<Rightarrow> ('ch \<Rightarrow> bool) \<Rightarrow> frame \<Rightarrow> cid set
     \<Rightarrow> ('sm, 'bm, 'am, 'ch) broker \<Rightarrow> ('sm, 'bm, 'am, 'ch) broker \<Rightarrow> bool" where
  "posted chq chcap chclosed f D b b' \<longleftrightarrow>
     same_registry b b' \<and> b_rpc_client b' = b_rpc_client b \<and> b_rpc_locked b' = b_rpc_locked b \<and>
     b_core_locked b' = b_core_locked b \<and> b_force_register b' = b_force_register b \<and>
     (\<forall>c. c_exclusions (obj b' c) = c_exclusions (obj b c) \<and> c_has_exclusions (obj b' c) = c_has_exclusions (obj b c) \<and>
        (if c \<in> D then chq (c_tx (obj b' c)) = chq (c_tx (obj b c)) @ [f] \<and>
           chcap (c_tx (obj b' c)) = chcap (c_tx (obj b c)) \<and> \<not> chclosed (c_tx (obj b' c))
         else c_tx (obj b' c) = c_tx (obj b c)))"

lemma posted_trans:
  assumes "posted chq chcap chclosed f D b b'" and "posted chq chcap chclosed f D' b' b''" and "D \<inter> D' = {}"
  shows "posted chq chcap chclosed f (D \<union> D') b b''"
  using assms same_registry_trans [of b b' b''] unfolding posted_def by (auto split: if_splits)

lemma posted_counters:
  "posted chq chcap chclosed f {} b (count_r c len b)" "posted chq chcap chclosed f {} b (client_w c len b)"
  "posted chq chcap chclosed f {} b (db_w n len b)"
  using same_registry_count_r [of b c len] same_registry_client_w [of b c len] same_registry_db_w [of b n len]
  by (simp_all add: posted_def count_r_def client_w_def db_w_def upd_obj_def nth_upd Let_def)

lemma posted_after:
  assumes "posted chq chcap chclosed f {} b b'" and "posted chq chcap chclosed f D b' b''"
  shows "posted chq chcap chclosed f D b b''"
  using posted_trans [OF assms] by simp

lemma posted_unlock:
  assumes "posted chq chcap chclosed f D (b\<lparr>b_rpc_locked := True, b_core_locked := True\<rparr>) b'"
    and "\<not> b_rpc_locked b" and "\<not> b_core_locked b"
  shows "posted chq chcap chclosed f D b (b'\<lparr>b_rpc_locked := False, b_core_locked := False\<rparr>)"
  using assms by (simp add: posted_def same_registry_def)

context bounded_channel
begin

abbreviation room :: "('sm, 'bm, 'am, 'ch) broker \<Rightarrow> cid \<Rightarrow> bool" where
  "room b c \<equiv> has_room chq chcap chclosed (c_tx (obj b c))"

lemma safe_send_room:
  assumes "room b c" and "c < length (b_objs b)"
  shows "\<exists>b'. safe_send_frame X ann timeout c f b = (Done (Inr ()), b') \<and> posted chq chcap chclosed f {c} b b'"
proof -
  have r: "\<not> chclosed (c_tx (obj b c))" "length (chq (c_tx (obj b c))) < chcap (c_tx (obj b c))"
    using assms(1) by (simp_all add: has_room_def)
  then obtain ch where ch: "ch_send X f (c_tx (obj b c)) = Sent ch" "chq ch = chq (c_tx (obj b c)) @ [f]"
      "chcap ch = chcap (c_tx (obj b c))" "\<not> chclosed ch"
    using ch_send_ok [of "c_tx (obj b c)" f] by blast
  let ?b = "upd_obj c (\<lambda>cl. cl\<lparr>c_tx := ch\<rparr>) b"
  have "safe_send_frame X ann timeout c f b = (Done (Inr ()), ?b)"
    using r ch(1) by (simp add: safe_send_frame_def channel_send_def ch_is_full)
  moreover have "posted chq chcap chclosed f {c} b ?b"
    using same_registry_tx [of b c "\<lambda>_. ch"] ch assms(2) by (simp add: posted_def upd_obj_def nth_upd)
  ultimately show ?thesis by blast
qed

lemma deliver_room:
  assumes "distinct (map snd subs)" and "\<And>c. c \<in> snd ` set subs \<Longrightarrow> room b c \<and> c < length (b_objs b)"
  shows "\<exists>b'. deliver X ann timeout len f subs b = (Done (), b') \<and>
    posted chq chcap chclosed f (snd ` set subs) b b'"
  using assms
proof (induction subs arbitrary: b)
  case Nil
  then show ?case by (simp add: posted_def)
next
  case (Cons sub subs)
  let ?w = "client_w (snd sub) len b"
  obtain b1 where b1: "safe_send_frame X ann timeout (snd sub) f ?w = (Done (Inr ()), b1)"
      "posted chq chcap chclosed f {snd sub} ?w b1"
    using safe_send_room [of ?w "snd sub" ann timeout f] Cons.prems(2) [of "snd sub"] by auto
  have p1: "posted chq chcap chclosed f {snd sub} b b1"
    using posted_after [OF posted_counters(2) b1(2)] .
  have ns: "snd sub \<notin> snd ` set subs" using Cons.prems(1) by simp
  have "room b1 c \<and> c < length (b_objs b1)" if "c \<in> snd ` set subs" for c
  proof -
    have "c \<noteq> snd sub" using that ns by blast
    with p1 Cons.prems(2) [of c] that show ?thesis
      by (auto simp: posted_def same_registryD(1))
  qed
  with Cons.IH [of b1] Cons.prems(1) obtain b2 where
    b2: "deliver X ann timeout len f subs b1 = (Done (), b2)" "posted chq chcap chclosed f (snd ` set subs) b1 b2"
    by auto
  have "posted chq chcap chclosed f ({snd sub} \<union> snd ` set subs) b b2"
    by (rule posted_trans [OF p1 b2(2)]) (use ns in simp)
  then have "posted chq chcap chclosed f (snd ` set (sub # subs)) b b2" by simp
  moreover have "deliver X ann timeout len f (sub # subs) b = (Done (), b2)"
    using b1(1) b2(1) by (simp add: act_then_def)
  ultimately show ?case by blast
qed

end

context broker_libs
begin

lemma publish_where_room:
  assumes inv: "dbi N b" and keep: "\<And>c. keep (obj (count_r client len b) c) = keep (obj b c)"
    and rm: "\<And>c. c \<in> recipients smv topic_match keep topic b \<Longrightarrow> room b c"
  shows "\<exists>b'. publish_where keep X ann client topic header buf pos len rt timeout b = (Done (), b') \<and>
    posted chq chcap chclosed (frame_new KPublish (Some (c_name (obj b client))) (Some topic) header buf pos rt)
      (recipients smv topic_match keep topic b) b b'"
proof -
  let ?f = "frame_new KPublish (Some (c_name (obj b client))) (Some topic) header buf pos rt"
  let ?subs = "filter (\<lambda>sub. keep (obj b (snd sub))) (sm_get_subscribers X topic (b_subscriptions b))"
  let ?b = "db_w (word_of_nat (length ?subs)) len (count_r client len b)"
  note s = subscribers_keep [OF inv, where keep = keep and topic = topic]
  have p0: "posted chq chcap chclosed ?f {} b (count_r client len b)" by (rule posted_counters)
  have p: "posted chq chcap chclosed ?f {} b ?b" by (rule posted_after [OF p0 posted_counters(3)])
  have "c < length (b_objs b)" if "c \<in> recipients smv topic_match keep topic b" for c
    using that by (simp add: recipients_def live_def)
  with rm have "\<exists>b'. deliver X ann timeout len ?f ?subs ?b = (Done (), b') \<and>
      posted chq chcap chclosed ?f (snd ` set ?subs) ?b b'"
    by (intro deliver_room [OF s(2)]) (unfold s(1), simp)
  then obtain b' where d: "deliver X ann timeout len ?f ?subs ?b = (Done (), b')"
    and q: "posted chq chcap chclosed ?f (recipients smv topic_match keep topic b) ?b b'"
    unfolding s(1) by blast
  show ?thesis
  proof (cases "?subs = []")
    case True
    then have "recipients smv topic_match keep topic b = {}" using s(1) by simp
    with True p0 show ?thesis by (simp add: publish_where_def Let_def keep)
  next
    case False
    with d posted_after [OF p q] show ?thesis by (auto simp: publish_where_def Let_def keep)
  qed
qed

lemma send_broadcast_room:
  assumes inv: "dbi N b" and rm: "\<And>c. c \<in> mask_recipients name_match tgt b \<Longrightarrow> room b c"
  shows "\<exists>b'. send_broadcast X ann client tgt header buf pos len rt timeout b = (Done (), b') \<and>
    posted chq chcap chclosed (frame_new KBroadcast (Some (c_name (obj b client))) None header buf pos rt)
      (mask_recipients name_match tgt b) b b'"
proof -
  let ?f = "frame_new KBroadcast (Some (c_name (obj b client))) None header buf pos rt"
  let ?subs = "bm_get_clients_by_mask X tgt (b_broadcasts b)"
  let ?b = "db_w (word_of_nat (length ?subs)) len (count_r client len b)"
  note s = mask_clients [OF inv, of tgt]
  have p0: "posted chq chcap chclosed ?f {} b (count_r client len b)" by (rule posted_counters)
  have p: "posted chq chcap chclosed ?f {} b ?b" by (rule posted_after [OF p0 posted_counters(3)])
  have "c < length (b_objs b)" if "c \<in> mask_recipients name_match tgt b" for c
    using that by (simp add: mask_recipients_def live_def)
  with rm have "\<exists>b'. deliver X ann timeout len ?f ?subs ?b = (Done (), b') \<and>
      posted chq chcap chclosed ?f (snd ` set ?subs) ?b b'"
    by (intro deliver_room [OF s(2)]) (unfold s(1), simp)
  then obtain b' where d: "deliver X ann timeout len ?f ?subs ?b = (Done (), b')"
    and q: "posted chq chcap chclosed ?f (mask_recipients name_match tgt b) ?b b'"
    unfolding s(1) by blast
  show ?thesis
  proof (cases "?subs = []")
    case True
    then have "mask_recipients name_match tgt b = {}" using s(1) by simp
    with True p0 show ?thesis by (simp add: send_broadcast_def Let_def)
  next
    case False
    with d posted_after [OF p q] show ?thesis by (auto simp: send_broadcast_def Let_def)
  qed
qed

lemma send_msg_room:
  assumes "dbi N b" and t: "b_clients b target = Some c" and "room b c"
  shows "\<exists>b'. send_msg X ann client target header buf pos len rt timeout b = (Done (Inr ()), b') \<and>
    posted chq chcap chclosed (frame_new KMessage (Some (c_name (obj b client))) None header buf pos rt) {c} b b'"
proof -
  let ?f = "frame_new KMessage (Some (c_name (obj b client))) None header buf pos rt"
  let ?b = "db_w 1 len (client_w c len (count_r client len b))"
  have "clients_ok b" using assms(1) by (simp add: db_inv_def db_inv_ex_def)
  then have "c < length (b_objs b)" using t clients_okD live_less by blast
  then obtain b' where b': "safe_send_frame X ann timeout c ?f ?b = (Done (Inr ()), b')"
      "posted chq chcap chclosed ?f {c} ?b b'"
    using safe_send_room [of ?b c ann timeout ?f] assms(3) by auto
  have "posted chq chcap chclosed ?f {c} b b'"
    by (rule posted_after [OF posted_counters(1)], rule posted_after [OF posted_counters(2)],
        rule posted_after [OF posted_counters(3)], rule b'(2))
  with b'(1) t show ?thesis by (auto simp: send_msg_def Let_def)
qed

end

section \<open>The view after a step\<close>

lemma change_same [simp]: "change n (\<lambda>m. m) s = s"
  by (simp add: change_def option.map_ident)

lemma change_change: "change n g (change n h s) = change n (\<lambda>m. g (h m)) s"
  by (simp add: change_def option.map_comp comp_def)

context broker_libs
begin

abbreviation view :: "('sm, 'bm, 'am, 'ch) broker \<Rightarrow> bus_state" where
  "view \<equiv> bus_view smv amv chq chcap"

abbreviation mem :: "('sm, 'bm, 'am, 'ch) broker \<Rightarrow> cid \<Rightarrow> member" where
  "mem \<equiv> member_of smv amv chq chcap"

abbreviation good :: "string set \<Rightarrow> ('sm, 'bm, 'am, 'ch) broker \<Rightarrow> bool" where
  "good \<equiv> bus_good X smv bmv amv acl_match chclosed"

abbreviation rules :: bus_rules where
  "rules \<equiv> rules_of X topic_match name_match acl_match"

lemma goodD:
  assumes "good N b"
  shows "dbi N b" "\<not> b_rpc_locked b" "\<not> b_core_locked b" "b_rpc_client b = Some c \<Longrightarrow> c < length (b_objs b)"
    "live b c \<Longrightarrow> client_good X amv acl_match chclosed (obj b c)"
    "b_clients b n = Some c \<longleftrightarrow> live b c \<and> c_name (obj b c) = n"
    "live b c \<Longrightarrow> obj_wf X (obj b c)"
    "live b c \<Longrightarrow> \<exists>S. smv (b_subscriptions b) (c_digest (obj b c)) = Some (c, S)"
proof -
  show i: "dbi N b" using assms by (simp add: bus_good_def)
  then show "b_clients b n = Some c \<longleftrightarrow> live b c \<and> c_name (obj b c) = n"
    using clients_okD [of b] by (simp add: db_inv_def db_inv_ex_def)
  show "live b c \<Longrightarrow> obj_wf X (obj b c)"
    using i objs_okD [of X N b c] by (simp add: db_inv_def db_inv_ex_def live_def)
  show "live b c \<Longrightarrow> \<exists>S. smv (b_subscriptions b) (c_digest (obj b c)) = Some (c, S)"
    using i by (simp add: db_inv_def db_inv_ex_def subs_ok_def)
qed (use assms in \<open>simp_all add: bus_good_def\<close>)

lemma view_member:
  "bs_members (view b) n = Some m \<longleftrightarrow> (\<exists>c. b_clients b n = Some c \<and> m = mem b c)"
  by (auto simp: bus_view_def)

lemma view_none [simp]: "bs_members (view b) n = None \<longleftrightarrow> b_clients b n = None"
  by (simp add: bus_view_def)

lemma posted_good:
  assumes "posted chq chcap chclosed f D b b'" and "good N b"
  shows "good N b'"
proof -
  have s: "same_registry b b'" using assms(1) by (simp add: posted_def)
  have "client_good X amv acl_match chclosed (obj b' c)" if "live b' c" for c
    using goodD(5) [OF assms(2), of c] that assms(1) same_registryD(6) [OF s, of c]
    by (auto simp: posted_def client_good_def split: if_splits)
  then show ?thesis
    using assms same_registry_inv [OF s] same_registryD(1) [OF s] by (auto simp: bus_good_def posted_def)
qed

lemma posted_view:
  assumes p: "posted chq chcap chclosed f D b b'" and g: "good N b"
    and D: "\<And>c. live b c \<Longrightarrow> c \<in> D \<longleftrightarrow> P (c_name (obj b c)) (mem b c)"
  shows "view b' = put f P (view b)"
proof -
  have s: "same_registry b b'" using p by (simp add: posted_def)
  have nm: "c_name (obj b' c) = c_name (obj b c) \<and> c_digest (obj b' c) = c_digest (obj b c)" for c
    using same_registryD(5) [OF s, of c] by (simp add: same_obj_def)
  have "mem b' c = (if P n (mem b c) then (mem b c)\<lparr>mb_mail := mb_mail (mem b c) @ [f]\<rparr> else mem b c)"
    if "b_clients b n = Some c" for n c
    using that goodD(6) [OF g, of n c] D [of c] p nm [of c] same_registryD(3) [OF s]
    by (auto simp: member_of_def posted_def)
  then have "map_option (mem b') (b_clients b n) =
      map_option (\<lambda>m. if P n m then m\<lparr>mb_mail := mb_mail m @ [f]\<rparr> else m) (map_option (mem b) (b_clients b n))" for n
    by (cases "b_clients b n") auto
  then show ?thesis
    using p same_registryD(2) [OF s] nm by (simp add: bus_view_def put_def posted_def fun_eq_iff)
qed

lemma view_room:
  assumes "good N b" and "live b c" and "has_space P (view b)" and "P (c_name (obj b c)) (mem b c)"
  shows "room b c"
proof -
  have "b_clients b (c_name (obj b c)) = Some c" using goodD(6) [OF assms(1)] assms(2) by blast
  then have "bs_members (view b) (c_name (obj b c)) = Some (mem b c)" by (auto simp: view_member)
  then have "length (mb_mail (mem b c)) < mb_size (mem b c)" using assms(3,4) by (auto simp: has_space_def)
  with goodD(5) [OF assms(1,2)] show ?thesis by (simp add: has_room_def member_of_def client_good_def)
qed

text \<open>An operation that posts a frame to the clients \<open>D\<close>, which are the ones the specification names.\<close>

lemma routed:
  assumes g: "good N b" and D: "\<And>c. c \<in> D \<longleftrightarrow> live b c \<and> P (c_name (obj b c)) (mem b c)"
    and sp: "has_space P (view b)"
    and op: "(\<And>c. c \<in> D \<Longrightarrow> room b c) \<Longrightarrow> \<exists>b'. r = (Done x, b') \<and> posted chq chcap chclosed f D b b'"
  shows "\<exists>b'. r = (Done x, b') \<and> good N b' \<and> view b' = put f P (view b)"
proof -
  have "room b c" if "c \<in> D" for c using view_room [OF g _ sp, of c] D that by blast
  then obtain b' where b': "r = (Done x, b')" "posted chq chcap chclosed f D b b'" using op by blast
  with posted_good [OF b'(2) g] posted_view [OF b'(2) g, of P] D show ?thesis by blast
qed

lemma not_excluded_iff:
  assumes "client_good X amv acl_match chclosed cl"
  shows "not_excluded X topic cl \<longleftrightarrow> \<not> (\<exists>k \<in> amv (c_exclusions cl). br_excl rules k topic)"
  using assms by (auto simp: not_excluded_def client_good_def amv_matches rules_of_def)

lemma recipients_wants:
  assumes "good N b"
  shows "c \<in> recipients smv topic_match (\<lambda>sub. Q (c_primary_name sub) \<and> not_excluded X topic sub) topic b \<longleftrightarrow>
    live b c \<and> Q (primary_of (c_name (obj b c))) \<and> wants rules topic (mem b c)"
proof (cases "live b c")
  case True
  then obtain S where S: "smv (b_subscriptions b) (c_digest (obj b c)) = Some (c, S)"
    using goodD(8) [OF assms] by blast
  moreover have "c_primary_name (obj b c) = primary_of (c_name (obj b c))"
    using goodD(7) [OF assms True] by (simp add: obj_wf_def)
  ultimately show ?thesis
    using True not_excluded_iff [OF goodD(5) [OF assms True], of topic]
    by (auto simp: recipients_def wants_def member_of_def) (auto simp: rules_of_def)
qed (simp add: recipients_def)

lemma publish_routed:
  assumes g: "good N b" and sp: "has_space (\<lambda>n m. Q (primary_of n) \<and> wants rules topic m) (view b)"
  shows "\<exists>b'. publish_where (\<lambda>sub. Q (c_primary_name sub) \<and> not_excluded X topic sub) X ann client topic
      header buf pos len rt timeout b = (Done (), b') \<and> good N b' \<and>
    view b' = put (frame_new KPublish (Some (c_name (obj b client))) (Some topic) header buf pos rt)
      (\<lambda>n m. Q (primary_of n) \<and> wants rules topic m) (view b)"
  by (rule routed [OF g _ sp, of "recipients smv topic_match (\<lambda>sub. Q (c_primary_name sub) \<and> not_excluded X topic sub) topic b"])
     (simp add: recipients_wants [OF g], rule publish_where_room [OF goodD(1) [OF g]],
      simp_all add: not_excluded_def)

lemma publish_plain:
  assumes g: "good N b" and sp: "has_space (\<lambda>_. wants rules topic) (view b)"
  shows "\<exists>b'. publish X ann client topic header buf pos len rt timeout b = (Done (), b') \<and> good N b' \<and>
    view b' = put (frame_new KPublish (Some (c_name (obj b client))) (Some topic) header buf pos rt)
      (\<lambda>_. wants rules topic) (view b)"
  using publish_routed [OF g, where Q = "\<lambda>_. True"] sp by (simp add: publish_def)

text \<open>Announcements.\<close>

lemma bus_good_locks: "good N b \<Longrightarrow> dbi N (b\<lparr>b_rpc_locked := True, b_core_locked := True\<rparr>)"
  using goodD(1) by simp

lemma announce_tells:
  assumes g: "good N b" and fit: "tell_fits rules (now_ns X) ev n (view b)"
  shows "\<exists>b'. log_err (announce X (BrokerEvent ev (Some n) t0 BROKER_INFO_TOPIC)) b = (Done (), b') \<and>
    good N b' \<and> view b' = tell rules (now_ns X) ev n (view b)"
proof (cases "b_rpc_client b")
  case None
  then have "tell rules (now_ns X) ev n (view b) = view b" by (simp add: tell_def bus_event_def bus_view_def)
  with None g goodD(2) [OF g] show ?thesis by (simp add: log_err_def announce_no_core)
next
  case (Some k)
  let ?b = "b\<lparr>b_rpc_locked := True, b_core_locked := True\<rparr>"
  note l = goodD(2,3) [OF g]
  have core: "bs_core (view b) = Some (c_name (obj b k))" using Some by (simp add: bus_view_def)
  show ?thesis
  proof (cases "rmp_event X ev (Some n) (now_ns X)")
    case (Inl e)
    let ?u = "b\<lparr>b_rpc_locked := False, b_core_locked := False\<rparr>"
    have u: "?u = b" using l by simp
    have "log_err (announce X (BrokerEvent ev (Some n) t0 BROKER_INFO_TOPIC)) b = (Done (), ?u)"
      using Inl Some l by (simp add: log_err_def announce_def unlock_core_def)
    moreover have "tell rules (now_ns X) ev n (view b) = view b"
      using Inl core by (simp add: tell_def bus_event_def rules_of_def)
    ultimately show ?thesis using g unfolding u by simp
  next
    case (Inr p)
    let ?f = "frame_new KPublish (Some (c_name (obj b k))) (Some BROKER_INFO_TOPIC) None p 0 (is_realtime QosNo)"
    let ?D = "recipients smv topic_match (\<lambda>sub. not_excluded X BROKER_INFO_TOPIC sub) BROKER_INFO_TOPIC"
    have ev: "bus_event rules (now_ns X) ev n (view b) = Some ?f"
      using Inr core by (simp add: bus_event_def rules_of_def)
    then have sp: "has_space (\<lambda>_. wants rules BROKER_INFO_TOPIC) (view b)" using fit by (simp add: tell_fits_def)
    have D: "c \<in> ?D b \<longleftrightarrow> live b c \<and> wants rules BROKER_INFO_TOPIC (mem b c)" for c
      using recipients_wants [OF g, of c "\<lambda>_. True"] by simp
    have same: "?D ?b = ?D b" by (simp add: recipients_def live_def)
    have rm: "room ?b c" if "c \<in> ?D ?b" for c
      using that view_room [OF g _ sp, of c] D [of c] unfolding same by simp
    have "\<exists>b'. publish X (announce_fuel X 0) k BROKER_INFO_TOPIC None p 0 (word_of_nat (length p))
          (is_realtime QosNo) None ?b = (Done (), b') \<and>
        posted chq chcap chclosed (frame_new KPublish (Some (c_name (obj ?b k))) (Some BROKER_INFO_TOPIC) None p 0
          (is_realtime QosNo)) (?D ?b) ?b b'"
      unfolding publish_def
      by (rule publish_where_room [OF bus_good_locks [OF g] _ rm]) (simp add: not_excluded_def, assumption)
    then obtain b' where b': "publish X (announce_fuel X 0) k BROKER_INFO_TOPIC None p 0 (word_of_nat (length p))
          (is_realtime QosNo) None ?b = (Done (), b')" "posted chq chcap chclosed ?f (?D b) ?b b'"
      unfolding same by auto
    let ?u = "b'\<lparr>b_rpc_locked := False, b_core_locked := False\<rparr>"
    have u: "posted chq chcap chclosed ?f (?D b) b ?u" by (rule posted_unlock [OF b'(2) l])
    have "log_err (announce X (BrokerEvent ev (Some n) t0 BROKER_INFO_TOPIC)) b = (Done (), ?u)"
      using Inr Some l b'(1) by (simp add: log_err_def announce_def unlock_core_def)
    moreover have "view ?u = put ?f (\<lambda>_. wants rules BROKER_INFO_TOPIC) (view b)"
      by (rule posted_view [OF u g]) (simp add: D)
    ultimately show ?thesis using posted_good [OF u g] ev by (simp add: tell_def)
  qed
qed

text \<open>Dropping a client.\<close>

lemma drop_subscriptions:
  "smv (b_subscriptions (drop_client X c b)) d = None \<or>
     smv (b_subscriptions (drop_client X c b)) d = smv (b_subscriptions b) d"
  "smv (b_subscriptions (drop_secondaries X ss b)) d = None \<or>
     smv (b_subscriptions (drop_secondaries X ss b)) d = smv (b_subscriptions b) d"
proof (induction X\<equiv>X c b and X\<equiv>X ss b rule: drop_client_drop_secondaries.induct)
  case (1 c b)
  have d: "smv (b_subscriptions (deregister X c b)) d = None \<or>
      smv (b_subscriptions (deregister X c b)) d = smv (b_subscriptions b) d"
    by (cases "cref_of b c") (simp add: deregister_simps smv_unregister)
  show ?case
  proof (cases "c < length (b_objs b) \<and> c_registered (obj b c)")
    case True
    with 1 d show ?thesis by (subst (1 2) drop_client.simps) (auto simp: Let_def split: option.splits)
  qed auto
next
  case (3 s ss b)
  then show ?case by (cases "b_clients b s") (auto simp: drop_secondaries.simps split: if_splits)
qed simp

end

lemma drop_client_force: "b_force_register (drop_client X c b) = b_force_register b"
  using db_frame_drop(1) [of b X c] by (cases b; cases "drop_client X c b") (simp add: db_frame_def)

context broker_libs
begin

lemma drop_view:
  assumes g: "good N b" and c: "b_clients b n = Some c"
  shows "good N (drop_client X c b) \<and> view (drop_client X c b) = without n (view b)"
proof -
  let ?b = "drop_client X c b"
  have l: "live b c" "c_name (obj b c) = n" using c goodD(6) [OF g] by blast+
  have i: "dbi N ?b" using drop_client_inv [OF goodD(1) [OF g]] .
  have lv: "live ?b k \<Longrightarrow> live b k" for k using live_drop_client [OF goodD(1) [OF g]] .
  have fr: "live b k \<Longrightarrow> obj_frame (obj b k) (obj ?b k)" for k by (simp add: drop_client_obj live_def)
  have "client_good X amv acl_match chclosed (obj ?b k)" if "live ?b k" for k
    using goodD(5) [OF g lv [OF that]] obj_frameD [OF fr [OF lv [OF that]]] by (simp add: client_good_def)
  with g i have gd: "good N ?b" by (auto simp: bus_good_def)
  have cl: "b_clients ?b m = (if family n m then None else b_clients b m)" for m
    using drop_client_clients [OF goodD(1) [OF g] l(1)] goodD(7) [OF g l(1)] l(2)
    by (auto simp: removed_by_def family_def obj_wf_def)
  have "mem ?b k = mem b k" if "b_clients ?b m = Some k" for m k
  proof -
    have k: "live ?b k" using that goodD(6) [OF gd] by blast
    note f = obj_frameD [OF fr [OF lv [OF k]]]
    obtain S where S: "smv (b_subscriptions ?b) (c_digest (obj b k)) = Some (k, S)"
      using goodD(8) [OF gd k] f by auto
    then have "smv (b_subscriptions ?b) (c_digest (obj b k)) = smv (b_subscriptions b) (c_digest (obj b k))"
      using drop_subscriptions(1) [of c b "c_digest (obj b k)"] by simp
    with f show ?thesis by (simp add: member_of_def)
  qed
  then have "map_option (mem ?b) (b_clients ?b m) = map_option (mem b) (b_clients ?b m)" for m
    by (cases "b_clients ?b m") auto
  then have "view ?b = without n (view b)"
    by (simp add: bus_view_def without_def fun_eq_iff cl drop_client_force)
  with gd show ?thesis by blast
qed

lemma unregister_view:
  assumes g: "good N b" and c: "b_clients b n = Some c"
    and fit: "primary_of n = n \<longrightarrow> tell_fits rules (now_ns X) ''unreg'' n (without n (view b))"
  shows "\<exists>b'. unregister_client X c b = (Done (), b') \<and> good N b' \<and>
    view b' = (if primary_of n = n then tell rules (now_ns X) ''unreg'' n (without n (view b)) else without n (view b))"
proof -
  have l: "live b c" "c_name (obj b c) = n" using c goodD(6) [OF g] by blast+
  then have p: "c_primary (obj b c) \<longleftrightarrow> primary_of n = n" "c_registered (obj b c)"
    using goodD(7) [OF g l(1)] by (auto simp: obj_wf_def live_def)
  note d = drop_view [OF g c]
  show ?thesis
  proof (cases "primary_of n = n")
    case True
    with announce_tells [of N "drop_client X c b" "''unreg''" n 0] d fit p l show ?thesis
      by (auto simp: unregister_client_def unregister_client_with_def event_unreg_def)
  next
    case False
    with d p show ?thesis by (simp add: unregister_client_def unregister_client_with_def)
  qed
qed

end

lemma inserted_fields:
  "c_tx (obj (inserted X c b) k) = c_tx (obj b k)" "c_exclusions (obj (inserted X c b) k) = c_exclusions (obj b k)"
  "c_has_exclusions (obj (inserted X c b) k) = c_has_exclusions (obj b k)"
  "b_rpc_client (inserted X c b) = b_rpc_client b" "b_rpc_locked (inserted X c b) = b_rpc_locked b"
  "b_core_locked (inserted X c b) = b_core_locked b" "b_force_register (inserted X c b) = b_force_register b"
  by (simp_all add: inserted_def insert_client_def Let_def upd_obj_def nth_upd)

text \<open>A client object as \<open>register_client\<close> finds it.\<close>

definition fresh_object ::
  "('sm, 'bm, 'am, 'ch) ctx \<Rightarrow> string set \<Rightarrow> string \<Rightarrow> usize \<Rightarrow> ('sm, 'bm, 'am, 'ch) broker \<Rightarrow> cid \<Rightarrow> bool" where
  "fresh_object X N n sz b c \<longleftrightarrow> c < length (b_objs b) \<and> \<not> c_registered (obj b c) \<and> c_name (obj b c) = n \<and>
     obj_wf X (obj b c) \<and> n \<in> N \<and> 0 < sz \<and> c_tx (obj b c) = ch_bounded X sz \<and>
     c_exclusions (obj b c) = am_new X CHR ''/'' ''+'' ''#''"

context broker_libs
begin

text \<open>Adding a client.\<close>

lemma fresh_digest:
  assumes g: "good N b" and f: "fresh_object X N n sz b c" and n: "b_clients b n = None"
  shows "live b k \<Longrightarrow> c_digest (obj b k) \<noteq> c_digest (obj b c)"
    and "smv (b_subscriptions b) (c_digest (obj b c)) = None"
proof -
  have inj: "inj_on (sha256 X) N" using goodD(1) [OF g] by (simp add: db_inv_def)
  show d: "c_digest (obj b k) \<noteq> c_digest (obj b c)" if "live b k" for k
  proof
    assume "c_digest (obj b k) = c_digest (obj b c)"
    moreover have "c_name (obj b k) \<in> N"
      using goodD(1) [OF g] objs_okD [of X N b k] that by (simp add: db_inv_def db_inv_ex_def live_def)
    ultimately have "c_name (obj b k) = n"
      using f goodD(7) [OF g that] inj by (simp add: fresh_object_def obj_wf_def inj_on_def)
    then have "b_clients b n = Some k" using that goodD(6) [OF g] by blast
    with n show False by simp
  qed
  have "subs_ok smv b" using goodD(1) [OF g] by (simp add: db_inv_def db_inv_ex_def)
  with d show "smv (b_subscriptions b) (c_digest (obj b c)) = None"
    unfolding subs_ok_def by (metis not_None_eq prod.collapse)
qed

lemma inserted_subscriptions:
  assumes "smv (b_subscriptions b) (c_digest (obj b c)) = None"
    and "b_clients b (c_name (obj b c)) = None"
    and "c_primary (obj b c) \<or> b_clients b (c_primary_name (obj b c)) \<noteq> None"
  shows "smv (b_subscriptions (inserted X c b)) =
    (smv (b_subscriptions b))(c_digest (obj b c) \<mapsto> (c, {BROKER_WARN_TOPIC}))"
proof -
  obtain ok m where sm: "sm_subscribe X BROKER_WARN_TOPIC (c_digest (obj b c), c)
      (sm_register_client X (c_digest (obj b c), c) (b_subscriptions b)) = (ok, m)" by force
  with smv_subscribe [OF sm] assms show ?thesis
    by (simp add: smv_register inserted_simps(2) cref_of_def)
qed

lemma inserted_view:
  assumes g: "good N b" and f: "fresh_object X N n sz b c" and n: "b_clients b n = None"
    and pri: "primary_of n = n \<or> b_clients b (primary_of n) = Some p"
  shows "good N (inserted X c b) \<and> view (inserted X c b) = with_member n (new_member sz) (view b)"
proof -
  let ?b = "inserted X c b"
  have c: "c < length (b_objs b)" "\<not> c_registered (obj b c)" "c_name (obj b c) = n"
    and wf: "c_digest (obj b c) = sha256 X n" "c_primary_name (obj b c) = primary_of n"
      "c_primary (obj b c) \<longleftrightarrow> primary_of n = n"
    using f by (simp_all add: fresh_object_def obj_wf_def)
  have pri1: "c_primary (obj b c) \<or> b_clients b (c_primary_name (obj b c)) = Some p" using pri wf by simp
  then have pri2: "c_primary (obj b c) \<or> b_clients b (c_primary_name (obj b c)) \<noteq> None" by auto
  have n': "b_clients b (c_name (obj b c)) = None" using n c by simp
  note si = inserted_simps [OF n' pri2, of X] and oi = obj_inserted [OF n' pri1 c(1), of X]
  have i: "dbi N ?b" by (rule inserted_inv [OF goodD(1) [OF g] c(1,2) n' pri1])
  have lv: "live ?b k \<longleftrightarrow> live b k \<or> k = c" for k using c by (auto simp: live_def si oi)
  have new: "client_good X amv acl_match chclosed (obj b c)"
    using f by (simp add: client_good_def fresh_object_def amv_new ch_bounded)
  then have "client_good X amv acl_match chclosed (obj ?b k)" if "live ?b k" for k
    using that goodD(5) [OF g, of k] lv [of k] by (auto simp: client_good_def inserted_fields)
  with g i have gd: "good N ?b" by (auto simp: bus_good_def inserted_fields si)
  note sub = inserted_subscriptions [OF fresh_digest(2) [OF g f n] n' pri2]
  have "mem ?b c = new_member sz"
    using f by (simp add: member_of_def sub oi inserted_fields new_member_def fresh_object_def amv_new ch_bounded)
  moreover have "mem ?b k = mem b k" if "live b k" for k
    using fresh_digest(1) [OF g f n that] by (simp add: member_of_def sub oi inserted_fields)
  then have "map_option (mem ?b) (b_clients b m) = map_option (mem b) (b_clients b m)" for m
    using goodD(6) [OF g, of m] by (cases "b_clients b m") auto
  ultimately have "view ?b = with_member n (new_member sz) (view b)"
    using oi by (simp add: bus_view_def with_member_def fun_eq_iff si c inserted_fields)
  with gd show ?thesis by blast
qed

lemma trigger_view:
  assumes "good N b"
  shows "good N (trigger c b) \<and> view (trigger c b) = view b"
proof -
  have o: "c_exclusions (obj (trigger c b) k) = c_exclusions (obj b k)"
    "c_has_exclusions (obj (trigger c b) k) = c_has_exclusions (obj b k)" for k
    by (simp_all add: trigger_def upd_obj_def nth_upd)
  have t: "b_rpc_client (trigger c b) = b_rpc_client b" "b_rpc_locked (trigger c b) = b_rpc_locked b"
    "b_core_locked (trigger c b) = b_core_locked b" "b_force_register (trigger c b) = b_force_register b"
    by (simp_all add: trigger_def upd_obj_def)
  have "mem (trigger c b) = mem b" by (rule ext) (simp add: member_of_def obj_trigger o)
  then show ?thesis
    using assms by (simp add: bus_good_def db_inv_def client_good_def obj_trigger o t bus_view_def)
qed

lemma register_entry_view:
  assumes g: "good N b" and f: "fresh_object X N n sz b c"
  shows "case join_check n (view b) of
      Some e \<Rightarrow> \<exists>err. register_entry X c b = (Inl err, b) \<and> e_kind err = e
    | None \<Rightarrow> \<exists>b'. register_entry X c b = (Inr (), b') \<and> good N b' \<and> view b' = entered n sz (view b)"
proof -
  have c: "c < length (b_objs b)" "\<not> c_registered (obj b c)" "c_name (obj b c) = n"
    and wf: "c_primary_name (obj b c) = primary_of n" "c_primary (obj b c) \<longleftrightarrow> primary_of n = n"
    using f by (simp_all add: fresh_object_def obj_wf_def)
  note ic = insert_client_cases [OF c(1), of X, unfolded Let_def c(3) wf]
  have force: "bs_force (view b) = b_force_register b" by (simp add: bus_view_def)
  show ?thesis
  proof (cases "join_check n (view b)")
    case (Some e)
    then show ?thesis
      by (auto simp: join_check_def register_entry_def ic c wf force split: if_splits)
  next
    case None
    show ?thesis
    proof (cases "b_clients b n")
      case free: None
      then obtain p where "primary_of n = n \<or> b_clients b (primary_of n) = Some p"
        using None by (auto simp: join_check_def split: if_splits)
      from inserted_view [OF g f free this] None free show ?thesis
        by (auto simp: register_entry_def ic c wf entered_def join_check_def Let_def split: if_splits)
    next
      case (Some prev)
      then have pr: "primary_of n = n" "b_force_register b" using None by (auto simp: join_check_def force split: if_splits)
      have l: "live b prev" "c_name (obj b prev) = n" using Some goodD(6) [OF g] by blast+
      let ?t = "trigger prev (drop_client X prev b)"
      have t: "good N ?t \<and> view ?t = without n (view b)"
        using drop_view [OF g Some] trigger_view by metis
      have "\<not> live b c" using c(2) by (simp add: live_def)
      then have "\<not> live (drop_client X prev b) c" using live_drop_client [OF goodD(1) [OF g]] by blast
      then have "\<not> c_registered (obj (drop_client X prev b) c)" using c(1) by (simp add: live_def)
      moreover have "c_exclusions (obj ?t c) = c_exclusions (obj (drop_client X prev b) c)"
        by (simp add: trigger_def upd_obj_def nth_upd)
      moreover note obj_frameD [OF drop_client_obj [OF c(1), of prev]]
      ultimately have ft: "fresh_object X N n sz ?t c"
        using f by (simp add: fresh_object_def obj_trigger obj_wf_def)
      have free: "b_clients ?t n = None"
        using drop_client_clients [OF goodD(1) [OF g] l(1)] l(2) by (simp add: removed_by_def)
      have "register_entry X c b = insert_client X c ?t"
        using Some pr c wf l by (simp add: register_entry_def ic drop_client_removed)
      also have "insert_client X c ?t = (Inr (), inserted X c ?t)"
        using free ft pr by (simp add: insert_client_cases fresh_object_def obj_wf_def)
      finally show ?thesis
        using inserted_view [OF conjunct1 [OF t] ft free] pr t Some None by (simp add: entered_def)
    qed
  qed
qed

lemma alloc_view:
  assumes g: "good N b" and n: "n \<in> N" "0 < sz"
    and cl: "cl = bus_client_new X n (primary_of n) sz kind src port"
  shows "good N (snd (alloc cl b)) \<and> view (snd (alloc cl b)) = view b \<and>
    fresh_object X N n sz (snd (alloc cl b)) (length (b_objs b))"
proof -
  let ?b = "snd (alloc cl b)"
  have sm: "b_clients ?b = b_clients b" "b_subscriptions ?b = b_subscriptions b" "b_rpc_client ?b = b_rpc_client b"
    "b_rpc_locked ?b = b_rpc_locked b" "b_core_locked ?b = b_core_locked b" "b_force_register ?b = b_force_register b"
    by (simp_all add: alloc_def)
  have ob: "k < length (b_objs b) \<Longrightarrow> obj ?b k = obj b k" for k by (simp add: alloc_def nth_append)
  have nr: "\<not> c_registered cl" "c_secondaries cl = []" "c_name cl = n" "c_tx cl = ch_bounded X sz"
    "c_exclusions cl = am_new X CHR ''/'' ''+'' ''#''" by (simp_all add: cl bus_client_new_def)
  have wf: "obj_wf X cl" by (simp add: cl bus_client_new_wf)
  have i: "dbi N ?b" using alloc_inv [OF goodD(1) [OF g] wf _ nr(1,2)] nr(3) n by simp
  have lv: "live ?b k \<longleftrightarrow> live b k" for k using nr(1) by (auto simp: live_def alloc_def nth_append less_Suc_eq)
  have "client_good X amv acl_match chclosed (obj ?b k)" if "live ?b k" for k
    using that goodD(5) [OF g, of k] ob [of k] lv [of k] by (simp add: live_def)
  with g i have "good N ?b" by (auto simp: bus_good_def sm alloc_simps less_Suc_eq)
  moreover have "mem ?b k = mem b k" if "b_clients b m = Some k" for m k
    using that goodD(6) [OF g, of m k] ob [of k] by (simp add: member_of_def sm live_def)
  then have "map_option (mem ?b) (b_clients b m) = map_option (mem b) (b_clients b m)" for m
    by (cases "b_clients b m") auto
  then have "view ?b = view b"
    using goodD(4) [OF g] ob by (cases "b_rpc_client b") (simp_all add: bus_view_def sm fun_eq_iff)
  moreover have "fresh_object X N n sz ?b (length (b_objs b))"
    using nr wf n by (simp add: fresh_object_def alloc_simps)
  ultimately show ?thesis by blast
qed

lemma register_client_view:
  assumes g: "good N b" and f: "fresh_object X N n sz b c"
    and fit: "join_check n (view b) = None \<and> primary_of n = n \<longrightarrow>
      tell_fits rules (now_ns X) ''reg'' n (entered n sz (view b))"
  shows "case join_check n (view b) of
      Some e \<Rightarrow> \<exists>err. register_client X c b = (Bail err, b) \<and> e_kind err = e
    | None \<Rightarrow> \<exists>b'. register_client X c b = (Done (), b') \<and> good N b' \<and>
        view b' = (if primary_of n = n then tell rules (now_ns X) ''reg'' n (entered n sz (view b))
                   else entered n sz (view b))"
proof -
  note e = register_entry_view [OF g f]
  have c: "c_name (obj b c) = n" "c_primary (obj b c) \<longleftrightarrow> primary_of n = n"
    using f by (simp_all add: fresh_object_def obj_wf_def)
  show ?thesis
  proof (cases "join_check n (view b)")
    case (Some err)
    with e show ?thesis by (auto simp: register_client_def)
  next
    case None
    with e obtain b' where b': "register_entry X c b = (Inr (), b')" "good N b'" "view b' = entered n sz (view b)"
      by auto
    with None c fit announce_tells [OF b'(2), of "''reg''" n 0] show ?thesis
      by (auto simp: register_client_def event_reg_def)
  qed
qed

lemma join_simulates:
  assumes g: "good N b" and fit: "cmd_fits rules N (now_ns X) (CmdJoin n sz) (view b)"
  shows "fst (bus_exec X chq (CmdJoin n sz) b) = fst (spec_step rules (now_ns X) (CmdJoin n sz) (view b)) \<and>
    view (snd (bus_exec X chq (CmdJoin n sz) b)) = snd (spec_step rules (now_ns X) (CmdJoin n sz) (view b)) \<and>
    good N (snd (bus_exec X chq (CmdJoin n sz) b))"
proof -
  let ?cl = "bus_client_new X n (primary_of n) sz Internal None None"
  let ?b = "snd (alloc ?cl b)" and ?c = "length (b_objs b)"
  have al: "broker_register_client X sz n b = act_then (register_client X ?c)
      (\<lambda>_ b'. (Done \<lparr>k_name = n, k_bus = ?c, k_rx = True, k_secondary_counter = 0\<rparr>, b')) ?b"
    by (simp add: broker_register_client_def alloc_def)
  have a: "good N ?b" "view ?b = view b" "fresh_object X N n sz ?b ?c"
    using alloc_view [OF g _ _ refl, of n sz Internal None None] fit by simp_all
  have fit': "join_check n (view ?b) = None \<and> primary_of n = n \<longrightarrow>
      tell_fits rules (now_ns X) ''reg'' n (entered n sz (view ?b))" unfolding a(2) using fit by simp
  note r = register_client_view [OF a(1,3) fit', unfolded a(2)]
  show ?thesis
  proof (cases "join_check n (view b)")
    case (Some e)
    with r obtain err where "register_client X ?c ?b = (Bail err, ?b)" "e_kind err = e" by auto
    with Some a al show ?thesis by (simp add: act_then_def)
  next
    case None
    with r obtain b' where "register_client X ?c ?b = (Done (), b')" "good N b'"
      "view b' = (if primary_of n = n then tell rules (now_ns X) ''reg'' n (entered n sz (view b))
                   else entered n sz (view b))" by auto
    with None al show ?thesis by (simp add: act_then_def)
  qed
qed

text \<open>Subscriptions and exclusions.\<close>

lemma masks_view:
  assumes g: "good N b" and c: "b_clients b n = Some c" and S: "smv (b_subscriptions b) (c_digest (obj b c)) = Some (c, S)"
    and m: "smv m = (smv (b_subscriptions b))(c_digest (obj b c) \<mapsto> (c, F S))"
  shows "good N (b\<lparr>b_subscriptions := m\<rparr>)"
    and "view (b\<lparr>b_subscriptions := m\<rparr>) = change n (\<lambda>x. x\<lparr>mb_topics := F (mb_topics x)\<rparr>) (view b)"
proof -
  let ?b = "b\<lparr>b_subscriptions := m\<rparr>"
  have lv: "live ?b k = live b k" for k by (simp add: live_def)
  have "dbi N ?b" by (rule subs_ok_masks [OF goodD(1) [OF g]]) (use S in \<open>auto simp: m\<close>)
  with g show "good N ?b" by (simp add: bus_good_def lv)
  have l: "live b c" "c_name (obj b c) = n" using c goodD(6) [OF g] by blast+
  have "mem ?b k = (if j = n then (mem b k)\<lparr>mb_topics := F (mb_topics (mem b k))\<rparr> else mem b k)"
    if "b_clients b j = Some k" for j k
  proof (cases "j = n")
    case True
    with that c S show ?thesis by (simp add: member_of_def m)
  next
    case False
    then have "k \<noteq> c" "live b k" using that l goodD(6) [OF g, of j k] by auto
    then have "c_digest (obj b k) \<noteq> c_digest (obj b c)"
      using digest_unique [of X N b k c] goodD(1) [OF g] l(1) by (auto simp: db_inv_def db_inv_ex_def)
    with False show ?thesis by (simp add: member_of_def m)
  qed
  then have "map_option (mem ?b) (b_clients b j) =
      (if j = n then map_option (\<lambda>x. x\<lparr>mb_topics := F (mb_topics x)\<rparr>) (map_option (mem b) (b_clients b j))
       else map_option (mem b) (b_clients b j))" for j
    by (cases "b_clients b j") auto
  then show "view ?b = change n (\<lambda>x. x\<lparr>mb_topics := F (mb_topics x)\<rparr>) (view b)"
    by (auto simp: bus_view_def change_def fun_eq_iff)
qed

lemma subscribe_bulk_view:
  assumes "good N b" and "b_clients b n = Some (k_bus k)"
  shows "\<exists>b'. client_subscribe_bulk X k ts qos b = (Done (make_confirm_channel qos), b') \<and> good N b' \<and>
    view b' = change n (\<lambda>m. m\<lparr>mb_topics := mb_topics m \<union> set ts\<rparr>) (view b)"
  using assms
proof (induction ts arbitrary: b)
  case Nil
  then show ?case by simp
next
  case (Cons t ts)
  let ?c = "k_bus k"
  obtain S where S: "smv (b_subscriptions b) (c_digest (obj b ?c)) = Some (?c, S)"
    using goodD(8) [OF Cons.prems(1)] goodD(6) [OF Cons.prems(1)] Cons.prems(2) by blast
  obtain ok m where sm: "sm_subscribe X t (c_digest (obj b ?c), ?c) (b_subscriptions b) = (ok, m)" by force
  have m: "ok" "smv m = (smv (b_subscriptions b))(c_digest (obj b ?c) \<mapsto> (?c, insert t S))"
    using smv_subscribe [OF sm] S by simp_all
  note v = masks_view [where F = "insert t", OF Cons.prems S m(2)]
  from Cons.IH [OF v(1)] Cons.prems(2) obtain b' where
    "client_subscribe_bulk X k ts qos (b\<lparr>b_subscriptions := m\<rparr>) = (Done (make_confirm_channel qos), b')" "good N b'"
    "view b' = change n (\<lambda>m. m\<lparr>mb_topics := mb_topics m \<union> set ts\<rparr>) (view (b\<lparr>b_subscriptions := m\<rparr>))"
    by auto
  with m(1) sm v(2) show ?case
    by (auto simp: cref_of_def change_change)
qed

lemma unsubscribe_bulk_view:
  assumes "good N b" and "b_clients b n = Some (k_bus k)"
  shows "\<exists>b'. client_unsubscribe_bulk X k ts qos b = (Done (make_confirm_channel qos), b') \<and> good N b' \<and>
    view b' = change n (\<lambda>m. m\<lparr>mb_topics := mb_topics m - set ts\<rparr>) (view b)"
  using assms
proof (induction ts arbitrary: b)
  case Nil
  then show ?case by simp
next
  case (Cons t ts)
  let ?c = "k_bus k"
  obtain S where S: "smv (b_subscriptions b) (c_digest (obj b ?c)) = Some (?c, S)"
    using goodD(8) [OF Cons.prems(1)] goodD(6) [OF Cons.prems(1)] Cons.prems(2) by blast
  obtain ok m where sm: "sm_unsubscribe X t (c_digest (obj b ?c), ?c) (b_subscriptions b) = (ok, m)" by force
  have m: "ok" "smv m = (smv (b_subscriptions b))(c_digest (obj b ?c) \<mapsto> (?c, S - {t}))"
    using smv_unsubscribe [OF sm] S by simp_all
  note v = masks_view [where F = "\<lambda>S. S - {t}", OF Cons.prems S m(2)]
  from Cons.IH [OF v(1)] Cons.prems(2) obtain b' where
    "client_unsubscribe_bulk X k ts qos (b\<lparr>b_subscriptions := m\<rparr>) = (Done (make_confirm_channel qos), b')" "good N b'"
    "view b' = change n (\<lambda>m. m\<lparr>mb_topics := mb_topics m - set ts\<rparr>) (view (b\<lparr>b_subscriptions := m\<rparr>))"
    by auto
  with m(1) sm v(2) show ?case
    by (auto simp: cref_of_def change_change Diff_insert2 [of _ t "set ts"])
qed

lemma upd_obj_view:
  assumes g: "good N b" and c: "b_clients b n = Some c" and same: "\<And>cl. same_obj cl (u cl)"
    and ok: "client_good X amv acl_match chclosed (obj b c) \<Longrightarrow> client_good X amv acl_match chclosed (u (obj b c))"
    and h: "mem (upd_obj c u b) c = h (mem b c)"
  shows "good N (upd_obj c u b) \<and> view (upd_obj c u b) = change n h (view b)"
proof -
  let ?b = "upd_obj c u b"
  have s: "same_registry b ?b" by (rule same_registry_upd_obj [OF same])
  have lc: "live b c" "c_name (obj b c) = n" using c goodD(6) [OF g] by blast+
  have o: "obj ?b k = (if k = c then u (obj b c) else obj b k)" for k
    using lc by (simp add: upd_obj_def nth_upd live_def)
  have "client_good X amv acl_match chclosed (obj ?b k)" if "live ?b k" for k
    using that ok goodD(5) [OF g, of k] same_registryD(6) [OF s, of k] by (auto simp: o)
  with g same_registry_inv [OF s] have gd: "good N ?b" by (auto simp: bus_good_def)
  have other: "mem ?b k = mem b k" if "k \<noteq> c" for k using that by (simp add: member_of_def o)
  have "map_option (mem ?b) (b_clients b j) =
      (if j = n then map_option h (map_option (mem b) (b_clients b j)) else map_option (mem b) (b_clients b j))" for j
  proof (cases "j = n")
    case False
    then have "b_clients b j \<noteq> Some c" using goodD(6) [OF g, of j c] lc by simp
    with False other show ?thesis by (cases "b_clients b j") auto
  qed (use c h in simp)
  moreover have "b_force_register ?b = b_force_register b" by (simp add: upd_obj_def)
  moreover have "c_name (obj ?b k) = c_name (obj b k)" for k using same by (simp add: o same_obj_def)
  ultimately have "view ?b = change n h (view b)"
    by (auto simp: bus_view_def change_def fun_eq_iff)
  with gd show ?thesis by blast
qed

lemma excl_folds:
  "amv (c_exclusions (fold (excl_insert X) ts cl)) = amv (c_exclusions cl) \<union> set ts"
  "acl_match (c_exclusions (fold (excl_insert X) ts cl)) = acl_match (c_exclusions cl)"
  "c_tx (fold (excl_insert X) ts cl) = c_tx cl" "c_has_exclusions (fold (excl_insert X) ts cl) = c_has_exclusions cl"
  "c_digest (fold (excl_insert X) ts cl) = c_digest cl"
  "amv (c_exclusions (fold (excl_remove X) ts cl)) = amv (c_exclusions cl) - set ts"
  "acl_match (c_exclusions (fold (excl_remove X) ts cl)) = acl_match (c_exclusions cl)"
  "c_tx (fold (excl_remove X) ts cl) = c_tx cl" "c_has_exclusions (fold (excl_remove X) ts cl) = c_has_exclusions cl"
  "c_digest (fold (excl_remove X) ts cl) = c_digest cl"
  by (induction ts arbitrary: cl)
     (auto simp: excl_insert_def excl_remove_def amv_insert amv_remove acl_match_insert acl_match_remove)

lemma exclude_view:
  assumes g: "good N b" and c: "b_clients b n = Some (k_bus k)"
  shows "good N (snd (client_exclude_bulk X k ts qos b)) \<and>
    view (snd (client_exclude_bulk X k ts qos b)) = change n (\<lambda>m. m\<lparr>mb_excluded := mb_excluded m \<union> set ts\<rparr>) (view b)"
proof -
  let ?u = "\<lambda>cl. fold (excl_insert X) ts (if ts \<noteq> [] then cl\<lparr>c_has_exclusions := True\<rparr> else cl)"
  have same: "same_obj cl (?u cl)" for cl :: "('am, 'ch) bus_client"
    by (rule same_obj_fold_excl(1)) (simp add: same_obj_def)
  have "k_bus k < length (b_objs b)" using c goodD(6) [OF g] live_less by blast
  then have "mem (upd_obj (k_bus k) ?u b) (k_bus k) = (mem b (k_bus k))\<lparr>mb_excluded := mb_excluded (mem b (k_bus k)) \<union> set ts\<rparr>"
    by (simp add: member_of_def upd_obj_def excl_folds)
  from upd_obj_view [where u = ?u and h = "\<lambda>m. m\<lparr>mb_excluded := mb_excluded m \<union> set ts\<rparr>", OF g c same _ this] show ?thesis
    by (simp add: client_exclude_bulk_def client_good_def excl_folds)
qed

lemma unexclude_view:
  assumes g: "good N b" and c: "b_clients b n = Some (k_bus k)"
  shows "good N (snd (client_unexclude_bulk X k ts qos b)) \<and>
    view (snd (client_unexclude_bulk X k ts qos b)) = change n (\<lambda>m. m\<lparr>mb_excluded := mb_excluded m - set ts\<rparr>) (view b)"
proof -
  let ?u = "\<lambda>cl. excl_settle X (fold (excl_remove X) ts cl)"
  have same: "same_obj cl (?u cl)" for cl :: "('am, 'ch) bus_client"
    using same_obj_fold_excl(2) [of cl cl ts] by (simp add: excl_settle_def same_obj_def)
  have ok: "client_good X amv acl_match chclosed cl \<Longrightarrow> client_good X amv acl_match chclosed (?u cl)" for cl
    by (auto simp: client_good_def excl_settle_def amv_is_empty excl_folds)
  have "k_bus k < length (b_objs b)" using c goodD(6) [OF g] live_less by blast
  then have "mem (upd_obj (k_bus k) ?u b) (k_bus k) = (mem b (k_bus k))\<lparr>mb_excluded := mb_excluded (mem b (k_bus k)) - set ts\<rparr>"
    by (simp add: member_of_def upd_obj_def excl_settle_def excl_folds)
  from upd_obj_view [where u = ?u and h = "\<lambda>m. m\<lparr>mb_excluded := mb_excluded m - set ts\<rparr>", OF g c same ok this] show ?thesis
    by (simp add: client_unexclude_bulk_def)
qed

lemma receive_view:
  assumes g: "good N b" and c: "b_clients b n = Some c"
  shows "good N (upd_obj c (\<lambda>cl. cl\<lparr>c_tx := ch_drain X j (c_tx cl)\<rparr>) b) \<and>
    view (upd_obj c (\<lambda>cl. cl\<lparr>c_tx := ch_drain X j (c_tx cl)\<rparr>) b) =
      change n (\<lambda>m. m\<lparr>mb_mail := drop j (mb_mail m)\<rparr>) (view b)"
proof -
  have "c < length (b_objs b)" using c goodD(6) [OF g] live_less by blast
  then show ?thesis
    by (intro upd_obj_view [OF g c])
       (simp_all add: same_obj_def client_good_def member_of_def upd_obj_def ch_drain)
qed

text \<open>Routing commands.\<close>

lemma targeted:
  assumes g: "good N b" and c: "b_clients b n = Some k" and sp: "has_space (\<lambda>j _. j = tgt) (view b)"
  shows "if bs_members (view b) tgt = None
    then \<exists>b'. send_msg X ann k tgt header buf pos len rt timeout b = (Done (Inl err_not_registered), b') \<and>
      good N b' \<and> view b' = view b
    else \<exists>b'. send_msg X ann k tgt header buf pos len rt timeout b = (Done (Inr ()), b') \<and> good N b' \<and>
      view b' = put (frame_new KMessage (Some n) None header buf pos rt) (\<lambda>j _. j = tgt) (view b)"
proof (cases "b_clients b tgt")
  case None
  have p: "posted chq chcap chclosed f {} b (count_r k len b)" for f by (rule posted_counters)
  have "view (count_r k len b) = put undefined (\<lambda>_ _. False) (view b)" by (rule posted_view [OF p g]) simp
  then have "view (count_r k len b) = view b" by (simp add: put_def option.map_ident)
  with None posted_good [OF p g] show ?thesis by (simp add: send_msg_def Let_def)
next
  case (Some t)
  have nm: "c_name (obj b k) = n" using c goodD(6) [OF g] by blast
  have "\<exists>b'. send_msg X ann k tgt header buf pos len rt timeout b = (Done (Inr ()), b') \<and> good N b' \<and>
      view b' = put (frame_new KMessage (Some (c_name (obj b k))) None header buf pos rt) (\<lambda>j _. j = tgt) (view b)"
  proof (rule routed [OF g _ sp, of "{t}"])
    show "j \<in> {t} \<longleftrightarrow> live b j \<and> c_name (obj b j) = tgt" for j using goodD(6) [OF g, of tgt j] Some by auto
  next
    assume "\<And>j. j \<in> {t} \<Longrightarrow> room b j"
    then show "\<exists>b'. send_msg X ann k tgt header buf pos len rt timeout b = (Done (Inr ()), b') \<and>
        posted chq chcap chclosed (frame_new KMessage (Some (c_name (obj b k))) None header buf pos rt) {t} b b'"
      by (intro send_msg_room [OF goodD(1) [OF g] Some]) simp
  qed
  with Some nm show ?thesis by simp
qed

lemma broadcast_routed:
  assumes g: "good N b" and sp: "has_space (\<lambda>j _. br_name rules tgt j) (view b)"
  shows "\<exists>b'. send_broadcast X ann client tgt header buf pos len rt timeout b = (Done (), b') \<and> good N b' \<and>
    view b' = put (frame_new KBroadcast (Some (c_name (obj b client))) None header buf pos rt)
      (\<lambda>j _. br_name rules tgt j) (view b)"
  by (rule routed [OF g _ sp, of "mask_recipients name_match tgt b"])
     (simp add: mask_recipients_def rules_of_def, rule send_broadcast_room [OF goodD(1) [OF g]])

section \<open>The refinement\<close>

abbreviation agrees :: "string set \<Rightarrow> bus_cmd \<Rightarrow> ('sm, 'bm, 'am, 'ch) broker \<Rightarrow> bool" where
  "agrees N cmd b \<equiv>
     fst (bus_exec X chq cmd b) = fst (spec_step rules (now_ns X) cmd (view b)) \<and>
     view (snd (bus_exec X chq cmd b)) = snd (spec_step rules (now_ns X) cmd (view b)) \<and>
     good N (snd (bus_exec X chq cmd b))"

lemma sends_simulate:
  assumes g: "good N b" and c: "b_clients b n = Some c"
  shows "has_space (\<lambda>j _. j = tgt) (view b) \<Longrightarrow> agrees N (CmdSend n tgt p qos) b"
    and "has_space (\<lambda>j _. j = tgt) (view b) \<Longrightarrow> agrees N (CmdZcSend n tgt h p qos) b"
    and "has_space (\<lambda>j _. br_name rules mk j) (view b) \<Longrightarrow> agrees N (CmdBroadcast n mk p qos) b"
    and "has_space (\<lambda>_. wants rules topic) (view b) \<Longrightarrow> agrees N (CmdPublish n topic p qos) b"
    and "has_space (\<lambda>j m. primary_of j = rcv \<and> wants rules topic m) (view b) \<Longrightarrow>
      agrees N (CmdPublishFor n topic rcv p qos) b"
proof -
  have h: "k_bus (handle_of b n) = c" using c by (simp add: handle_of_def)
  have nm: "c_name (obj b c) = n" using c goodD(6) [OF g] by blast
  note defs = note_of_def act_then_def h nm try_result_def
  show "agrees N (CmdSend n tgt p qos) b" if "has_space (\<lambda>j _. j = tgt) (view b)"
    using targeted [OF g c that, where ann = "announce X" and header = None and buf = "cow_to_vec p" and pos = 0
        and len = "word_of_nat (cow_len p)" and rt = "is_realtime qos" and timeout = None]
    by (auto simp: client_send_def defs split: if_splits)
  show "agrees N (CmdZcSend n tgt h p qos) b" if "has_space (\<lambda>j _. j = tgt) (view b)"
    using targeted [OF g c that, where ann = "announce X" and header = "Some (cow_to_vec h)" and buf = "cow_to_vec p"
        and pos = 0 and len = "word_of_nat (cow_len p + cow_len h)" and rt = "is_realtime qos" and timeout = None]
    by (auto simp: client_zc_send_def defs split: if_splits)
  show "agrees N (CmdBroadcast n mk p qos) b" if "has_space (\<lambda>j _. br_name rules mk j) (view b)"
    using broadcast_routed [OF g that, where ann = "announce X" and client = c and header = None and buf = "cow_to_vec p"
        and pos = 0 and len = "word_of_nat (cow_len p)" and rt = "is_realtime qos" and timeout = None]
    by (auto simp: client_send_broadcast_def defs)
  show "agrees N (CmdPublish n topic p qos) b" if "has_space (\<lambda>_. wants rules topic) (view b)"
    using publish_plain [OF g that, where ann = "announce X" and client = c and header = None and buf = "cow_to_vec p"
        and pos = 0 and len = "word_of_nat (cow_len p)" and rt = "is_realtime qos" and timeout = None]
    by (auto simp: client_publish_def defs)
  show "agrees N (CmdPublishFor n topic rcv p qos) b"
    if "has_space (\<lambda>j m. primary_of j = rcv \<and> wants rules topic m) (view b)"
    using publish_routed [where Q = "\<lambda>r. r = rcv", OF g that, where ann = "announce X" and client = c and header = None
        and buf = "cow_to_vec p" and pos = 0 and len = "word_of_nat (cow_len p)" and rt = "is_realtime qos" and timeout = None]
    by (auto simp: client_publish_for_def publish_for_def defs)
qed

lemma exec_simulates:
  assumes g: "good N b" and fit: "cmd_fits rules N (now_ns X) cmd (view b)"
  shows "agrees N cmd b"
proof -
  have c: "b_clients b n = Some (k_bus (handle_of b n))" if "bs_members (view b) n \<noteq> None" for n
    using that by (auto simp: handle_of_def)
  have c': "b_clients b n = Some (k_bus (handle_of b n))" if "b_clients b n \<noteq> None" for n
    using c that by simp
  show ?thesis
  proof (cases cmd)
    case (CmdJoin n sz)
    then show ?thesis using join_simulates [OF g] fit by simp
  next
    case (CmdLeave n)
    with fit unregister_view [OF g c, of n] show ?thesis by (auto simp: broker_unregister_client_def)
  next
    case (CmdDrop n)
    with fit drop_view [OF g c, of n] show ?thesis by (simp add: client_drop_def)
  next
    case (CmdCore n)
    have l: "live b (k_bus (handle_of b n))" "c_name (obj b (k_bus (handle_of b n))) = n"
      using c [of n] goodD(6) [OF g] fit CmdCore by auto
    have "mem (b\<lparr>b_rpc_client := r\<rparr>) = mem b" for r by (rule ext) (simp add: member_of_def)
    with CmdCore g l show ?thesis
      by (auto simp: set_core_rpc_client_def bus_good_def bus_view_def live_def)
  next
    case (CmdSubscribe n ts qos)
    with fit subscribe_bulk_view [OF g c, of n ts qos] show ?thesis by auto
  next
    case (CmdUnsubscribe n ts qos)
    with fit unsubscribe_bulk_view [OF g c, of n ts qos] show ?thesis by auto
  next
    case (CmdExclude n ts qos)
    with fit exclude_view [OF g c, of n ts qos] show ?thesis by (simp add: client_exclude_bulk_def)
  next
    case (CmdUnexclude n ts qos)
    with fit unexclude_view [OF g c, of n ts qos] show ?thesis by (simp add: client_unexclude_bulk_def)
  next
    case (CmdReceive n j)
    with fit receive_view [OF g c, of n j] c [of n] show ?thesis
      by (simp add: Let_def bus_view_def member_of_def)
  qed (use fit in \<open>auto intro!: sends_simulate [OF g c'] simp del: bus_exec.simps spec_step.simps\<close>)
qed

end

text \<open>Each call has its clock reading and its way for waiting sends to end.\<close>

definition timed_exec ::
  "('sm, 'bm, 'am, 'ch) ctx \<Rightarrow> ('ch \<Rightarrow> frame list) \<Rightarrow> u64 \<times> (cid \<Rightarrow> waited) \<times> bus_cmd
     \<Rightarrow> ('sm, 'bm, 'am, 'ch) broker \<Rightarrow> bus_result \<times> ('sm, 'bm, 'am, 'ch) broker" where
  "timed_exec X chq q = (case q of (t, w, cmd) \<Rightarrow> bus_exec (at_time t w X) chq cmd)"

definition timed_spec ::
  "bus_rules \<Rightarrow> u64 \<times> (cid \<Rightarrow> waited) \<times> bus_cmd \<Rightarrow> bus_state \<Rightarrow> bus_result \<times> bus_state" where
  "timed_spec R q = (case q of (t, w, cmd) \<Rightarrow> spec_step R t cmd)"

definition timed_fits ::
  "bus_rules \<Rightarrow> string set \<Rightarrow> u64 \<times> (cid \<Rightarrow> waited) \<times> bus_cmd \<Rightarrow> bus_state \<Rightarrow> bool" where
  "timed_fits R N q = (case q of (t, w, cmd) \<Rightarrow> cmd_fits R N t cmd)"

definition empty_bus :: "bool \<Rightarrow> bus_state" where
  "empty_bus force = \<lparr>bs_members = Map.empty, bs_core = None, bs_force = force\<rparr>"

lemma spec_never_blocks: "Blocked \<notin> set (fst (run_cmds (timed_spec R) qs s))"
proof (induction qs arbitrary: s)
  case (Cons q qs)
  obtain t w cmd where "q = (t, w, cmd)" by (cases q)
  then have "fst (timed_spec R q s) \<noteq> Blocked" by (cases cmd) (auto simp: timed_spec_def split: option.splits)
  with Cons show ?case by simp
qed simp

lemma at_time_bus:
  "bus_good (at_time t w X) smv bmv amv acl_match chclosed N b \<longleftrightarrow> bus_good X smv bmv amv acl_match chclosed N b"
  "rules_of (at_time t w X) topic_match name_match acl_match = rules_of X topic_match name_match acl_match"
  "now_ns (at_time t w X) = t"
  by (simp_all add: bus_good_def at_time_db_inv client_good_def rules_of_def) (simp_all add: at_time_def)

sublocale broker_libs \<subseteq> bus: functional_simulation "timed_exec X chq"
  "timed_spec (rules_of X topic_match name_match acl_match)" "timed_fits (rules_of X topic_match name_match acl_match) N"
  "bus_good X smv bmv amv acl_match chclosed N" "bus_view smv amv chq chcap" for N
proof
  fix b and q :: "u64 \<times> (cid \<Rightarrow> waited) \<times> bus_cmd"
  obtain t w cmd where q: "q = (t, w, cmd)" by (cases q)
  assume "bus_good X smv bmv amv acl_match chclosed N b"
    and "timed_fits (rules_of X topic_match name_match acl_match) N q (bus_view smv amv chq chcap b)"
  with broker_libs.exec_simulates [OF at_time_libs [OF broker_libs_axioms], unfolded at_time_bus, of N b t cmd w]
  show "fst (timed_exec X chq q b) = fst (timed_spec (rules_of X topic_match name_match acl_match) q (bus_view smv amv chq chcap b)) \<and>
    bus_view smv amv chq chcap (snd (timed_exec X chq q b)) =
      snd (timed_spec (rules_of X topic_match name_match acl_match) q (bus_view smv amv chq chcap b)) \<and>
    bus_good X smv bmv amv acl_match chclosed N (snd (timed_exec X chq q b))"
    by (simp add: q timed_exec_def timed_spec_def timed_fits_def)
qed

context broker_libs
begin

lemma create_view: "inj_on (sha256 X) N \<Longrightarrow> good N (broker_create X force) \<and> view (broker_create X force) = empty_bus force"
  using broker_create_inv [of N force]
  by (simp add: bus_good_def bus_view_def empty_bus_def broker_create_def broker_db_default_def live_def fun_eq_iff)

lemma runs_from_create:
  assumes "inj_on (sha256 X) N" and "fits_run (timed_spec rules) (timed_fits rules N) qs (empty_bus force)"
  shows "fst (run_cmds (timed_exec X chq) qs (broker_create X force)) = fst (run_cmds (timed_spec rules) qs (empty_bus force)) \<and>
    view (snd (run_cmds (timed_exec X chq) qs (broker_create X force))) = snd (run_cmds (timed_spec rules) qs (empty_bus force))"
  using bus.runs_agree [of N "broker_create X force" qs] create_view [OF assms(1), of force] assms(2) by simp

end

end
