(* ===== verification/Bus_Interleave.thy ===== *)
theory Bus_Interleave
  imports Bus_System
begin

text \<open>
  The routing operations of \<open>src/src/broker.rs\<close> with what happens at their awaits: a task is a stack of the
  pieces of code it still has to run, a step runs one piece up to its next await, and the pieces of all tasks
  interleave.  Tasks can be cancelled at an await, as \<open>select!\<close> and \<open>abort\<close> do, which releases the locks
  they hold.  A task that is alone does what the operation does as one step.
\<close>

section \<open>Pieces of work\<close>

text \<open>
  \<open>DeliverTo\<close>: the loop over the recipients taken from a map before.  \<open>CheckSend\<close>: \<open>safe_send_frame!\<close> up to
  its await.  \<open>PushFrame\<close>: \<open>tx.send(frame).await\<close>, within a timeout if there is one.  \<open>CloseQueue\<close>:
  \<open>tx.close()\<close> after \<open>unregister_client\<close>.  \<open>LockCore\<close>, \<open>LockClient\<close>: \<open>announce\<close> at the two locks.
  \<open>UnlockCore\<close>: the end of the announcement.
\<close>

datatype work =
  DeliverTo "duration option" u64 frame "cref list"
| CheckSend "duration option" cid frame
| PushFrame "duration option" cid frame
| CloseQueue cid
| LockCore broker_event
| LockClient broker_event cid
| UnlockCore

text \<open>\<open>send!\<close>, \<open>send_broadcast!\<close> and \<open>publish!\<close> up to their first await.\<close>

definition message_begin ::
  "cid \<Rightarrow> string \<Rightarrow> bytes option \<Rightarrow> bytes \<Rightarrow> usize \<Rightarrow> u64 \<Rightarrow> bool \<Rightarrow> duration option
     \<Rightarrow> ('sm, 'bm, 'am, 'ch) broker \<Rightarrow> work list \<times> ('sm, 'bm, 'am, 'ch) broker" where
  "message_begin client target header buf payload_pos len realtime timeout b =
     (let b1 = count_r client len b in
      case b_clients b1 target of
        Some tgt \<Rightarrow>
          ([CheckSend timeout tgt
              (frame_new KMessage (Some (c_name (obj b client))) None header buf payload_pos realtime)],
           db_w 1 len (client_w tgt len b1))
      | None \<Rightarrow> ([], b1))"

definition broadcast_begin ::
  "('sm, 'bm, 'am, 'ch) ctx \<Rightarrow> cid \<Rightarrow> string \<Rightarrow> bytes option \<Rightarrow> bytes \<Rightarrow> usize \<Rightarrow> u64 \<Rightarrow> bool \<Rightarrow> duration option
     \<Rightarrow> ('sm, 'bm, 'am, 'ch) broker \<Rightarrow> work list \<times> ('sm, 'bm, 'am, 'ch) broker" where
  "broadcast_begin X client target header buf payload_pos len realtime timeout b =
     (let b1 = count_r client len b;
          subs = bm_get_clients_by_mask X target (b_broadcasts b1)
      in if subs \<noteq> [] then
           ([DeliverTo timeout len
               (frame_new KBroadcast (Some (c_name (obj b client))) None header buf payload_pos realtime) subs],
            db_w (word_of_nat (length subs)) len b1)
         else ([], b1))"

definition publish_begin ::
  "(('am, 'ch) bus_client \<Rightarrow> bool) \<Rightarrow> ('sm, 'bm, 'am, 'ch) ctx \<Rightarrow> cid \<Rightarrow> string \<Rightarrow> bytes option \<Rightarrow> bytes \<Rightarrow> usize
     \<Rightarrow> u64 \<Rightarrow> bool \<Rightarrow> duration option \<Rightarrow> ('sm, 'bm, 'am, 'ch) broker
     \<Rightarrow> work list \<times> ('sm, 'bm, 'am, 'ch) broker" where
  "publish_begin keep X client topic header buf payload_pos len realtime timeout b =
     (let b1 = count_r client len b;
          subs = filter (\<lambda>sub. keep (obj b1 (snd sub))) (sm_get_subscribers X topic (b_subscriptions b1))
      in if subs \<noteq> [] then
           ([DeliverTo timeout len
               (frame_new KPublish (Some (c_name (obj b client))) (Some topic) header buf payload_pos realtime) subs],
            db_w (word_of_nat (length subs)) len b1)
         else ([], b1))"

text \<open>\<open>unregister_client\<close> up to the announcement.\<close>

definition unregister_begin ::
  "('sm, 'bm, 'am, 'ch) ctx \<Rightarrow> cid \<Rightarrow> ('sm, 'bm, 'am, 'ch) broker \<Rightarrow> work list \<times> ('sm, 'bm, 'am, 'ch) broker" where
  "unregister_begin X c b =
     (if c_primary (obj b c) \<and> c_registered (obj b c) then [LockCore (event_unreg (c_name (obj b c)))] else [],
      drop_client X c b)"

definition register_begin ::
  "('sm, 'bm, 'am, 'ch) ctx \<Rightarrow> cid \<Rightarrow> ('sm, 'bm, 'am, 'ch) broker \<Rightarrow> work list \<times> ('sm, 'bm, 'am, 'ch) broker" where
  "register_begin X c b =
     (case register_entry X c b of
        (Inl e, b1) \<Rightarrow> ([], b1)
      | (Inr _, b1) \<Rightarrow>
          (if c_primary (obj b c) then [LockCore (event_reg (c_name (obj b c)))] else [], b1))"

text \<open>
  One piece: what is to be done next, in place of it.  \<^const>\<open>None\<close>: it waits.  Between the test of \<open>is_full\<close> and
  the send the queue may change, so that also a send to a queue that was not full may wait, then
  without a timeout.
\<close>

fun work_step ::
  "('sm, 'bm, 'am, 'ch) ctx \<Rightarrow> work \<Rightarrow> ('sm, 'bm, 'am, 'ch) broker
     \<Rightarrow> (work list \<times> ('sm, 'bm, 'am, 'ch) broker) option" where
  "work_step X (DeliverTo timeout len f []) b = Some ([], b)"
| "work_step X (DeliverTo timeout len f (sub # subs)) b =
     Some ([CheckSend timeout (snd sub) f, DeliverTo timeout len f subs], client_w (snd sub) len b)"
| "work_step X (CheckSend timeout c f) b =
     (if ch_is_full X (c_tx (obj b c)) \<and> c_kind (obj b c) \<noteq> Internal then
        (let (ws, b1) = unregister_begin X c b in Some (ws @ [CloseQueue c], b1))
      else Some ([PushFrame (if ch_is_full X (c_tx (obj b c)) then timeout else None) c f], b))"
| "work_step X (PushFrame timeout c f) b =
     (case ch_send X f (c_tx (obj b c)) of
        Sent ch \<Rightarrow> Some ([], upd_obj c (\<lambda>cl. cl\<lparr>c_tx := ch\<rparr>) b)
      | SendClosed \<Rightarrow> Some ([], b)
      | SendFull \<Rightarrow> None)"
| "work_step X (CloseQueue c) b = Some ([], upd_obj c (\<lambda>cl. cl\<lparr>c_tx := ch_close X (c_tx cl)\<rparr>) b)"
| "work_step X (LockCore ev) b =
     (if b_rpc_locked b then None
      else case b_rpc_client b of
        None \<Rightarrow> Some ([], b)
      | Some c \<Rightarrow> Some ([LockClient ev c], b\<lparr>b_rpc_locked := True\<rparr>))"
| "work_step X (LockClient ev c) b =
     (if b_core_locked b then None
      else
        (let b1 = b\<lparr>b_core_locked := True\<rparr> in
         case rmp_event X (ev_s ev) (ev_d ev) (now_ns X) of
           Inl e \<Rightarrow> Some ([UnlockCore], b1)
         | Inr payload \<Rightarrow>
             (let (ws, b2) = publish_begin (\<lambda>sub. not_excluded X (ev_topic ev) sub) X c (ev_topic ev) None payload 0
                (word_of_nat (length payload)) (is_realtime QosNo) None b1
              in Some (ws @ [UnlockCore], b2))))"
| "work_step X UnlockCore b = Some ([], b\<lparr>b_rpc_locked := False, b_core_locked := False\<rparr>)"

section \<open>Tasks\<close>

text \<open>Operations that do not wait, and the beginnings of those that may.\<close>

inductive op_begin ::
  "('sm, 'bm, 'am, 'ch) ctx \<Rightarrow> string set \<Rightarrow> ('sm, 'bm, 'am, 'ch) broker \<Rightarrow> work list
     \<Rightarrow> ('sm, 'bm, 'am, 'ch) broker \<Rightarrow> bool"
  for X :: "('sm, 'bm, 'am, 'ch) ctx" and N :: "string set" and b :: "('sm, 'bm, 'am, 'ch) broker" where
  begin_message: "message_begin c target header buf pos len rt timeout b = (ws, b') \<Longrightarrow> op_begin X N b ws b'"
| begin_broadcast: "broadcast_begin X c target header buf pos len rt timeout b = (ws, b') \<Longrightarrow> op_begin X N b ws b'"
| begin_publish: "publish_begin (\<lambda>sub. not_excluded X topic sub) X c topic header buf pos len rt timeout b = (ws, b') \<Longrightarrow>
    op_begin X N b ws b'"
| begin_publish_for: "publish_begin (\<lambda>sub. c_primary_name sub = receiver \<and> not_excluded X topic sub) X c topic header buf pos
    len rt timeout b = (ws, b') \<Longrightarrow> op_begin X N b ws b'"
| begin_register: "name \<in> N \<Longrightarrow> 0 < queue_size \<Longrightarrow>
    register_begin X (length (b_objs b))
      (snd (alloc (bus_client_new X name (primary_of name) queue_size kind src port) b)) = (ws, b') \<Longrightarrow>
    op_begin X N b ws b'"
| begin_unregister: "unregister_begin X c b = (ws, b') \<Longrightarrow> op_begin X N b ws b'"
| begin_announce: "op_begin X N b [LockCore ev] b"
| begin_drop: "op_begin X N b [] (drop_client X c b)"
| begin_subscribe: "op_begin X N b [] (snd (client_subscribe_bulk X k topics qos b))"
| begin_unsubscribe: "op_begin X N b [] (snd (client_unsubscribe_bulk X k topics qos b))"
| begin_exclude: "op_begin X N b [] (snd (client_exclude_bulk X k topics qos b))"
| begin_unexclude: "op_begin X N b [] (snd (client_unexclude_bulk X k topics qos b))"
| begin_receive: "op_begin X N b [] (upd_obj c (\<lambda>cl. cl\<lparr>c_tx := ch_drain X n (c_tx cl)\<rparr>) b)"
| begin_close: "op_begin X N b [] (upd_obj c (\<lambda>cl. cl\<lparr>c_tx := ch_close X (c_tx cl)\<rparr>) b)"
| begin_disconnect: "op_begin X N b [] (snd (force_disconnect name b))"
| begin_core_rpc: "c < length (b_objs b) \<Longrightarrow> op_begin X N b [] (snd (set_core_rpc_client c b))"

record ('sm, 'bm, 'am, 'ch) fine =
  fi_broker :: "('sm, 'bm, 'am, 'ch) broker"
  fi_tasks :: "work list list"

definition rpc_holders :: "work list \<Rightarrow> nat" where
  "rpc_holders ws = length (filter (\<lambda>w. case w of UnlockCore \<Rightarrow> True | LockClient _ _ \<Rightarrow> True | _ \<Rightarrow> False) ws)"

definition holds_rpc :: "work list \<Rightarrow> bool" where
  "holds_rpc ws \<longleftrightarrow> 0 < rpc_holders ws"

definition holds_core :: "work list \<Rightarrow> bool" where
  "holds_core ws \<longleftrightarrow> UnlockCore \<in> set ws"

text \<open>A task that is cancelled drops its guards.\<close>

definition release :: "work list \<Rightarrow> ('sm, 'bm, 'am, 'ch) broker \<Rightarrow> ('sm, 'bm, 'am, 'ch) broker" where
  "release ws b = b\<lparr>b_rpc_locked := (b_rpc_locked b \<and> \<not> holds_rpc ws),
     b_core_locked := (b_core_locked b \<and> \<not> holds_core ws)\<rparr>"

text \<open>What a step is: a task begins, runs a piece, or ends at an await, cancelled or by its timeout.\<close>

datatype fine_label = TaskBegins | TaskRuns nat | TaskCancelled nat | SendElapsed nat

inductive fine_step ::
  "('sm, 'bm, 'am, 'ch) ctx \<Rightarrow> string set \<Rightarrow> fine_label \<Rightarrow> ('sm, 'bm, 'am, 'ch) fine
     \<Rightarrow> ('sm, 'bm, 'am, 'ch) fine \<Rightarrow> bool"
  for X :: "('sm, 'bm, 'am, 'ch) ctx" and N :: "string set" where
  fine_begin: "op_begin X N (fi_broker s) ws b' \<Longrightarrow>
    fine_step X N TaskBegins s \<lparr>fi_broker = b', fi_tasks = fi_tasks s @ [ws]\<rparr>"
| fine_run: "i < length (fi_tasks s) \<Longrightarrow> fi_tasks s ! i = w # ws \<Longrightarrow>
    work_step (at_time t wt X) w (fi_broker s) = Some (new, b') \<Longrightarrow>
    fine_step X N (TaskRuns i) s \<lparr>fi_broker = b', fi_tasks = (fi_tasks s)[i := new @ ws]\<rparr>"
| fine_cancel: "i < length (fi_tasks s) \<Longrightarrow>
    fine_step X N (TaskCancelled i) s
      \<lparr>fi_broker = release (fi_tasks s ! i) (fi_broker s), fi_tasks = (fi_tasks s)[i := []]\<rparr>"
| fine_elapsed: "i < length (fi_tasks s) \<Longrightarrow> fi_tasks s ! i = PushFrame (Some d) c f # ws \<Longrightarrow>
    fine_step X N (SendElapsed i) s \<lparr>fi_broker = release ws (fi_broker s), fi_tasks = (fi_tasks s)[i := []]\<rparr>"

text \<open>Runs whose steps have labels from a set.\<close>

inductive fine_run ::
  "('sm, 'bm, 'am, 'ch) ctx \<Rightarrow> string set \<Rightarrow> (fine_label \<Rightarrow> bool) \<Rightarrow> ('sm, 'bm, 'am, 'ch) fine
     \<Rightarrow> ('sm, 'bm, 'am, 'ch) fine \<Rightarrow> bool"
  for X :: "('sm, 'bm, 'am, 'ch) ctx" and N :: "string set" and A :: "fine_label \<Rightarrow> bool"
    and s :: "('sm, 'bm, 'am, 'ch) fine" where
  run_start: "fine_run X N A s s"
| run_next: "fine_run X N A s s1 \<Longrightarrow> A l \<Longrightarrow> fine_step X N l s1 s2 \<Longrightarrow> fine_run X N A s s2"

definition fine_start :: "('sm, 'bm, 'am, 'ch) ctx \<Rightarrow> bool \<Rightarrow> ('sm, 'bm, 'am, 'ch) fine" where
  "fine_start X force = \<lparr>fi_broker = broker_create X force, fi_tasks = []\<rparr>"

inductive_cases fine_stepE: "fine_step X N l s s'"
inductive_cases op_beginE: "op_begin X N b ws b'"

section \<open>Every piece keeps the registry invariant\<close>

lemma release_registry: "same_registry b (release ws b)"
  by (simp add: release_def same_registry_def list_all2_refl)

context broker_libs
begin

lemma begins_inv:
  assumes b: "dbi N b"
  shows "message_begin c target header buf pos len rt timeout b = (ws, b') \<Longrightarrow> dbi N b'"
    and "broadcast_begin X c target header buf pos len rt timeout b = (ws, b') \<Longrightarrow> dbi N b'"
    and "publish_begin keep X c topic header buf pos len rt timeout b = (ws, b') \<Longrightarrow> dbi N b'"
    and "unregister_begin X c b = (ws, b') \<Longrightarrow> dbi N b'"
proof -
  show "message_begin c target header buf pos len rt timeout b = (ws, b') \<Longrightarrow> dbi N b'"
    using b by (auto simp: message_begin_def Let_def split: option.splits)
  show "broadcast_begin X c target header buf pos len rt timeout b = (ws, b') \<Longrightarrow> dbi N b'"
    using b by (auto simp: broadcast_begin_def Let_def split: if_splits)
  show "publish_begin keep X c topic header buf pos len rt timeout b = (ws, b') \<Longrightarrow> dbi N b'"
    using b by (auto simp: publish_begin_def Let_def split: if_splits)
  show "unregister_begin X c b = (ws, b') \<Longrightarrow> dbi N b'"
    using b by (auto simp: unregister_begin_def drop_client_inv)
qed

lemma work_step_inv:
  assumes b: "dbi N b" and s: "work_step X w b = Some (new, b')"
  shows "dbi N b'"
proof (cases w)
  case (DeliverTo timeout len f subs)
  with assms show ?thesis by (cases subs) auto
next
  case (CheckSend timeout c f)
  obtain ws b1 where u: "unregister_begin X c b = (ws, b1)" by force
  with CheckSend s b begins_inv(4) [OF b u] show ?thesis by (auto split: if_splits)
next
  case (LockClient ev c)
  have l: "dbi N (b\<lparr>b_core_locked := True\<rparr>)" using b by simp
  show ?thesis
    using LockClient s l begins_inv(3) [OF l]
    by (auto simp: Let_def split: if_splits sum.splits prod.splits)
qed (use assms in \<open>auto split: send_poll.splits if_splits option.splits\<close>)

lemma op_begin_inv:
  assumes b: "dbi N b" and o: "op_begin X N b ws b'"
  shows "dbi N b'"
  using o
proof cases
  case (begin_register name queue_size kind src port)
  let ?cl = "bus_client_new X name (primary_of name) queue_size kind src port"
  let ?b = "snd (alloc ?cl b)"
  have "dbi N ?b" by (rule alloc_inv [OF b bus_client_new_wf]) (simp_all add: bus_client_new_def begin_register)
  then have "dbi N (snd (register_entry X (length (b_objs b)) ?b))"
    by (rule register_entry_inv) (simp_all add: alloc_simps bus_client_new_def)
  with begin_register show ?thesis
    by (auto simp: register_begin_def split: prod.splits sum.splits)
qed (use b begins_inv [OF b] in \<open>auto simp: step_invs\<close>)

end

lemma fine_step_inv:
  assumes libs: "broker_libs X smv topic_match bmv name_match amv acl_match chq chcap chclosed"
    and step: "fine_step X N l s s'" and inv: "db_inv X smv bmv N (fi_broker s)"
  shows "db_inv X smv bmv N (fi_broker s')"
  using step
proof cases
  case (fine_begin ws b')
  then show ?thesis using broker_libs.op_begin_inv [OF libs inv] by simp
next
  case (fine_run i w ws t wt new b')
  then show ?thesis
    using broker_libs.work_step_inv [OF at_time_libs [OF libs], unfolded at_time_db_inv, OF inv] by simp
qed (use inv in \<open>simp_all add: same_registry_inv [OF release_registry]\<close>)

lemma fine_run_inv:
  assumes libs: "broker_libs X smv topic_match bmv name_match amv acl_match chq chcap chclosed"
    and run: "fine_run X N A s s'" and inv: "db_inv X smv bmv N (fi_broker s)"
  shows "db_inv X smv bmv N (fi_broker s')"
  using run by induction (use inv fine_step_inv [OF libs] in blast)+

section \<open>The locks\<close>

text \<open>
  The lock around the core RPC client is held once if its flag is set, and otherwise by nobody: over all
  tasks and within the stack of each.
\<close>

definition total_holders :: "work list list \<Rightarrow> nat" where
  "total_holders ts = sum_list (map rpc_holders ts)"

definition locks_ok :: "('sm, 'bm, 'am, 'ch) fine \<Rightarrow> bool" where
  "locks_ok s \<longleftrightarrow> total_holders (fi_tasks s) = (if b_rpc_locked (fi_broker s) then 1 else 0)"

lemma rpc_holders_simps [simp]:
  "rpc_holders [] = 0" "rpc_holders (UnlockCore # ws) = Suc (rpc_holders ws)"
  "rpc_holders (LockClient ev c # ws) = Suc (rpc_holders ws)"
  "rpc_holders (DeliverTo timeout len f subs # ws) = rpc_holders ws" "rpc_holders (CheckSend timeout c f # ws) = rpc_holders ws"
  "rpc_holders (PushFrame timeout c f # ws) = rpc_holders ws" "rpc_holders (CloseQueue c # ws) = rpc_holders ws"
  "rpc_holders (LockCore ev # ws) = rpc_holders ws" "rpc_holders (vs @ ws) = rpc_holders vs + rpc_holders ws"
  by (simp_all add: rpc_holders_def)

lemma total_holders_update:
  "i < length ts \<Longrightarrow> total_holders (ts[i := ws]) + rpc_holders (ts ! i) = total_holders ts + rpc_holders ws"
proof (induction ts arbitrary: i)
  case (Cons t ts)
  then show ?case by (cases i) (auto simp: total_holders_def)
qed simp

lemma total_holders_append: "total_holders (ts @ [ws]) = total_holders ts + rpc_holders ws"
  by (simp add: total_holders_def)

lemma total_holders_ge: "i < length ts \<Longrightarrow> rpc_holders (ts ! i) \<le> total_holders ts"
  using total_holders_update [of i ts "[]"] by simp

lemma locked_begins:
  "message_begin c target header buf pos len rt timeout b = (ws, b') \<Longrightarrow> b_rpc_locked b' = b_rpc_locked b \<and> rpc_holders ws = 0"
  "broadcast_begin X c target header buf pos len rt timeout b = (ws, b') \<Longrightarrow> b_rpc_locked b' = b_rpc_locked b \<and> rpc_holders ws = 0"
  "publish_begin keep X c topic header buf pos len rt timeout b = (ws, b') \<Longrightarrow> b_rpc_locked b' = b_rpc_locked b \<and> rpc_holders ws = 0"
  "unregister_begin X c b = (ws, b') \<Longrightarrow> b_rpc_locked b' = b_rpc_locked b \<and> rpc_holders ws = 0"
  by (auto simp: message_begin_def broadcast_begin_def publish_begin_def unregister_begin_def Let_def
      split: option.splits if_splits)

text \<open>What a piece does to the flag is what it does to the number of holders.\<close>

lemma locked_step:
  assumes "work_step X w b = Some (new, b')"
    and "rpc_holders [w] = 1 \<longrightarrow> b_rpc_locked b"
  shows "(if b_rpc_locked b' then 1 else 0) + rpc_holders [w] = (if b_rpc_locked b then 1 else 0) + rpc_holders new"
proof (cases w)
  case (DeliverTo timeout len f subs)
  with assms show ?thesis by (cases subs) auto
next
  case (CheckSend timeout c f)
  obtain ws b1 where u: "unregister_begin X c b = (ws, b1)" by force
  with CheckSend assms locked_begins(4) [OF u] show ?thesis by (auto split: if_splits)
next
  case (LockClient ev c)
  with assms show ?thesis
    by (auto simp: Let_def dest!: locked_begins(3) split: if_splits sum.splits prod.splits)
next
  case (LockCore ev)
  with assms show ?thesis by (auto split: if_splits option.splits)
qed (use assms in \<open>auto split: send_poll.splits if_splits\<close>)

lemma locked_subscribe:
  "b_rpc_locked (snd (client_subscribe_bulk X k ts qos b)) = b_rpc_locked b"
  "b_rpc_locked (snd (client_unsubscribe_bulk X k ts qos b)) = b_rpc_locked b"
  by (induction ts arbitrary: b) (auto simp: Let_def split: prod.splits)

lemma locked_insert: "b_rpc_locked (snd (insert_client X c b)) = b_rpc_locked b"
  by (simp add: insert_client_def Let_def)

lemma locked_register: "b_rpc_locked (snd (register_entry X c b)) = b_rpc_locked b"
proof -
  obtain r b1 where i: "insert_client X c b = (r, b1)" by force
  then have "b_rpc_locked b1 = b_rpc_locked b" using locked_insert [of X c b] by simp
  then show ?thesis
    by (auto simp: register_entry_def i Let_def locked_insert trigger_def split: sum.splits option.splits)
qed

lemma locked_op:
  assumes "op_begin X N b ws b'"
  shows "b_rpc_locked b' = b_rpc_locked b \<and> rpc_holders ws = 0"
  using assms
proof cases
  case (begin_register name queue_size kind src port)
  let ?b = "snd (alloc (bus_client_new X name (primary_of name) queue_size kind src port) b)"
  have "b_rpc_locked ?b = b_rpc_locked b" by (simp add: alloc_def)
  with begin_register locked_register [of X "length (b_objs b)" ?b] show ?thesis
    by (auto simp: register_begin_def split: prod.splits sum.splits)
qed (auto simp: locked_subscribe client_exclude_bulk_def client_unexclude_bulk_def force_disconnect_def
  trigger_disconnect_def trigger_def set_core_rpc_client_def dest: locked_begins split: option.splits)

lemma locks_ok_step:
  assumes step: "fine_step X N l s s'" and ok: "locks_ok s"
  shows "locks_ok s'"
  using step
proof cases
  case (fine_begin ws b')
  then show ?thesis using ok locked_op [OF fine_begin(3)] fine_begin
    by (simp add: locks_ok_def total_holders_append)
next
  case (fine_run i w ws t wt new b')
  have "rpc_holders [w] = 1 \<longrightarrow> b_rpc_locked (fi_broker s)"
    using total_holders_ge [OF fine_run(3)] ok fine_run(4) rpc_holders_simps(9) [of "[w]" ws]
    by (auto simp: locks_ok_def split: if_splits)
  from locked_step [OF fine_run(5) this] total_holders_update [OF fine_run(3), of "new @ ws"] ok fine_run(2,4)
    rpc_holders_simps(9) [of "[w]" ws]
  show ?thesis by (auto simp: locks_ok_def split: if_splits)
next
  case (fine_cancel i)
  then show ?thesis
    using total_holders_update [of i "fi_tasks s" "[]"] total_holders_ge [of i "fi_tasks s"] ok
    by (auto simp: locks_ok_def release_def holds_rpc_def split: if_splits)
next
  case (fine_elapsed i d c f ws)
  then show ?thesis
    using total_holders_update [of i "fi_tasks s" "[]"] total_holders_ge [of i "fi_tasks s"] ok
    by (auto simp: locks_ok_def release_def holds_rpc_def split: if_splits)
qed

lemma locks_ok_run:
  assumes "fine_run X N A s s'" and "locks_ok s"
  shows "locks_ok s'"
  using assms by induction (use locks_ok_step in blast)+

lemma locks_ok_start: "locks_ok (fine_start X force)"
  by (simp add: locks_ok_def fine_start_def total_holders_def broker_create_def broker_db_default_def)

section \<open>A task that waits for itself\<close>

text \<open>Task \<open>i\<close> holds the lock of the core RPC client and waits for it.\<close>

definition locked_out :: "nat \<Rightarrow> ('sm, 'bm, 'am, 'ch) fine \<Rightarrow> bool" where
  "locked_out i s \<longleftrightarrow> i < length (fi_tasks s) \<and>
     (\<exists>ev ws. fi_tasks s ! i = LockCore ev # ws \<and> holds_rpc ws)"

lemma locked_out_step:
  assumes step: "fine_step X N l s s'" and ok: "locks_ok s" and out: "locked_out i s" and l: "l \<noteq> TaskCancelled i"
  shows "locked_out i s' \<and> fi_tasks s' ! i = fi_tasks s ! i"
proof -
  obtain ev ws where i: "i < length (fi_tasks s)" "fi_tasks s ! i = LockCore ev # ws" "holds_rpc ws"
    using out by (auto simp: locked_out_def)
  have "0 < total_holders (fi_tasks s)"
    using total_holders_ge [OF i(1)] i(2,3) by (simp add: holds_rpc_def)
  then have locked: "b_rpc_locked (fi_broker s)" using ok by (simp add: locks_ok_def split: if_splits)
  have "i < length (fi_tasks s') \<and> fi_tasks s' ! i = fi_tasks s ! i"
    using step
  proof cases
    case (fine_run j w vs t wt new b')
    have "j \<noteq> i" using fine_run i(2) locked by auto
    with fine_run i show ?thesis by simp
  qed (use i l in \<open>auto simp: nth_append nth_list_update\<close>)
  with i show ?thesis by (simp add: locked_out_def)
qed

lemma locked_out_run:
  assumes "fine_run X N (\<lambda>l. l \<noteq> TaskCancelled i) s s'" and "locks_ok s" and "locked_out i s"
  shows "locked_out i s' \<and> locks_ok s' \<and> fi_tasks s' ! i = fi_tasks s ! i"
  using assms(1)
proof induction
  case run_start
  with assms show ?case by simp
next
  case (run_next s1 l s2)
  then show ?case using locked_out_step [of X N l s1 s2 i] locks_ok_step by metis
qed

lemma locked_out_flag:
  assumes "locks_ok s" and "locked_out i s"
  shows "b_rpc_locked (fi_broker s)"
proof -
  obtain ev ws where "i < length (fi_tasks s)" "fi_tasks s ! i = LockCore ev # ws" "holds_rpc ws"
    using assms(2) by (auto simp: locked_out_def)
  then have "0 < total_holders (fi_tasks s)"
    using total_holders_ge [of i "fi_tasks s"] by (simp add: holds_rpc_def)
  with assms(1) show ?thesis by (simp add: locks_ok_def split: if_splits)
qed

section \<open>A task that is alone\<close>

inductive alone_step ::
  "('sm, 'bm, 'am, 'ch) ctx \<Rightarrow> work list \<times> ('sm, 'bm, 'am, 'ch) broker \<Rightarrow> work list \<times> ('sm, 'bm, 'am, 'ch) broker \<Rightarrow> bool"
  for X :: "('sm, 'bm, 'am, 'ch) ctx" where
  "work_step X w b = Some (new, b') \<Longrightarrow> alone_step X (w # ws, b) (new @ ws, b')"

definition alone ::
  "('sm, 'bm, 'am, 'ch) ctx \<Rightarrow> work list \<times> ('sm, 'bm, 'am, 'ch) broker \<Rightarrow> work list \<times> ('sm, 'bm, 'am, 'ch) broker \<Rightarrow> bool" where
  "alone X = rtranclp (alone_step X)"

text \<open>
  The outcome of an operation, as the end of its task: through, waiting for ever, or waiting in a send that
  the timeout ends.
\<close>

definition ends_as ::
  "('sm, 'bm, 'am, 'ch) ctx \<Rightarrow> (error, 'a) eff \<times> ('sm, 'bm, 'am, 'ch) broker
     \<Rightarrow> work list \<times> ('sm, 'bm, 'am, 'ch) broker \<Rightarrow> bool" where
  "ends_as X r q \<longleftrightarrow>
     (case r of
        (Done _, b') \<Rightarrow> alone X q ([], b')
      | (Pending, b') \<Rightarrow> \<exists>w ws. alone X q (w # ws, b') \<and> work_step X w b' = None
      | (Bail e, b') \<Rightarrow> e = err_timeout \<and>
          (\<exists>d c f ws. alone X q (PushFrame (Some d) c f # ws, b') \<and> work_step X (PushFrame (Some d) c f) b' = None))"

text \<open>The first pieces of a task that is alone.\<close>

fun run_pieces ::
  "('sm, 'bm, 'am, 'ch) ctx \<Rightarrow> nat \<Rightarrow> work list \<times> ('sm, 'bm, 'am, 'ch) broker \<Rightarrow> work list \<times> ('sm, 'bm, 'am, 'ch) broker" where
  "run_pieces X (Suc n) (w # ws, b) =
     (case work_step X w b of Some (new, b') \<Rightarrow> run_pieces X n (new @ ws, b') | None \<Rightarrow> (w # ws, b))"
| "run_pieces X n q = q"

lemma alone_refl [simp]: "alone X q q"
  by (simp add: alone_def)

lemma alone_trans: "alone X p q \<Longrightarrow> alone X q r \<Longrightarrow> alone X p r"
  by (simp add: alone_def)

lemma alone_one: "work_step X w b = Some (new, b') \<Longrightarrow> alone X (w # ws, b) (new @ ws, b')"
  unfolding alone_def by (rule r_into_rtranclp) (rule alone_step.intros)

lemma alone_below: "alone X (ws, b) (ws', b') \<Longrightarrow> alone X (ws @ vs, b) (ws' @ vs, b')"
proof -
  assume "alone X (ws, b) (ws', b')"
  then have "alone X (fst (ws, b) @ vs, snd (ws, b)) (fst (ws', b') @ vs, snd (ws', b'))"
    unfolding alone_def
  proof induction
    case (step q r)
    from step(2) obtain w b1 new b2 us where "q = (w # us, b1)" "r = (new @ us, b2)" "work_step X w b1 = Some (new, b2)"
      by (auto elim: alone_step.cases)
    then have "alone_step X (fst q @ vs, snd q) (fst r @ vs, snd r)"
      using alone_step.intros [of X w b1 new b2 "us @ vs"] by simp
    with step(3) show ?case by (rule rtranclp.rtrancl_into_rtrancl)
  qed simp
  then show ?thesis by simp
qed

lemma ends_after: "alone X p q \<Longrightarrow> ends_as X r q \<Longrightarrow> ends_as X r p"
  by (auto simp: ends_as_def split: prod.splits eff.splits) (blast intro: alone_trans)+

lemma ends_one: "work_step X w b = Some (new, b') \<Longrightarrow> ends_as X r (new @ ws, b') \<Longrightarrow> ends_as X r (w # ws, b)"
  by (rule ends_after [OF alone_one])

lemma ends_seq:
  assumes m: "ends_as X (m b) (ws, b0)" and k: "\<And>x b'. m b = (Done x, b') \<Longrightarrow> ends_as X (k x b') (vs, b')"
  shows "ends_as X (act_then m k b) (ws @ vs, b0)"
proof (cases "m b")
  case (Pair r b')
  show ?thesis
  proof (cases r)
    case (Done x)
    with Pair m have "alone X (ws @ vs, b0) ([] @ vs, b')" by (intro alone_below) (simp add: ends_as_def)
    with k Pair Done show ?thesis by (simp add: act_then_def ends_after)
  next
    case (Bail e)
    with Pair m obtain d c f us where "e = err_timeout" "alone X (ws, b0) (PushFrame (Some d) c f # us, b')"
      "work_step X (PushFrame (Some d) c f) b' = None" by (auto simp: ends_as_def)
    with alone_below [of X ws b0 "PushFrame (Some d) c f # us" b' vs] Pair Bail show ?thesis
      by (auto simp: act_then_def ends_as_def)
  next
    case Pending
    with Pair m obtain w us where "alone X (ws, b0) (w # us, b')" "work_step X w b' = None" by (auto simp: ends_as_def)
    with alone_below [of X ws b0 "w # us" b' vs] Pair Pending show ?thesis
      by (auto simp: act_then_def ends_as_def)
  qed
qed

text \<open>Announcements inside an operation, while \<open>P\<close> holds.\<close>

definition announces ::
  "('sm, 'bm, 'am, 'ch) ctx \<Rightarrow> (('sm, 'bm, 'am, 'ch) broker \<Rightarrow> bool) \<Rightarrow> ('sm, 'bm, 'am, 'ch) announcer \<Rightarrow> bool" where
  "announces X P ann \<longleftrightarrow>
     (\<forall>ev b. P b \<longrightarrow> ends_as X (log_err (ann ev) b) ([LockCore ev], b)) \<and>
     (\<forall>c b. P b \<longrightarrow> P (drop_client X c b)) \<and> (\<forall>c len b. P b \<longrightarrow> P (client_w c len b)) \<and>
     (\<forall>timeout c f b. P b \<longrightarrow> P (snd (safe_send_frame X ann timeout c f b)))"

lemma push_ends:
  assumes "\<forall>c. waits X c = Elapsed" and "channel_send X c f b = (r, b')"
  shows "case r of Some _ \<Rightarrow> work_step X (PushFrame timeout c f) b = Some ([], b')
    | None \<Rightarrow> b' = b \<and> work_step X (PushFrame timeout c f) b = None"
  using assms by (auto simp: channel_send_def split: send_poll.splits)

lemma unregister_ends:
  assumes a: "announces X P ann" and P: "P b"
  shows "ends_as X (unregister_client_with X ann c b) (unregister_begin X c b)"
proof (cases "c_primary (obj b c) \<and> c_registered (obj b c)")
  case True
  with a P show ?thesis
    by (simp add: announces_def unregister_client_with_def unregister_begin_def)
next
  case False
  then have "unregister_client_with X ann c b = (Done (), drop_client X c b)" "unregister_begin X c b = ([], drop_client X c b)"
    by (auto simp: unregister_client_with_def unregister_begin_def)
  then show ?thesis by (simp add: ends_as_def)
qed

lemma safe_send_ends:
  assumes w: "\<forall>c. waits X c = Elapsed" and a: "announces X P ann" and P: "P b"
  shows "ends_as X (safe_send_frame X ann timeout c f b) ([CheckSend timeout c f], b)"
proof (cases "ch_is_full X (c_tx (obj b c)) \<and> c_kind (obj b c) \<noteq> Internal")
  case True
  obtain ws b1 where u: "unregister_begin X c b = (ws, b1)" by force
  let ?m = "unregister_client_with X ann c"
  have m: "ends_as X (?m b) (ws, b1)" using unregister_ends [OF a P, of c] u by simp
  have "ends_as X (act_then ?m (\<lambda>_ b'. (Done (Inl err_not_delivered :: error + unit),
      upd_obj c (\<lambda>cl. cl\<lparr>c_tx := ch_close X (c_tx cl)\<rparr>) b')) b) (ws @ [CloseQueue c], b1)"
    by (rule ends_seq [where m = ?m and b = b, OF m]) (simp add: ends_as_def alone_one [where ws = "[]", simplified])
  with True u show ?thesis
    by (intro ends_one [of X _ b "ws @ [CloseQueue c]" b1 _ "[]"]) (simp_all add: safe_send_frame_def)
next
  case False
  obtain r b' where s: "channel_send X c f b = (r, b')" by force
  let ?t = "if ch_is_full X (c_tx (obj b c)) then timeout else None"
  note p = push_ends [OF w s, of ?t]
  have "ends_as X (safe_send_frame X ann timeout c f b) ([PushFrame ?t c f], b)"
  proof (cases r)
    case (Some x)
    with False s have "safe_send_frame X ann timeout c f b = (Done x, b')" by (simp add: safe_send_frame_def)
    moreover have "alone X ([PushFrame ?t c f], b) ([], b')" using p Some alone_one [of X _ b "[]" b' "[]"] by simp
    ultimately show ?thesis by (simp add: ends_as_def)
  next
    case None
    with p have n: "b' = b" "work_step X (PushFrame ?t c f) b = None" by simp_all
    show ?thesis
    proof (cases "ch_is_full X (c_tx (obj b c)) \<and> timeout \<noteq> None")
      case True
      then obtain d where d: "timeout = Some d" by blast
      with True False s None n(1) have "safe_send_frame X ann timeout c f b = (Bail err_timeout, b)"
        by (simp add: safe_send_frame_def)
      moreover have "?t = Some d" using True d by simp
      ultimately show ?thesis using n(2) unfolding ends_as_def by (force intro: alone_refl)
    next
      case nt: False
      with False s None n(1) have "safe_send_frame X ann timeout c f b = (Pending, b)"
        by (auto simp: safe_send_frame_def)
      with n(2) show ?thesis unfolding ends_as_def by (force intro: alone_refl)
    qed
  qed
  then have e: "ends_as X (safe_send_frame X ann timeout c f b) ([PushFrame ?t c f] @ [], b)" by (simp only: append_Nil2)
  have "work_step X (CheckSend timeout c f) b = Some ([PushFrame ?t c f], b)"
    unfolding work_step.simps(3) using False by (simp only: if_False)
  from ends_one [OF this e] show ?thesis .
qed

lemma deliver_ends:
  assumes w: "\<forall>c. waits X c = Elapsed" and a: "announces X P ann"
  shows "P b \<Longrightarrow> ends_as X (deliver X ann timeout len f subs b) ([DeliverTo timeout len f subs], b)"
proof (induction subs arbitrary: b)
  case Nil
  show ?case by (rule ends_one [of X _ b "[]" b _ "[]"]) (simp_all add: ends_as_def)
next
  case (Cons sub subs)
  let ?w = "client_w (snd sub) len b"
  have P: "P ?w" using a Cons.prems by (simp add: announces_def)
  have "ends_as X (act_then (safe_send_frame X ann timeout (snd sub) f) (\<lambda>_. deliver X ann timeout len f subs) ?w)
      ([CheckSend timeout (snd sub) f] @ [DeliverTo timeout len f subs], ?w)"
  proof (rule ends_seq)
    show "ends_as X (safe_send_frame X ann timeout (snd sub) f ?w) ([CheckSend timeout (snd sub) f], ?w)"
      by (rule safe_send_ends [OF w a P])
  next
    fix x b' assume "safe_send_frame X ann timeout (snd sub) f ?w = (Done x, b')"
    then have "P b'" using a P unfolding announces_def by (metis snd_conv)
    then show "ends_as X (deliver X ann timeout len f subs b') ([DeliverTo timeout len f subs], b')" by (rule Cons.IH)
  qed
  then show ?case
    by (intro ends_one [of X _ b "[CheckSend timeout (snd sub) f, DeliverTo timeout len f subs]" ?w _ "[]"]) simp_all
qed

lemma publish_ends:
  assumes w: "\<forall>c. waits X c = Elapsed" and a: "announces X P ann"
    and P: "\<And>n. P (db_w n len (count_r client len b))"
  shows "ends_as X (publish_where keep X ann client topic header buf pos len rt timeout b)
    (publish_begin keep X client topic header buf pos len rt timeout b)"
  using deliver_ends [OF w a P]
  by (auto simp: publish_where_def publish_begin_def Let_def) (simp add: ends_as_def)

text \<open>Nothing is announced while the lock is held.\<close>

lemma announces_locked:
  assumes "\<And>ev b. b_rpc_locked b \<Longrightarrow> ann ev b = (Pending, b)"
  shows "announces X b_rpc_locked ann"
proof -
  have agree: "ann_agree ann ann" using assms by (simp add: ann_agree_def)
  have "ends_as X (log_err (ann ev) b) ([LockCore ev], b)" if "b_rpc_locked b" for ev b
    using assms [OF that] that by (auto simp: log_err_def ends_as_def intro!: exI [of _ "LockCore ev"] exI [of _ "[]"])
  with safe_send_frame_locked(2) [OF agree] show ?thesis by (auto simp: announces_def)
qed

text \<open>Without a timeout no send gives up.\<close>

lemma log_err_no_bail: "fst (log_err m b) \<noteq> Bail e"
  by (auto simp: log_err_def split: prod.splits eff.splits)

lemma safe_send_no_bail: "fst (safe_send_frame X ann None c f b) \<noteq> Bail e"
proof -
  have "fst (unregister_client_with X ann c b) \<noteq> Bail e" for e
    by (simp add: unregister_client_with_def Let_def log_err_no_bail)
  then show ?thesis
    by (auto simp: safe_send_frame_def act_then_def split: prod.splits eff.splits option.splits) (metis fst_conv)+
qed

lemma deliver_no_bail: "fst (deliver X ann None len f subs b) \<noteq> Bail e"
proof (induction subs arbitrary: b)
  case (Cons sub subs)
  obtain r b1 where s: "safe_send_frame X ann None (snd sub) f (client_w (snd sub) len b) = (r, b1)" by force
  then have "\<And>e. r \<noteq> Bail e" using safe_send_no_bail [of X ann "snd sub" f "client_w (snd sub) len b"] by simp
  with s Cons.IH show ?case by (cases r) (simp_all add: act_then_def)
qed simp

lemma announce_ends:
  assumes w: "\<forall>c. waits X c = Elapsed"
  shows "ends_as X (log_err (announce X ev) b) ([LockCore ev], b)"
proof (cases "b_rpc_locked b")
  case True
  then have "work_step X (LockCore ev) b = None" by simp
  with True show ?thesis unfolding ends_as_def by (force simp: log_err_def announce_locked intro: alone_refl)
next
  case False
  show ?thesis
  proof (cases "b_rpc_client b")
    case None
    with False have "announce X ev b = (Done (), b)" by (simp add: announce_no_core)
    moreover have "work_step X (LockCore ev) b = Some ([], b)" using None False by simp
    ultimately show ?thesis using alone_one [of X "LockCore ev" b "[]" b "[]"] by (simp add: log_err_def ends_as_def)
  next
    case (Some c)
    let ?r = "b\<lparr>b_rpc_locked := True\<rparr>" and ?l = "b\<lparr>b_rpc_locked := True, b_core_locked := True\<rparr>"
    have one: "work_step X (LockCore ev) b = Some ([LockClient ev c], ?r)" using Some False by simp
    have "ends_as X (log_err (announce X ev) b) ([LockClient ev c] @ [], ?r)"
    proof (cases "b_core_locked b")
      case True
      with Some False have "log_err (announce X ev) b = (Pending, ?r)" by (simp add: log_err_def announce_def)
      moreover have "work_step X (LockClient ev c) ?r = None" using True by simp
      ultimately show ?thesis unfolding ends_as_def by (force intro: alone_refl)
    next
      case nl: False
      show ?thesis
      proof (cases "rmp_event X (ev_s ev) (ev_d ev) (now_ns X)")
        case (Inl e)
        then have r: "log_err (announce X ev) b = (Done (), ?l\<lparr>b_rpc_locked := False, b_core_locked := False\<rparr>)"
          using Some False nl by (simp add: log_err_def announce_def unlock_core_def)
        have s: "work_step X (LockClient ev c) ?r = Some ([UnlockCore], ?l)" using Inl nl by simp
        have "alone X ([UnlockCore], ?l) ([], ?l\<lparr>b_rpc_locked := False, b_core_locked := False\<rparr>)"
          using alone_one [of X UnlockCore ?l "[]" _ "[]"] by simp
        with alone_one [OF s, of "[]"] show ?thesis unfolding r by (auto simp: ends_as_def intro: alone_trans)
      next
        case (Inr payload)
        let ?k = "\<lambda>sub. not_excluded X (ev_topic ev) sub" and ?len = "word_of_nat (length payload) :: u64"
        let ?pub = "publish_where ?k X (announce_fuel X 0) c (ev_topic ev) None payload 0 ?len (is_realtime QosNo) None"
        obtain ws b2 where pb: "publish_begin ?k X c (ev_topic ev) None payload 0 ?len (is_realtime QosNo) None ?l = (ws, b2)"
          by force
        have a: "announces X b_rpc_locked (announce_fuel X 0)" by (rule announces_locked) simp
        have "ends_as X (?pub ?l) (ws, b2)"
          using publish_ends [OF w a, of ?len c ?l ?k "ev_topic ev" None payload 0 "is_realtime QosNo" None] pb by simp
        then have q: "ends_as X (act_then ?pub (\<lambda>_ b'. (Done (), b'\<lparr>b_rpc_locked := False, b_core_locked := False\<rparr>)) ?l)
            (ws @ [UnlockCore], b2)"
          by (rule ends_seq) (use alone_one [of X UnlockCore _ "[]" _ "[]"] in \<open>simp add: ends_as_def\<close>)
        have "fst (?pub ?l) \<noteq> Bail e" for e
          by (auto simp: publish_where_def Let_def deliver_no_bail)
        then have "log_err (announce X ev) b =
            act_then ?pub (\<lambda>_ b'. (Done (), b'\<lparr>b_rpc_locked := False, b_core_locked := False\<rparr>)) ?l"
          using Some False nl Inr
          by (cases "?pub ?l"; cases "fst (?pub ?l)") (auto simp: log_err_def announce_def publish_def unlock_core_def act_then_def)
        moreover have s: "work_step X (LockClient ev c) ?r = Some (ws @ [UnlockCore], b2)"
          using Inr nl pb by simp
        ultimately show ?thesis using ends_one [OF s, of _ "[]"] q by (simp only: append_Nil2)
      qed
    qed
    from ends_one [OF one this] show ?thesis .
  qed
qed

lemma announces_all: "\<forall>c. waits X c = Elapsed \<Longrightarrow> announces X (\<lambda>_. True) (announce X)"
  by (simp add: announces_def announce_ends)

lemma message_ends:
  assumes w: "\<forall>c. waits X c = Elapsed"
  shows "ends_as X (send_msg X (announce X) client target header buf pos len rt timeout b)
    (message_begin client target header buf pos len rt timeout b)"
proof (cases "b_clients (count_r client len b) target")
  case None
  then show ?thesis by (simp add: send_msg_def message_begin_def ends_as_def Let_def)
next
  case (Some tgt)
  with safe_send_ends [OF w announces_all [OF w] TrueI] show ?thesis by (simp add: send_msg_def message_begin_def Let_def)
qed

lemma broadcast_ends:
  assumes w: "\<forall>c. waits X c = Elapsed"
  shows "ends_as X (send_broadcast X (announce X) client target header buf pos len rt timeout b)
    (broadcast_begin X client target header buf pos len rt timeout b)"
  using deliver_ends [OF w announces_all [OF w] TrueI]
  by (auto simp: send_broadcast_def broadcast_begin_def Let_def) (simp add: ends_as_def)

end
