(* ===== verification/Bus_Runs.thy ===== *)
theory Bus_Runs
  imports Bus_Session Bus_Spec Bus_Interleave
begin

text \<open>
  Concrete brokers over the executable libraries \<open>ref_ctx\<close>, reached by steps of the model: two internal
  clients of which one subscribes to a topic, an IPC client whose queue is full, and a broker with a core
  RPC client whose announcements that IPC client reads, a session of the IPC client, and a run of the
  specification of the bus.
\<close>

type_synonym ref_broker = "(ref_sm, ref_bm, ref_am, ref_ch) broker"

definition run_names :: "string set" where
  "run_names = {''a'', ''b'', ''c'', ''a%%0'', ''.broker''}"

definition bus_of :: "cid \<Rightarrow> client" where
  "bus_of c = \<lparr>k_name = [], k_bus = c, k_rx = True, k_secondary_counter = 0\<rparr>"

definition ipc_peer :: "usize \<Rightarrow> ref_am peer_params" where
  "ipc_peer n = \<lparr>pp_timeout = 1, pp_payload_size_limit = None, pp_aaa_map = None, pp_ip = NoIp,
     pp_queue_size = n, pp_kind = LocalIpc, pp_source = None, pp_source_port = None, pp_allocator = None\<rparr>"

definition plain_reader :: "ref_am reader_params" where
  "plain_reader = \<lparr>rp_timeout = 1, rp_payload_size_limit = None, rp_aaa = None, rp_allocator = None\<rparr>"

text \<open>Client 0 is \<open>a\<close>, client 1 is \<open>b\<close>, which subscribes to \<open>t\<close>.\<close>

definition run_ab :: ref_broker where
  "run_ab = snd (broker_register_client ref_ctx 2 ''b''
     (snd (broker_register_client ref_ctx 2 ''a'' (broker_create ref_ctx False))))"

definition run_sub :: ref_broker where
  "run_sub = snd (client_subscribe_bulk ref_ctx (bus_of 1) [''t''] QosNo run_ab)"

text \<open>Client 2 is the IPC client \<open>c\<close>, with a queue of one frame that is taken.\<close>

definition run_ipc :: ref_broker where
  "run_ipc = fst (snd (peer_register ref_ctx (\<lambda>_. Written) (ipc_peer 1) ''c'' (run_ab, [])))"

definition run_full :: ref_broker where
  "run_full = snd (client_send ref_ctx (bus_of 0) ''c'' (Borrowed [7]) QosNo run_ipc)"

text \<open>The same with the core RPC client; \<open>c\<close> is subscribed to the announcements.\<close>

definition run_core :: ref_broker where
  "run_core =
     (let b0 = snd (broker_register_client ref_ctx 2 ''.broker'' (broker_create ref_ctx False));
          b1 = snd (set_core_rpc_client 0 b0);
          b2 = fst (snd (peer_register ref_ctx (\<lambda>_. Written) (ipc_peer 1) ''c'' (b1, [])));
          b3 = snd (client_subscribe_bulk ref_ctx (bus_of 1) [BROKER_INFO_TOPIC] QosNo b2)
      in snd (client_send ref_ctx (bus_of 0) ''c'' (Borrowed [7]) QosNo b3))"

lemmas run_defs = run_ab_def run_sub_def run_ipc_def run_full_def run_core_def

text \<open>A codec for the core RPC: names and numbers only.\<close>

definition run_codec :: core_codec where
  "run_codec = \<lparr>enc_info = \<lambda>i. Inr (as_bytes (bi_version i)), enc_stats = \<lambda>s. Inr [ucast (bs_r_frames s)],
     enc_clients = \<lambda>l. Inr (concat (map (\<lambda>i. as_bytes (ci_name i) @ [word_of_nat (ci_instances i)]) l)),
     enc_params = \<lambda>m. Inr (case m ''n'' of Some (PI64 i) \<Rightarrow> [ucast i] | _ \<Rightarrow> []),
     dec_filter = \<lambda>p. Inr (from_utf8 p), regex_new = \<lambda>e. Inr (\<lambda>n. prefix e n)\<rparr>"

lemma inj_run_names: "inj_on (sha256 ref_ctx) N"
  by (simp add: ref_ctx_def inj_on_def)

lemma run_inv:
  "db_inv ref_ctx ref_smv map_of run_names run_ab" "db_inv ref_ctx ref_smv map_of run_names run_sub"
  "db_inv ref_ctx ref_smv map_of run_names run_ipc" "db_inv ref_ctx ref_smv map_of run_names run_full"
  "db_inv ref_ctx ref_smv map_of run_names run_core"
proof -
  note c = ref.broker_create_inv [OF inj_run_names, of run_names]
  note p = ref.peer_register_inv [where s = "(b, out)" for b out, simplified]
  show ab: "db_inv ref_ctx ref_smv map_of run_names run_ab"
    unfolding run_ab_def by (intro ref.broker_register_client_inv c) (simp_all add: run_names_def)
  show "db_inv ref_ctx ref_smv map_of run_names run_sub"
    unfolding run_sub_def by (intro ref.client_subscribe_bulk_inv ab)
  show ipc: "db_inv ref_ctx ref_smv map_of run_names run_ipc"
    unfolding run_ipc_def by (rule p [OF ab]) (simp add: run_names_def)
  show "db_inv ref_ctx ref_smv map_of run_names run_full"
    unfolding run_full_def by (intro ref.client_routes_inv ipc)
  show "db_inv ref_ctx ref_smv map_of run_names run_core"
    unfolding run_core_def Let_def
    by (intro ref.client_routes_inv ref.client_subscribe_bulk_inv p ref.set_core_rpc_client_inv
        ref.broker_register_client_inv c) (simp_all add: run_names_def)
qed

text \<open>The runs are reachable: at the clock and with the environment of \<open>ref_ctx\<close>.\<close>

lemma at_time_self: "at_time (now_ns X) (waits X) X = X"
  by (simp add: at_time_def)

lemma run_full_reachable: "broker_reachable ref_ctx run_names run_full"
proof -
  note st = step_register [where X = ref_ctx and t = "now_ns ref_ctx" and w = "waits ref_ctx", unfolded at_time_self]
    step_peer [where X = ref_ctx and t = "now_ns ref_ctx" and w = "waits ref_ctx", unfolded at_time_self]
    step_send [where X = ref_ctx and t = "now_ns ref_ctx" and w = "waits ref_ctx", unfolded at_time_self]
  have "broker_reachable ref_ctx run_names run_ab"
    unfolding run_ab_def
    by (rule reach_step [OF reach_step [OF reach_init st(1)] st(1)]) (simp_all add: run_names_def)
  then have "broker_reachable ref_ctx run_names run_ipc"
    unfolding run_ipc_def by (rule reach_step [OF _ st(2)]) (simp_all add: run_names_def ipc_peer_def)
  moreover have "k_bus (bus_of 0) < length (b_objs run_ipc)" by code_simp
  ultimately show ?thesis unfolding run_full_def by (intro reach_step [OF _ st(3)])
qed

lemma run_ab_facts:
  "length (b_objs run_ab) = 2" "b_clients run_ab ''b'' = Some 1" "b_clients run_ab ''a'' = Some 0"
  "map c_tx (b_objs run_ab) = [(2, False, []), (2, False, [])]"
  by code_simp+

lemma run_sub_facts:
  "length (b_objs run_sub) = 2" "map c_tx (b_objs run_sub) = [(2, False, []), (2, False, [])]"
  "map c_registered (b_objs run_sub) = [True, True]"
  "map_of (b_subscriptions run_sub) (c_digest (b_objs run_sub ! 1)) = Some (1, [''t'', ''.broker/warn''])"
  by code_simp+

lemma run_sub_tx: "c < 2 \<Longrightarrow> c_tx (obj run_sub c) = (2, False, [])"
  using run_sub_facts(2) by (auto simp: less_2_cases_iff dest!: arg_cong [where f = "\<lambda>xs. xs ! c"] simp: run_sub_facts(1))

lemma run_sub_room: "c < 2 \<Longrightarrow> \<not> ch_is_full ref_ctx (c_tx (obj run_sub c))"
  by (simp add: run_sub_tx ref_ctx_def)

text \<open>Only the second client gets publications to its topic.\<close>

lemma run_sub_recipients:
  "recipients ref_smv (mask_match CHR ''/'' ''+'' ''#'') (not_excluded ref_ctx ''t'') ''t'' run_sub = {1}"
proof (intro set_eqI)
  let ?R = "recipients ref_smv (mask_match CHR ''/'' ''+'' ''#'') (not_excluded ref_ctx ''t'') ''t'' run_sub"
  have "ref_smv (b_subscriptions run_sub) (c_digest (obj run_sub 1)) = Some (1, {''t'', ''.broker/warn''})"
    by (simp add: ref_smv_def run_sub_facts(4) del: One_nat_def)
  moreover have "live run_sub 1" "not_excluded ref_ctx ''t'' (obj run_sub 1)" by code_simp+
  moreover have "mask_match CHR ''/'' ''+'' ''#'' ''t'' ''t''" by code_simp
  ultimately have 1: "1 \<in> ?R" by (simp add: recipients_def)
  have "map_of (b_subscriptions run_sub) (c_digest (obj run_sub 0)) = Some (0, [''.broker/warn''])" by code_simp
  moreover have "\<not> mask_match CHR ''/'' ''+'' ''#'' ''.broker/warn'' ''t''" by code_simp
  ultimately have 0: "0 \<notin> ?R" by (auto simp: recipients_def ref_smv_def)
  have less: "c \<in> ?R \<Longrightarrow> c = 0 \<or> c = 1" for c
    using run_sub_facts(1) by (auto simp: recipients_def live_def less_2_cases_iff)
  show "c \<in> ?R \<longleftrightarrow> c \<in> {1}" for c using 0 1 less [of c] by auto
qed

lemma run_full_facts:
  "length (b_objs run_full) = 3" "b_clients run_full ''c'' = Some 2"
  "map c_kind (b_objs run_full) = [Internal, Internal, LocalIpc]"
  "map c_registered (b_objs run_full) = [True, True, True]"
  "map (\<lambda>cl. ch_is_full ref_ctx (c_tx cl)) (b_objs run_full) = [False, False, True]"
  "b_rpc_client run_full = None" "\<not> b_rpc_locked run_full"
  by code_simp+

lemma run_core_facts:
  "length (b_objs run_core) = 2" "b_rpc_client run_core = Some 0" "\<not> b_rpc_locked run_core" "\<not> b_core_locked run_core"
  "map c_kind (b_objs run_core) = [Internal, LocalIpc]" "map c_registered (b_objs run_core) = [True, True]"
  "map c_primary (b_objs run_core) = [True, True]"
  "map c_has_exclusions (b_objs run_core) = [False, False]"
  "map (\<lambda>cl. ch_is_full ref_ctx (c_tx cl)) (b_objs run_core) = [False, True]"
  by code_simp+

section \<open>A session\<close>

text \<open>The writer of \<open>c\<close> takes the frame in its queue and writes it.\<close>

definition ref_queue :: "ref_ch \<Rightarrow> frame list" where "ref_queue ch = snd (snd ch)"
definition ref_closed :: "ref_ch \<Rightarrow> bool" where "ref_closed ch = fst (snd ch)"

definition run_message :: frame where
  "run_message = frame_new KMessage (Some ''a'') None None [7] 0 False"

definition run_silent :: stream where "run_silent = \<lparr>s_bytes = [], s_end = Silent\<rparr>"

definition run_session :: "(ref_sm, ref_bm, ref_am, ref_ch) session" where
  "run_session = (session_start ref_queue 2 run_silent run_full)
     \<lparr>ss_broker := upd_obj 2 (\<lambda>cl. cl\<lparr>c_tx := ch_drain ref_ctx 1 (c_tx cl)\<rparr>) run_full,
      ss_taken := [run_message], ss_written := 1, ss_out := fst (frame_writes run_message)\<rparr>"

lemma ref_channel: "bounded_channel ref_ctx ref_queue fst ref_closed"
  using ref.bounded_channel_axioms unfolding ref_queue_def [abs_def] ref_closed_def [abs_def] .

lemma run_full_queue: "ref_queue (c_tx (obj run_full 2)) = [run_message]"
  by code_simp

lemma run_message_writes: "snd (frame_writes run_message) = False" "broker_frame run_message"
proof -
  have "str_ok ''a''" "nul_free ''a''" by code_simp+
  then have "routed_frame run_message"
    by (simp add: routed_frame_def run_message_def frame_new_def extra_len_def)
  then show "broker_frame run_message" by (simp add: broker_frame_def)
  then show "snd (frame_writes run_message) = False" using frame_writes_safe by simp
qed

lemma run_session_run:
  "session_run ref_ctx ref_queue ref_closed run_names plain_reader 2
     (session_start ref_queue 2 run_silent run_full) run_session"
proof -
  let ?step = "session_step ref_ctx ref_queue ref_closed run_names plain_reader 2"
  let ?s0 = "session_start ref_queue 2 run_silent run_full"
  let ?s1 = "moved [] [run_message] (upd_obj 2 (\<lambda>cl. cl\<lparr>c_tx := ch_drain ref_ctx 1 (c_tx cl)\<rparr>) run_full) ?s0"
  have "?step ?s0 ?s1"
    using session_step.s_recv [of ?s0 ref_queue 2 run_message "[]"] run_full_queue
    by (simp add: session_start_def del: One_nat_def)
  moreover have "?step ?s1 (writer_after (Done ()) False (?s1\<lparr>ss_out := fst (frame_writes run_message)\<rparr>))"
    by (rule session_step.s_write [where wres = "\<lambda>_. Written"])
       (simp_all add: session_start_def moved_def write_list_all run_message_writes prod_eq_iff)
  moreover have "writer_after (Done ()) False (?s1\<lparr>ss_out := fst (frame_writes run_message)\<rparr>) = run_session"
    by (simp add: run_session_def session_start_def moved_def)
  ultimately show ?thesis using session_run.run_step [OF session_run.run_step [OF session_run.run_refl]] by simp
qed

section \<open>A run of the specification\<close>

text \<open>Two clients: the first announces, subscribes, and receives what the second publishes.\<close>

definition ref_rules :: bus_rules where
  "ref_rules = rules_of ref_ctx (mask_match CHR ''/'' ''+'' ''#'') (mask_match CHR ''.'' ''?'' ''*'') ref_acl_match"

definition demo_cmds :: "(u64 \<times> (cid \<Rightarrow> waited) \<times> bus_cmd) list" where
  "demo_cmds = map (\<lambda>(t, cmd). (t, \<lambda>_. Elapsed, cmd))
     [(1, CmdJoin ''a'' 4), (2, CmdCore ''a''), (3, CmdSubscribe ''a'' [''t/#'', BROKER_INFO_TOPIC] Processed),
      (4, CmdJoin ''b'' 4), (5, CmdPublish ''b'' ''t/x'' (Borrowed [7]) QosNo),
      (6, CmdSend ''b'' ''c'' (Borrowed [8]) QosNo), (7, CmdReceive ''a'' 5)]"

lemma demo_masks:
  "\<not> mask_match CHR ''/'' ''+'' ''#'' ''t/#'' BROKER_INFO_TOPIC" "mask_match CHR ''/'' ''+'' ''#'' ''t/#'' ''t/x''"
  "\<not> mask_match CHR ''/'' ''+'' ''#'' BROKER_INFO_TOPIC ''t/x''" "\<not> mask_match CHR ''/'' ''+'' ''#'' BROKER_WARN_TOPIC ''t/x''"
  "\<not> mask_match CHR ''/'' ''+'' ''#'' BROKER_WARN_TOPIC BROKER_INFO_TOPIC"
  "mask_match CHR ''/'' ''+'' ''#'' BROKER_INFO_TOPIC BROKER_INFO_TOPIC"
  "primary_of ''a'' = ''a''" "primary_of ''b'' = ''b''"
  by code_simp+

lemma ref_rmp_event: "rmp_event ref_ctx s d t = Inr (as_bytes s)"
  by (simp add: ref_ctx_def)

lemmas demo_simps = demo_cmds_def timed_spec_def timed_fits_def empty_bus_def join_check_def tell_fits_def bus_event_def
  entered_def with_member_def change_def new_member_def tell_def wants_def ref_rules_def rules_of_def demo_masks
  ref_rmp_event

lemma demo_fits: "fits_run (timed_spec ref_rules) (timed_fits ref_rules run_names) demo_cmds (empty_bus False)"
  by (simp add: demo_simps run_names_def)

lemma demo_results: "fst (run_cmds (timed_spec ref_rules) demo_cmds (empty_bus False)) =
  [Granted, Granted, Answered (Some (Inr ())), Granted, Answered None, Refused NotRegistered,
   Received [frame_new KPublish (Some ''a'') (Some BROKER_INFO_TOPIC) None (as_bytes ''reg'') 0 False,
     frame_new KPublish (Some ''b'') (Some ''t/x'') None [7] 0 False]]"
  by (simp add: demo_simps note_of_def make_confirm_channel_def needs_ack_def is_realtime_def)

section \<open>A task that locks itself out\<close>

text \<open>The announcement of the shutdown to the broker whose IPC client has a full queue.\<close>

definition lockout_run :: "work list \<times> ref_broker" where
  "lockout_run = run_pieces ref_ctx 9 ([LockCore event_shutdown], run_core)"

lemma lockout_run_facts:
  "case fst lockout_run of LockCore ev # ws \<Rightarrow> ev = event_unreg ''c'' \<and> holds_rpc ws | _ \<Rightarrow> False"
  "rpc_holders (fst lockout_run) = 1" "b_rpc_locked (snd lockout_run)"
  by code_simp+

lemma lockout_locked_out: "locked_out 0 \<lparr>fi_broker = snd lockout_run, fi_tasks = [fst lockout_run]\<rparr>"
  using lockout_run_facts(1) by (auto simp: locked_out_def split: list.splits work.splits)

lemma lockout_locks_ok: "locks_ok \<lparr>fi_broker = snd lockout_run, fi_tasks = [fst lockout_run]\<rparr>"
  using lockout_run_facts(2,3) by (simp add: locks_ok_def total_holders_def)

end
