(* ===== verification/Bus_RpcLife.thy ===== *)
theory Bus_RpcLife
  imports Bus_RpcClient
begin

text \<open>
  The life of the RPC clients (\<open>RpcClient\<close> of \<open>src/src/rpc/async_client.rs\<close> and \<open>src/src/sync/rpc.rs\<close>): creation,
  the processor task, the pinger that ends it when the bus client is lost, the wait of a call for its reply,
  and the drop.
\<close>

section \<open>Options\<close>

definition rpc_options_default :: rpc_options where
  "rpc_options_default = \<lparr>ro_blocking_notifications = False, ro_blocking_frames = False\<rparr>"
definition set_blocking_notifications :: "rpc_options \<Rightarrow> rpc_options" where
  "set_blocking_notifications opts = opts\<lparr>ro_blocking_notifications := True\<rparr>"
definition set_blocking_frames :: "rpc_options \<Rightarrow> rpc_options" where
  "set_blocking_frames opts = opts\<lparr>ro_blocking_frames := True\<rparr>"

section \<open>State\<close>

text \<open>
  \<open>rl_processor\<close> and \<open>rl_pinger\<close> say whether the tasks run, \<open>rl_beacon\<close> is the value of the beacon of the bus
  client, if it has one.
\<close>

record rpc_life =
  rl_client :: rpc_client
  rl_opts :: rpc_options
  rl_processor :: bool
  rl_pinger :: bool
  rl_beacon :: "bool option"

text \<open>\<open>init\<close>: \<^const>\<open>None\<close> is the panic when the event channel of the bus client is taken already.\<close>

definition rpc_init :: "duration option \<Rightarrow> bool \<Rightarrow> bool option \<Rightarrow> rpc_options \<Rightarrow> rpc_life option" where
  "rpc_init timeout has_channel beacon opts =
     (if has_channel then
        Some \<lparr>rl_client = rpc_client_new timeout, rl_opts = opts, rl_processor = True,
          rl_pinger = (timeout \<noteq> None), rl_beacon = beacon\<rparr>
      else None)"

text \<open>The synchronous client has no pinger; its processor is run by the caller.\<close>

definition sync_rpc_init :: "duration option \<Rightarrow> bool \<Rightarrow> bool option \<Rightarrow> rpc_life option" where
  "sync_rpc_init timeout has_channel beacon =
     (if has_channel then
        Some \<lparr>rl_client = rpc_client_new timeout,
          rl_opts = set_blocking_frames (set_blocking_notifications rpc_options_default),
          rl_processor = True, rl_pinger = False, rl_beacon = beacon\<rparr>
      else None)"

definition rpc_is_connected :: "rpc_life \<Rightarrow> bool" where
  "rpc_is_connected l = (case rl_beacon l of None \<Rightarrow> True | Some b \<Rightarrow> b)"

section \<open>Steps\<close>

text \<open>
  The events of a client: a frame arrives, the event channel is closed, a ping ends, the beacon changes, a
  call begins or its send ends.
\<close>

datatype rpc_life_event =
  FrameIn frame
| ChannelClosed
| Pinged "error option"
| Beacon bool
| CallBegins string string cow QoS
| CallSent u32 zc_outcome

text \<open>One turn of the pinger: an error aborts the processor and ends the pinger.\<close>

definition rpc_pinger_turn :: "error option \<Rightarrow> rpc_life \<Rightarrow> rpc_life" where
  "rpc_pinger_turn r l =
     (if rl_pinger l then
        (case r of Some e \<Rightarrow> l\<lparr>rl_processor := False, rl_pinger := False\<rparr> | None \<Rightarrow> l)
      else l)"

text \<open>The processor takes a frame while it runs; a panic ends its task.\<close>

definition rpc_frame_turn :: "frame \<Rightarrow> rpc_life \<Rightarrow> rpc_life" where
  "rpc_frame_turn f l =
     (if rl_processor l then
        (case processor_step (rl_opts l) f (rl_client l) of
           Some cl \<Rightarrow> l\<lparr>rl_client := cl\<rparr>
         | None \<Rightarrow> l\<lparr>rl_processor := False\<rparr>)
      else l)"

fun rpc_life_step :: "rpc_life_event \<Rightarrow> rpc_life \<Rightarrow> rpc_life" where
  "rpc_life_step (FrameIn f) l = rpc_frame_turn f l"
| "rpc_life_step ChannelClosed l = l\<lparr>rl_processor := False\<rparr>"
| "rpc_life_step (Pinged r) l = rpc_pinger_turn r l"
| "rpc_life_step (Beacon b) l = l\<lparr>rl_beacon := map_option (\<lambda>_. b) (rl_beacon l)\<rparr>"
| "rpc_life_step (CallBegins target method params qos) l =
     l\<lparr>rl_client := snd (call_begin target method params qos (rl_client l))\<rparr>"
| "rpc_life_step (CallSent call_id z) l = l\<lparr>rl_client := snd (call_send call_id z (rl_client l))\<rparr>"

text \<open>\<open>impl Drop for RpcClient\<close>\<close>

definition rpc_drop :: "rpc_life \<Rightarrow> rpc_life" where
  "rpc_drop l = l\<lparr>rl_pinger := False, rl_processor := False\<rparr>"

section \<open>Waiting for the reply\<close>

text \<open>
  \<open>rx.await\<close> in the asynchronous \<open>call\<close>: the reply, or an error if the sender is gone, which is kept in the table
  of calls; there is no timeout.
\<close>

definition call_wait :: "ticket \<Rightarrow> rpc_client \<Rightarrow> (rpc_error, rpc_event) eff" where
  "call_wait rx cl =
     (case r_results cl rx of
        Some event \<Rightarrow> (case call_result event of Some (Inr v) \<Rightarrow> Done v | Some (Inl e) \<Rightarrow> Bail e | None \<Rightarrow> Pending)
      | None \<Rightarrow> if rx \<in> ran (r_calls cl) then Pending else Bail (rpc_error_from err_eof))"

text \<open>The frame resolves the call \<open>i\<close> of a client that gets it.\<close>

definition answers :: "u32 \<Rightarrow> frame \<Rightarrow> bool" where
  "answers i f \<longleftrightarrow> f_kind f = KMessage \<and>
     (case rpc_try_from f of
        Some (Inr event) \<Rightarrow> re_kind event \<in> {RpcReply, RpcErrorReply} \<and> event_id event = Some i
      | _ \<Rightarrow> False)"

section \<open>A lost processor\<close>

text \<open>An event of another call keeps a pending one; its own id must not be issued again.\<close>

definition spares :: "u32 \<Rightarrow> rpc_life_event \<Rightarrow> rpc_life \<Rightarrow> bool" where
  "spares i ev l \<longleftrightarrow>
     (case ev of CallBegins _ _ _ _ \<Rightarrow> next_call_id (r_call_id (rl_client l)) \<noteq> i
      | CallSent j _ \<Rightarrow> j \<noteq> i | _ \<Rightarrow> True)"

fun spared :: "u32 \<Rightarrow> rpc_life_event list \<Rightarrow> rpc_life \<Rightarrow> bool" where
  "spared i [] l = True"
| "spared i (ev # evs) l = (spares i ev l \<and> spared i evs (rpc_life_step ev l))"

lemma lost_step:
  assumes "\<not> rl_processor l" and "r_calls (rl_client l) i = Some t" and "r_results (rl_client l) t = None" and "spares i ev l"
  shows "\<not> rl_processor (rpc_life_step ev l) \<and> r_calls (rl_client (rpc_life_step ev l)) i = Some t \<and>
    r_results (rl_client (rpc_life_step ev l)) t = None"
proof (cases ev)
  case (CallSent j z)
  then show ?thesis using assms
    by (auto simp: spares_def call_send_def cancel_call_def split: zc_outcome.splits option.splits confirm_outcome.splits sum.splits)
qed (use assms in \<open>auto simp: rpc_frame_turn_def rpc_pinger_turn_def spares_def call_begin_def Let_def split: option.splits\<close>)

lemma lost_run:
  assumes "\<not> rl_processor l" and "r_calls (rl_client l) i = Some t" and "r_results (rl_client l) t = None" and "spared i evs l"
  shows "call_wait t (rl_client (fold rpc_life_step evs l)) = Pending"
  using assms
proof (induction evs arbitrary: l)
  case Nil
  then show ?case by (auto simp: call_wait_def ran_def)
next
  case (Cons ev evs)
  then show ?case using lost_step [of l i t ev] by simp
qed

end
