(* ===== verification/Bus_RpcTasks.thy ===== *)
theory Bus_RpcTasks
  imports Bus_RpcLife
begin

text \<open>
  The tasks of the asynchronous RPC client (\<open>src/src/rpc/async_client.rs\<close>): the processor starts a handler in a
  task of its own, in a task of the pool of its options, or in place, and handlers use the client they serve.
  With tasks of their own a handler always gets the reply to its call; a handler in place, or a pool full of
  handlers, that waits for a reply keeps the processor from ever reading it.
\<close>

section \<open>Creation\<close>

text \<open>A client is created with its handlers, here the one for calls, and with or without options.\<close>

type_synonym call_handler = "rpc_event \<Rightarrow> rpc_result"

definition rpc_create ::
  "call_handler \<Rightarrow> rpc_options \<Rightarrow> duration option \<Rightarrow> bool \<Rightarrow> bool option \<Rightarrow> (call_handler \<times> rpc_life) option" where
  "rpc_create h opts timeout has_channel beacon = map_option (Pair h) (rpc_init timeout has_channel beacon opts)"
definition rpc_new :: "call_handler \<Rightarrow> duration option \<Rightarrow> bool \<Rightarrow> bool option \<Rightarrow> (call_handler \<times> rpc_life) option" where
  "rpc_new h timeout has_channel beacon = map_option (Pair h) (rpc_init timeout has_channel beacon rpc_options_default)"
definition rpc_create0 :: "rpc_options \<Rightarrow> duration option \<Rightarrow> bool \<Rightarrow> bool option \<Rightarrow> (call_handler \<times> rpc_life) option" where
  "rpc_create0 opts timeout has_channel beacon =
     map_option (Pair dummy_handle_call) (rpc_init timeout has_channel beacon opts)"
definition rpc_new0 :: "duration option \<Rightarrow> bool \<Rightarrow> bool option \<Rightarrow> (call_handler \<times> rpc_life) option" where
  "rpc_new0 timeout has_channel beacon =
     map_option (Pair dummy_handle_call) (rpc_init timeout has_channel beacon rpc_options_default)"

text \<open>A client without handlers refuses every request that wants a reply.\<close>

lemma new0_refuses:
  assumes "rpc_new0 timeout has_channel beacon = Some (h, l) \<or> rpc_create0 opts timeout has_channel beacon = Some (h, l)"
  shows "\<exists>z. handle_request h event (Some (i, target)) = Some z \<and> z_target z = target \<and>
    z_header z = error_header i RPC_ERROR_CODE_METHOD_NOT_FOUND"
proof -
  have "h = dummy_handle_call" using assms by (auto simp: rpc_new0_def rpc_create0_def)
  then show ?thesis
    by (simp add: handle_request_def dummy_handle_call_def rpc_error_new_def error_header_def Let_def)
qed

section \<open>State\<close>

text \<open>The crate \<open>tokio_task_pool\<close> by its interface: whether a pool starts a task when so many are running.\<close>

type_synonym task_pool = "nat \<Rightarrow> bool"

record pool_options = rpc_options +
  ro_task_pool :: "task_pool option"

definition with_task_pool :: "task_pool \<Rightarrow> pool_options \<Rightarrow> pool_options" where
  "with_task_pool pool opts = opts\<lparr>ro_task_pool := Some pool\<rparr>"

text \<open>A handler works, waits for the reply of a call it made, hangs in a send, or is through.\<close>

datatype task_state = Working | AwaitingReply ticket | Hanging | Through

record handler_task =
  ht_action :: rpc_action
  ht_spawned :: bool
  ht_state :: task_state

datatype processor_state = Receiving | InPlace nat | AwaitingSlot rpc_action | ProcessorOver

record rpc_tasks =
  rt_client :: rpc_client
  rt_opts :: pool_options
  rt_inbox :: "frame list"
  rt_processor :: processor_state
  rt_tasks :: "handler_task list"
  rt_sent :: "zc_args list"

definition rpc_tasks_new :: "duration option \<Rightarrow> pool_options \<Rightarrow> rpc_tasks" where
  "rpc_tasks_new timeout opts = \<lparr>rt_client = rpc_client_new timeout, rt_opts = opts, rt_inbox = [],
     rt_processor = Receiving, rt_tasks = [], rt_sent = []\<rparr>"

section \<open>The processor\<close>

definition pool_load :: "rpc_tasks \<Rightarrow> nat" where
  "pool_load s = length (filter (\<lambda>h. ht_spawned h \<and> ht_state h \<noteq> Through) (rt_tasks s))"

definition start_task :: "bool \<Rightarrow> rpc_action \<Rightarrow> rpc_tasks \<Rightarrow> rpc_tasks" where
  "start_task spawned a s =
     s\<lparr>rt_tasks := rt_tasks s @ [\<lparr>ht_action = a, ht_spawned = spawned, ht_state = Working\<rparr>]\<rparr>"

text \<open>The macro \<open>spawn!\<close>: \<open>pool.spawn_task(task).await\<close> waits while the pool is full.\<close>

definition spawn_handler :: "rpc_action \<Rightarrow> rpc_tasks \<Rightarrow> rpc_tasks" where
  "spawn_handler a s =
     (case ro_task_pool (rt_opts s) of
        Some pool \<Rightarrow> if pool (pool_load s) then start_task True a s else s\<lparr>rt_processor := AwaitingSlot a\<rparr>
      | None \<Rightarrow> start_task True a s)"

text \<open>\<open>handlers.handle_frame(frame).await\<close> in the blocking modes; requests are always spawned.\<close>

fun handled_in_place :: "rpc_action \<Rightarrow> bool" where
  "handled_in_place (HandleNotification blocking event) = blocking"
| "handled_in_place (HandleFrame blocking frame) = blocking"
| "handled_in_place (HandleRequest event ev) = False"

definition run_action :: "rpc_action \<Rightarrow> rpc_tasks \<Rightarrow> rpc_tasks" where
  "run_action a s =
     (if handled_in_place a
      then (start_task False a s)\<lparr>rt_processor := InPlace (length (rt_tasks s))\<rparr>
      else spawn_handler a s)"

text \<open>One turn: the frame is taken from the channel, and what \<^const>\<open>processor_step\<close> starts is started.\<close>

definition processor_turn :: "rpc_tasks \<Rightarrow> rpc_tasks" where
  "processor_turn s =
     (case (rt_processor s, rt_inbox s) of
        (Receiving, f # fs) \<Rightarrow>
          (case processor_step (rpc_options.truncate (rt_opts s)) f (rt_client s) of
             None \<Rightarrow> s\<lparr>rt_inbox := fs, rt_processor := ProcessorOver\<rparr>
           | Some cl \<Rightarrow>
               fold run_action (drop (length (r_actions (rt_client s))) (r_actions cl))
                 (s\<lparr>rt_inbox := fs, rt_client := cl\<rparr>))
      | _ \<Rightarrow> s)"

text \<open>The pool has a free slot again, or gives up the task.\<close>

definition slot_turn :: "rpc_tasks \<Rightarrow> rpc_tasks" where
  "slot_turn s =
     (case rt_processor s of
        AwaitingSlot a \<Rightarrow> spawn_handler a (s\<lparr>rt_processor := Receiving\<rparr>)
      | _ \<Rightarrow> s)"

definition spawn_error :: "rpc_tasks \<Rightarrow> rpc_tasks" where
  "spawn_error s = (case rt_processor s of AwaitingSlot a \<Rightarrow> s\<lparr>rt_processor := Receiving\<rparr> | _ \<Rightarrow> s)"

section \<open>Handlers\<close>

definition set_task :: "nat \<Rightarrow> task_state \<Rightarrow> rpc_tasks \<Rightarrow> rpc_tasks" where
  "set_task i st s = s\<lparr>rt_tasks := (rt_tasks s)[i := (rt_tasks s ! i)\<lparr>ht_state := st\<rparr>]\<rparr>"

definition task_is :: "nat \<Rightarrow> task_state \<Rightarrow> rpc_tasks \<Rightarrow> bool" where
  "task_is i st s \<longleftrightarrow> i < length (rt_tasks s) \<and> ht_state (rt_tasks s ! i) = st"

text \<open>\<open>call\<close>, up to the wait for the reply, by a handler or by any other task.\<close>

definition make_call :: "string \<Rightarrow> string \<Rightarrow> cow \<Rightarrow> QoS \<Rightarrow> zc_outcome \<Rightarrow> rpc_tasks \<Rightarrow> task_state \<times> rpc_tasks" where
  "make_call target mth params qos z s =
     (let ((call_id, rx, args), cl) = call_begin target mth params qos (rt_client s);
          (r, cl') = call_send call_id z cl
      in ((case r of Done _ \<Rightarrow> AwaitingReply rx | Bail _ \<Rightarrow> Working | Pending \<Rightarrow> Hanging),
          s\<lparr>rt_client := cl', rt_sent := rt_sent s @ [args]\<rparr>))"

definition task_calls :: "nat \<Rightarrow> string \<Rightarrow> string \<Rightarrow> cow \<Rightarrow> QoS \<Rightarrow> zc_outcome \<Rightarrow> rpc_tasks \<Rightarrow> rpc_tasks" where
  "task_calls i target mth params qos z s =
     (if task_is i Working s then
        let (st, s') = make_call target mth params qos z s in set_task i st s'
      else s)"

definition task_resumes :: "nat \<Rightarrow> rpc_tasks \<Rightarrow> rpc_tasks" where
  "task_resumes i s =
     (if i < length (rt_tasks s) then
        (case ht_state (rt_tasks s ! i) of
           AwaitingReply rx \<Rightarrow> if call_wait rx (rt_client s) = Pending then s else set_task i Working s
         | _ \<Rightarrow> s)
      else s)"

text \<open>The handler returns: a request is replied to, and the processor goes on if it waited.\<close>

definition replies :: "rpc_action \<Rightarrow> rpc_result \<Rightarrow> zc_args list" where
  "replies a res =
     (case a of
        HandleRequest event ev \<Rightarrow> (case handle_request (\<lambda>_. res) event ev of Some z \<Rightarrow> [z] | None \<Rightarrow> [])
      | _ \<Rightarrow> [])"

definition task_ends :: "nat \<Rightarrow> rpc_result \<Rightarrow> rpc_tasks \<Rightarrow> rpc_tasks" where
  "task_ends i res s =
     (if task_is i Working s then
        (set_task i Through s)
          \<lparr>rt_sent := rt_sent s @ replies (ht_action (rt_tasks s ! i)) res,
           rt_processor := (if rt_processor s = InPlace i then Receiving else rt_processor s)\<rparr>
      else s)"

section \<open>Interleavings\<close>

datatype task_event =
  FrameQueued frame
| ProcessorTurn
| SlotFreed
| SpawnFailed
| TaskCalls nat string string cow QoS zc_outcome
| OtherCalls string string cow QoS zc_outcome
| TaskResumes nat
| TaskEnds nat rpc_result
| ProcessorAborted

fun task_step :: "task_event \<Rightarrow> rpc_tasks \<Rightarrow> rpc_tasks" where
  "task_step (FrameQueued f) s = s\<lparr>rt_inbox := rt_inbox s @ [f]\<rparr>"
| "task_step ProcessorTurn s = processor_turn s"
| "task_step SlotFreed s = slot_turn s"
| "task_step SpawnFailed s = spawn_error s"
| "task_step (TaskCalls i target mth params qos z) s = task_calls i target mth params qos z s"
| "task_step (OtherCalls target mth params qos z) s = snd (make_call target mth params qos z s)"
| "task_step (TaskResumes i) s = task_resumes i s"
| "task_step (TaskEnds i res) s = task_ends i res s"
| "task_step ProcessorAborted s = s\<lparr>rt_processor := ProcessorOver\<rparr>"

text \<open>
  Call ids are issued again after \<open>2 ^ 32 - 1\<close> calls: a run in which no id is issued while its call still
  waits.
\<close>

definition new_id_free :: "rpc_tasks \<Rightarrow> bool" where
  "new_id_free s \<longleftrightarrow> r_calls (rt_client s) (next_call_id (r_call_id (rt_client s))) = None"

fun ids_free :: "task_event list \<Rightarrow> rpc_tasks \<Rightarrow> bool" where
  "ids_free [] s = True"
| "ids_free (ev # evs) s =
     ((case ev of TaskCalls _ _ _ _ _ _ \<Rightarrow> new_id_free s | OtherCalls _ _ _ _ _ \<Rightarrow> new_id_free s | _ \<Rightarrow> True) \<and>
      ids_free evs (task_step ev s))"

section \<open>Calls of other tasks\<close>

text \<open>A call with a new id leaves the waiting calls and the replies alone.\<close>

lemma make_call_fields:
  "rt_opts (snd (make_call target mth params qos z s)) = rt_opts s"
  "rt_inbox (snd (make_call target mth params qos z s)) = rt_inbox s"
  "rt_processor (snd (make_call target mth params qos z s)) = rt_processor s"
  "rt_tasks (snd (make_call target mth params qos z s)) = rt_tasks s"
  by (simp_all add: make_call_def call_begin_def Let_def split: prod.splits)

lemma make_call_client:
  assumes "new_id_free s"
  shows "r_results (rt_client (snd (make_call target mth params qos z s))) = r_results (rt_client s)"
    and "r_calls (rt_client s) i = Some t \<Longrightarrow> r_calls (rt_client (snd (make_call target mth params qos z s))) i = Some t"
proof -
  let ?i = "next_call_id (r_call_id (rt_client s))" and ?t = "r_next_ticket (rt_client s)"
  have c: "rt_client (snd (make_call target mth params qos z s)) = snd (call_send ?i z
      ((rt_client s)\<lparr>r_call_id := ?i, r_calls := (r_calls (rt_client s))(?i \<mapsto> ?t), r_next_ticket := ?t + 1\<rparr>))"
    by (simp add: make_call_def call_begin_def Let_def prod.case_eq_if)
  have f: "r_results (snd (call_send j z cl)) = r_results cl"
    "r_calls (snd (call_send j z cl)) k = r_calls cl k \<or> j = k" for j k cl
    by (auto simp: call_send_def cancel_call_def split: zc_outcome.splits option.splits confirm_outcome.splits sum.splits)
  show "r_results (rt_client (snd (make_call target mth params qos z s))) = r_results (rt_client s)"
    by (simp add: c f)
  assume "r_calls (rt_client s) i = Some t"
  moreover from this assms have "?i \<noteq> i" by (auto simp: new_id_free_def)
  ultimately show "r_calls (rt_client (snd (make_call target mth params qos z s))) i = Some t"
    using f(2) [of ?i _ i] by (fastforce simp: c)
qed

lemma set_task_fields [simp]:
  "rt_client (set_task i st s) = rt_client s" "rt_opts (set_task i st s) = rt_opts s"
  "rt_inbox (set_task i st s) = rt_inbox s" "rt_processor (set_task i st s) = rt_processor s"
  "length (rt_tasks (set_task i st s)) = length (rt_tasks s)"
  by (simp_all add: set_task_def)

lemma start_task_fields [simp]:
  "rt_client (start_task b a s) = rt_client s" "rt_opts (start_task b a s) = rt_opts s"
  "rt_inbox (start_task b a s) = rt_inbox s" "rt_processor (start_task b a s) = rt_processor s"
  by (simp_all add: start_task_def)

lemma run_action_opts: "rt_opts (run_action a s) = rt_opts s"
  by (simp add: run_action_def spawn_handler_def split: option.splits)

lemma fold_action_opts: "rt_opts (fold run_action as s) = rt_opts s"
  by (induction as arbitrary: s) (simp_all add: run_action_opts)

lemma task_step_opts: "rt_opts (task_step ev s) = rt_opts s"
proof (cases ev)
  case ProcessorTurn
  then show ?thesis
    by (auto simp: processor_turn_def fold_action_opts split: processor_state.splits list.splits option.splits)
next
  case (TaskCalls i target mth params qos z)
  then show ?thesis
    using make_call_fields(1) [of target mth params qos z s] by (simp add: task_calls_def Let_def prod.case_eq_if)
qed (simp_all add: make_call_fields slot_turn_def spawn_error_def spawn_handler_def task_resumes_def task_ends_def
  split: processor_state.splits option.splits task_state.splits)

lemma run_opts: "rt_opts (fold task_step evs s) = rt_opts s"
  by (induction evs arbitrary: s) (simp_all add: task_step_opts)

section \<open>Handlers in tasks of their own\<close>

definition readable :: "frame \<Rightarrow> bool" where
  "readable f \<longleftrightarrow> f_sender f \<noteq> None \<and> f_payload_pos f \<le> length (f_buf f)"

text \<open>Call \<open>i\<close> waits with ticket \<open>t\<close>; or it has got \<open>f\<close> as its reply.\<close>

definition waits_for :: "u32 \<Rightarrow> ticket \<Rightarrow> rpc_client \<Rightarrow> bool" where
  "waits_for i t cl \<longleftrightarrow>
     r_calls cl i = Some t \<and> (\<forall>j. r_calls cl j = Some t \<longrightarrow> j = i) \<and> t < r_next_ticket cl"

definition replied :: "frame \<Rightarrow> ticket \<Rightarrow> rpc_client \<Rightarrow> bool" where
  "replied f t cl \<longleftrightarrow> (\<exists>e. rpc_try_from f = Some (Inr e) \<and> r_results cl t = Some e) \<and>
     t \<notin> ran (r_calls cl) \<and> t < r_next_ticket cl"

text \<open>The options with which no handler is awaited by the processor.\<close>

definition unblocked :: "pool_options \<Rightarrow> bool" where
  "unblocked opts \<longleftrightarrow> \<not> ro_blocking_notifications opts \<and> \<not> ro_blocking_frames opts \<and> ro_task_pool opts = None"

lemma processor_step_actions:
  assumes "processor_step opts f cl = Some cl'"
  shows "\<exists>as. r_actions cl' = r_actions cl @ as \<and>
    (\<forall>a \<in> set as. handled_in_place a \<longrightarrow> ro_blocking_notifications opts \<or> ro_blocking_frames opts)"
  using assms
  by (auto simp: processor_step_def act_on_def resolve_call_def
      split: if_splits option.splits sum.splits rpc_event_kind.splits)

lemma processor_step_resolves:
  assumes "processor_step opts f cl = Some cl'"
  shows "r_calls cl' = r_calls cl \<and> r_results cl' = r_results cl \<and> r_next_ticket cl' = r_next_ticket cl \<and> (\<forall>i. \<not> answers i f) \<or>
    (\<exists>e i. rpc_try_from f = Some (Inr e) \<and> answers i f \<and> (\<forall>j. answers j f \<longrightarrow> j = i) \<and> cl' = resolve_call i e cl)"
  using assms
  by (auto simp: processor_step_def act_on_def answers_def split: if_splits option.splits sum.splits rpc_event_kind.splits)

text \<open>A reply resolves the call it is for, and a call that is resolved keeps its reply.\<close>

lemma resolve_call_replied:
  assumes "rpc_try_from f = Some (Inr e)"
  shows "waits_for i t cl \<Longrightarrow> replied f t (resolve_call i e cl)"
    and "waits_for i t cl \<Longrightarrow> j \<noteq> i \<Longrightarrow> waits_for i t (resolve_call j e cl)"
    and "replied g t cl \<Longrightarrow> replied g t (resolve_call j e cl)"
proof -
  show "replied f t (resolve_call i e cl)" if "waits_for i t cl"
    using that assms by (auto simp: waits_for_def replied_def resolve_call_def ran_def)
  show "waits_for i t (resolve_call j e cl)" if "waits_for i t cl" "j \<noteq> i"
    using that by (cases "r_calls cl j") (auto simp: waits_for_def resolve_call_def)
  show "replied g t (resolve_call j e cl)" if "replied g t cl"
    using that by (cases "r_calls cl j") (auto simp: replied_def resolve_call_def ran_def)
qed

lemma processor_step_replied:
  assumes p: "processor_step opts f cl = Some cl'"
  shows "waits_for i t cl \<Longrightarrow> answers i f \<Longrightarrow> replied f t cl'"
    and "waits_for i t cl \<Longrightarrow> \<not> answers i f \<Longrightarrow> waits_for i t cl'"
    and "replied g t cl \<Longrightarrow> replied g t cl'"
proof -
  have s: "waits_for i t cl' = waits_for i t cl \<and> replied g t cl' = replied g t cl"
    if "r_calls cl' = r_calls cl" "r_results cl' = r_results cl" "r_next_ticket cl' = r_next_ticket cl" for i g
    using that by (simp add: waits_for_def replied_def)
  show "replied f t cl'" if "waits_for i t cl" "answers i f"
    using processor_step_resolves [OF p] that resolve_call_replied(1) by blast
  show "waits_for i t cl'" if "waits_for i t cl" "\<not> answers i f"
    using processor_step_resolves [OF p] that resolve_call_replied(2) s by metis
  show "replied g t cl'" if "replied g t cl"
    using processor_step_resolves [OF p] that resolve_call_replied(3) s by metis
qed

lemma fold_spawned:
  assumes "ro_task_pool (rt_opts s) = None" and "\<forall>a \<in> set as. \<not> handled_in_place a"
  shows "rt_client (fold run_action as s) = rt_client s \<and> rt_inbox (fold run_action as s) = rt_inbox s \<and>
    rt_processor (fold run_action as s) = rt_processor s \<and> rt_opts (fold run_action as s) = rt_opts s"
  using assms
proof (induction as arbitrary: s)
  case (Cons a as)
  then have "run_action a s = start_task True a s" by (simp add: run_action_def spawn_handler_def)
  with Cons show ?case by simp
qed simp

lemma unblocked_turn:
  assumes o: "unblocked (rt_opts s)" and r: "rt_processor s = Receiving" and i: "rt_inbox s = f # fs" and f: "readable f"
  shows "\<exists>cl. processor_step (rpc_options.truncate (rt_opts s)) f (rt_client s) = Some cl \<and>
    rt_client (processor_turn s) = cl \<and> rt_inbox (processor_turn s) = fs \<and>
    rt_processor (processor_turn s) = Receiving \<and> rt_opts (processor_turn s) = rt_opts s"
proof -
  let ?opts = "rpc_options.truncate (rt_opts s)"
  obtain cl where cl: "processor_step ?opts f (rt_client s) = Some cl"
    using processor_step_total [of f ?opts "rt_client s"] f by (auto simp: readable_def)
  from processor_step_actions [OF this] o obtain as where
    as: "r_actions cl = r_actions (rt_client s) @ as" "\<forall>a \<in> set as. \<not> handled_in_place a"
    by (auto simp: unblocked_def rpc_options.truncate_def)
  have "processor_turn s = fold run_action as (s\<lparr>rt_inbox := fs, rt_client := cl\<rparr>)"
    using r i cl as(1) by (simp add: processor_turn_def)
  with cl o r fold_spawned [of "s\<lparr>rt_inbox := fs, rt_client := cl\<rparr>" as] as(2) show ?thesis
    by (simp add: unblocked_def)
qed

text \<open>
  The reply \<open>f\<close> to call \<open>i\<close>, which waits with ticket \<open>t\<close>, is there or at most the \<open>n\<close>-th frame to be read, and the
  first reply to the call.
\<close>

definition reply_within :: "u32 \<Rightarrow> ticket \<Rightarrow> frame \<Rightarrow> nat \<Rightarrow> rpc_tasks \<Rightarrow> bool" where
  "reply_within i t f n s \<longleftrightarrow> unblocked (rt_opts s) \<and> rt_processor s = Receiving \<and> (\<forall>g \<in> set (rt_inbox s). readable g) \<and>
     (replied f t (rt_client s) \<or>
      waits_for i t (rt_client s) \<and> answers i f \<and>
      (\<exists>pre rest. rt_inbox s = pre @ f # rest \<and> length pre < n \<and> (\<forall>g \<in> set pre. \<not> answers i g)))"

lemma delivered_answers:
  assumes d: "delivered_as sender z f"
    and z: "z_header z = reply_header i \<and> r = Inr (z_payload z) \<or>
      (\<exists>c. z_header z = error_header i c \<and> r = Inl (rpc_error_new c (Some (z_payload z))))"
  shows "answers i f"
    and "replied f t cl \<Longrightarrow> (case r of Inr p \<Rightarrow> \<exists>e. call_wait t cl = Done e \<and> event_payload e = Some p | Inl x \<Rightarrow> call_wait t cl = Bail x)"
proof -
  obtain e where e: "rpc_try_from f = Some (Inr e)" "re_kind e \<in> {RpcReply, RpcErrorReply}" "event_id e = Some i"
    and c: "case r of Inr p \<Rightarrow> call_result e = Some (Inr e) \<and> event_payload e = Some p | Inl x \<Rightarrow> call_result e = Some (Inl x)"
    using z parsesD [OF rpc_parse_reply [of i "z_payload z" f]] parsesD [OF rpc_parse_error [of i _ "z_payload z" f]]
      delivered_carries [OF d]
    by (elim disjE exE conjE) (fastforce simp: call_result_def rpc_error_try_from_def)+
  then show "answers i f" using delivered_carries [OF d] by (simp add: answers_def)
  assume "replied f t cl"
  with e(1) c show "case r of Inr p \<Rightarrow> \<exists>e. call_wait t cl = Done e \<and> event_payload e = Some p | Inl x \<Rightarrow> call_wait t cl = Bail x"
    by (auto simp: replied_def call_wait_def split: sum.splits)
qed

lemma reply_within_turn:
  assumes w: "reply_within i t f (Suc n) s"
  shows "reply_within i t f n (processor_turn s)"
proof (cases "rt_inbox s")
  case Nil
  with w show ?thesis by (auto simp: reply_within_def processor_turn_def)
next
  case (Cons g fs)
  note p = w [unfolded reply_within_def]
  from p Cons obtain cl where cl: "processor_step (rpc_options.truncate (rt_opts s)) g (rt_client s) = Some cl"
      "rt_client (processor_turn s) = cl" "rt_inbox (processor_turn s) = fs"
      "rt_processor (processor_turn s) = Receiving" "rt_opts (processor_turn s) = rt_opts s"
    using unblocked_turn [of s g fs] by auto
  note step = processor_step_replied [OF cl(1)]
  have "replied f t cl \<or> waits_for i t cl \<and> answers i f \<and>
      (\<exists>pre rest. fs = pre @ f # rest \<and> length pre < n \<and> (\<forall>g \<in> set pre. \<not> answers i g))"
  proof (cases "replied f t (rt_client s)")
    case False
    with p Cons obtain pre rest where c: "waits_for i t (rt_client s)" "answers i f" "g # fs = pre @ f # rest"
      "length pre < Suc n" "\<forall>g \<in> set pre. \<not> answers i g" by auto
    show ?thesis
    proof (cases pre)
      case Nil
      with c show ?thesis using step(1) by simp
    next
      case (Cons x xs)
      with c step(2) show ?thesis by auto
    qed
  qed (use step(3) in blast)
  with cl p Cons show ?thesis by (simp add: reply_within_def)
qed

text \<open>No other event keeps the reply from being read.\<close>

lemma make_call_waits:
  assumes free: "new_id_free s"
  shows "waits_for i t (rt_client s) \<Longrightarrow> waits_for i t (rt_client (snd (make_call target mth params qos z s)))"
    and "replied f t (rt_client s) \<Longrightarrow> replied f t (rt_client (snd (make_call target mth params qos z s)))"
proof -
  let ?i = "next_call_id (r_call_id (rt_client s))" and ?t = "r_next_ticket (rt_client s)"
  define cl where "cl = rt_client (snd (make_call target mth params qos z s))"
  have c: "cl = snd (call_send ?i z
      ((rt_client s)\<lparr>r_call_id := ?i, r_calls := (r_calls (rt_client s))(?i \<mapsto> ?t), r_next_ticket := ?t + 1\<rparr>))"
    by (simp add: cl_def make_call_def call_begin_def Let_def prod.case_eq_if)
  have f: "r_next_ticket (snd (call_send j z cl)) = r_next_ticket cl"
    "r_calls (snd (call_send j z cl)) k = Some u \<Longrightarrow> r_calls cl k = Some u" for j k u and cl :: rpc_client
    by (auto simp: call_send_def cancel_call_def split: zc_outcome.splits option.splits confirm_outcome.splits sum.splits if_splits)
  have n: "r_next_ticket cl = ?t + 1" by (simp add: c f)
  have r: "u = ?t \<or> r_calls (rt_client s) k = Some u" if "r_calls cl k = Some u" for k u
    using that unfolding c by (drule_tac f(2)) (simp split: if_splits)
  have m: "r_results cl = r_results (rt_client s)" "r_calls (rt_client s) i = Some t \<Longrightarrow> r_calls cl i = Some t"
    unfolding cl_def by (rule make_call_client(1) [OF free], rule make_call_client(2) [OF free])
  show "waits_for i t (rt_client (snd (make_call target mth params qos z s)))" if "waits_for i t (rt_client s)"
  proof -
    have "j = i" if "r_calls cl j = Some t" for j
      using r [OF that] \<open>waits_for i t (rt_client s)\<close> by (auto simp: waits_for_def)
    moreover have "t < r_next_ticket cl" "r_calls cl i = Some t" using that m(2) n by (simp_all add: waits_for_def)
    ultimately show ?thesis unfolding cl_def [symmetric] waits_for_def by blast
  qed
  show "replied f t (rt_client (snd (make_call target mth params qos z s)))" if "replied f t (rt_client s)"
  proof -
    have "t \<notin> ran (r_calls cl)"
    proof
      assume "t \<in> ran (r_calls cl)"
      then obtain k where "r_calls cl k = Some t" by (auto simp: ran_def)
      from r [OF this] that show False by (auto simp: replied_def ran_def)
    qed
    then show ?thesis using that unfolding cl_def [symmetric] replied_def m(1) n by auto
  qed
qed

lemma reply_within_calls:
  assumes w: "reply_within i t f n s" and free: "new_id_free s"
  shows "reply_within i t f n (snd (make_call target mth params qos z s))"
  using w make_call_waits [OF free] by (auto simp: reply_within_def make_call_fields)

lemma reply_within_set_task: "reply_within i t f n (set_task j st s) \<longleftrightarrow> reply_within i t f n s"
  by (simp add: reply_within_def)

lemma reply_within_step:
  assumes w: "reply_within i t f n s" and ev: "ev \<noteq> ProcessorTurn" "ev \<noteq> ProcessorAborted"
    and rd: "\<And>f. ev = FrameQueued f \<Longrightarrow> readable f" and ids: "ids_free [ev] s"
  shows "reply_within i t f n (task_step ev s)"
proof (cases ev)
  case (FrameQueued f)
  with w rd show ?thesis by (fastforce simp: reply_within_def)
next
  case (TaskCalls j target mth params qos z)
  obtain st s' where m: "make_call target mth params qos z s = (st, s')" by force
  with TaskCalls w ids reply_within_calls [OF w, of target mth params qos z] show ?thesis
    by (simp add: task_calls_def reply_within_set_task)
next
  case (TaskEnds j res)
  have "reply_within i t f n ((set_task j Through s)\<lparr>rt_sent := x, rt_processor := Receiving\<rparr>)" for x
    using w by (simp add: reply_within_def)
  moreover have "rt_processor s = Receiving" using w by (simp add: reply_within_def)
  ultimately show ?thesis using TaskEnds w by (simp add: task_ends_def)
qed (use w ids ev reply_within_calls [OF w] in
  \<open>auto simp: reply_within_def slot_turn_def spawn_error_def task_resumes_def split: task_state.splits\<close>)

lemma reply_within_run:
  assumes "reply_within i t f (count_list evs ProcessorTurn) s" and "ProcessorAborted \<notin> set evs"
    and "\<forall>f. FrameQueued f \<in> set evs \<longrightarrow> readable f" and "ids_free evs s"
  shows "replied f t (rt_client (fold task_step evs s))"
  using assms
proof (induction evs arbitrary: s)
  case Nil
  then show ?case by (auto simp: reply_within_def)
next
  case (Cons ev evs)
  show ?case
  proof (cases "ev = ProcessorTurn")
    case True
    with Cons show ?thesis using reply_within_turn [of i t f "count_list evs ProcessorTurn" s] by simp
  next
    case False
    then have "reply_within i t f (count_list evs ProcessorTurn) (task_step ev s)"
      using Cons.prems by (intro reply_within_step) auto
    with Cons show ?thesis by simp
  qed
qed

lemma resume_answered:
  assumes "task_is h (AwaitingReply t) s" and "call_wait t (rt_client s) \<noteq> Pending"
  shows "task_is h Working (task_resumes h s)"
  using assms by (auto simp: task_is_def task_resumes_def set_task_def)

section \<open>A processor that waits for its own handlers\<close>

text \<open>A handler that waits for a reply nobody has read, or for a send that does not end.\<close>

definition unanswered :: "rpc_client \<Rightarrow> task_state \<Rightarrow> bool" where
  "unanswered cl st \<longleftrightarrow>
     (case st of AwaitingReply t \<Rightarrow> r_results cl t = None \<and> (\<exists>i. r_calls cl i = Some t) | Hanging \<Rightarrow> True | _ \<Rightarrow> False)"

text \<open>
  The processor runs such a handler in place, or waits for a slot of a pool whose tasks are all such
  handlers.
\<close>

definition pool_blocked :: "rpc_tasks \<Rightarrow> bool" where
  "pool_blocked s \<longleftrightarrow>
     (\<exists>pool. ro_task_pool (rt_opts s) = Some pool \<and> \<not> pool (pool_load s)) \<and>
     (\<forall>h \<in> set (rt_tasks s). ht_spawned h \<longrightarrow> ht_state h = Through \<or> unanswered (rt_client s) (ht_state h))"

definition self_blocked :: "rpc_tasks \<Rightarrow> bool" where
  "self_blocked s \<longleftrightarrow>
     (case rt_processor s of
        InPlace i \<Rightarrow> i < length (rt_tasks s) \<and> unanswered (rt_client s) (ht_state (rt_tasks s ! i))
      | AwaitingSlot a \<Rightarrow> pool_blocked s
      | _ \<Rightarrow> False)"

fun queued_by :: "task_event \<Rightarrow> frame list" where
  "queued_by (FrameQueued f) = [f]"
| "queued_by _ = []"

lemma unanswered_call:
  assumes "new_id_free s" and "unanswered (rt_client s) st"
  shows "unanswered (rt_client (snd (make_call target mth params qos z s))) st"
  using assms(2) make_call_client(1) [OF assms(1)] make_call_client(2) [OF assms(1)]
  by (cases st) (simp_all add: unanswered_def, blast)

text \<open>Only a handler that works or has got its reply changes its state.\<close>

lemma set_task_blocked:
  assumes b: "self_blocked s" and i: "i < length (rt_tasks s)"
    and w: "ht_state (rt_tasks s ! i) \<noteq> Through" "\<not> unanswered (rt_client s) (ht_state (rt_tasks s ! i))" and t: "rt_tasks s' = rt_tasks s"
    and o: "rt_opts s' = rt_opts s" "rt_processor s' = rt_processor s"
    and u: "\<And>st. unanswered (rt_client s) st \<Longrightarrow> unanswered (rt_client s') st"
  shows "self_blocked (set_task i st s') \<and> rt_processor s \<noteq> InPlace i"
proof (cases "rt_processor s")
  case (InPlace j)
  then have "j \<noteq> i" using b w by (auto simp: self_blocked_def)
  with InPlace b u show ?thesis by (simp add: self_blocked_def o t set_task_def)
next
  case (AwaitingSlot a)
  then have p: "pool_blocked s" using b by (simp add: self_blocked_def)
  have ns: "\<not> ht_spawned (rt_tasks s ! i)"
    using p w nth_mem [OF i] by (auto simp: pool_blocked_def)
  let ?t = "(rt_tasks s)[i := (rt_tasks s ! i)\<lparr>ht_state := st\<rparr>]"
  have "map (\<lambda>h. ht_spawned h \<and> ht_state h \<noteq> Through) ?t = map (\<lambda>h. ht_spawned h \<and> ht_state h \<noteq> Through) (rt_tasks s)"
    by (rule nth_equalityI) (use ns i in \<open>auto simp: nth_list_update\<close>)
  from length_filter_by_map [OF this] have l: "pool_load (set_task i st s') = pool_load s"
    by (simp add: pool_load_def set_task_def t)
  have "ht_spawned h \<longrightarrow> ht_state h = Through \<or> unanswered (rt_client s') (ht_state h)" if "h \<in> set ?t" for h
  proof -
    have "h \<in> set (rt_tasks s) \<or> h = (rt_tasks s ! i)\<lparr>ht_state := st\<rparr>"
      using that set_update_subset_insert by fast
    with p ns u show ?thesis by (auto simp: pool_blocked_def)
  qed
  with p l have "pool_blocked (set_task i st s')" by (simp add: pool_blocked_def o) (simp add: set_task_def t)
  with AwaitingSlot show ?thesis by (simp add: self_blocked_def o)
qed (use b in \<open>simp_all add: self_blocked_def\<close>)

lemma task_isD:
  assumes "task_is i Working s"
  shows "i < length (rt_tasks s)" "ht_state (rt_tasks s ! i) \<noteq> Through"
    "\<not> unanswered cl (ht_state (rt_tasks s ! i))"
  using assms by (simp_all add: task_is_def unanswered_def)

lemma self_blocked_step:
  assumes b: "self_blocked s" and ev: "ev \<noteq> SpawnFailed" "ev \<noteq> ProcessorAborted" and ids: "ids_free [ev] s"
  shows "self_blocked (task_step ev s) \<and> rt_processor (task_step ev s) = rt_processor s \<and>
    rt_inbox (task_step ev s) = rt_inbox s @ queued_by ev"
proof (cases ev)
  case (FrameQueued f)
  with b show ?thesis by (simp add: self_blocked_def pool_blocked_def pool_load_def split: processor_state.splits)
next
  case ProcessorTurn
  then have "processor_turn s = s" using b by (auto simp: processor_turn_def self_blocked_def split: processor_state.splits)
  with ProcessorTurn b show ?thesis by simp
next
  case SlotFreed
  have "slot_turn s = s"
  proof (cases "rt_processor s")
    case (AwaitingSlot a)
    with b show ?thesis
      by (auto simp: slot_turn_def spawn_handler_def self_blocked_def pool_blocked_def pool_load_def)
  qed (simp_all add: slot_turn_def)
  with SlotFreed b show ?thesis by simp
next
  case (TaskCalls i target mth params qos z)
  obtain st s' where m: "make_call target mth params qos z s = (st, s')" by force
  have n: "new_id_free s" using ids TaskCalls by simp
  show ?thesis
  proof (cases "task_is i Working s")
    case True
    have "self_blocked (set_task i st s')"
      by (rule conjunct1 [OF set_task_blocked [OF b task_isD [OF True]]])
        (use make_call_fields [of target mth params qos z s] unanswered_call [OF n, of _ target mth params qos z] m in simp_all)
    with TaskCalls True m make_call_fields [of target mth params qos z s] show ?thesis
      by (simp add: task_calls_def)
  next
    case False
    with TaskCalls b show ?thesis by (simp add: task_calls_def)
  qed
next
  case (OtherCalls target mth params qos z)
  have n: "new_id_free s" using ids OtherCalls by simp
  have "self_blocked (snd (make_call target mth params qos z s))"
    using b unanswered_call [OF n]
    by (auto simp: self_blocked_def pool_blocked_def pool_load_def make_call_fields split: processor_state.splits)
  with OtherCalls show ?thesis by (simp add: make_call_fields)
next
  case (TaskResumes i)
  show ?thesis
  proof (cases "task_resumes i s = s")
    case False
    then obtain t where i: "i < length (rt_tasks s)" "ht_state (rt_tasks s ! i) = AwaitingReply t"
        "call_wait t (rt_client s) \<noteq> Pending" "task_resumes i s = set_task i Working s"
      by (auto simp: task_resumes_def split: if_splits task_state.splits)
    then have "\<not> unanswered (rt_client s) (ht_state (rt_tasks s ! i))"
      by (auto simp: unanswered_def call_wait_def ran_def split: if_splits)
    with set_task_blocked [OF b i(1) _ _ refl refl refl, of Working] i TaskResumes show ?thesis by simp
  qed (use TaskResumes b in simp)
next
  case (TaskEnds i res)
  show ?thesis
  proof (cases "task_is i Working s")
    case True
    note k = set_task_blocked [OF b task_isD [OF True] refl refl refl, of Through]
    then have "self_blocked (set_task i Through s)" "rt_processor s \<noteq> InPlace i" by simp_all
    with TaskEnds True show ?thesis
      by (simp add: task_ends_def self_blocked_def pool_blocked_def pool_load_def split: processor_state.splits)
  next
    case False
    with TaskEnds b show ?thesis by (simp add: task_ends_def)
  qed
qed (use ev in simp_all)

lemma self_blocked_run:
  assumes "self_blocked s" and "SpawnFailed \<notin> set evs" and "ProcessorAborted \<notin> set evs" and "ids_free evs s"
  shows "self_blocked (fold task_step evs s) \<and> rt_processor (fold task_step evs s) = rt_processor s \<and>
    rt_inbox (fold task_step evs s) = rt_inbox s @ concat (map queued_by evs)"
  using assms
proof (induction evs arbitrary: s)
  case (Cons ev evs)
  then have "self_blocked (task_step ev s) \<and> rt_processor (task_step ev s) = rt_processor s \<and>
      rt_inbox (task_step ev s) = rt_inbox s @ queued_by ev"
    by (intro self_blocked_step) auto
  with Cons show ?case by simp
qed simp

section \<open>Concrete runs\<close>

text \<open>A notification starts a handler, which calls \<open>b\<close>; then another one comes, and the reply of \<open>b\<close>.\<close>

definition note_frame :: frame where
  "note_frame = frame_new KMessage (Some ''b'') None (Some [RPC_NOTIFICATION]) [1] 0 False"

definition reply_to_1 :: frame where
  "reply_to_1 = frame_new KMessage (Some ''b'') None (Some (reply_header 1)) [7] 0 False"

definition calling_run :: "pool_options \<Rightarrow> rpc_tasks" where
  "calling_run opts = fold task_step
     [FrameQueued note_frame, ProcessorTurn, TaskCalls 0 ''b'' ''m'' (Borrowed []) QosNo (ZcOk None),
      FrameQueued note_frame, FrameQueued reply_to_1] (rpc_tasks_new None opts)"

definition plain_options :: pool_options where
  "plain_options = rpc_options.extend rpc_options_default \<lparr>ro_task_pool = None\<rparr>"

definition pool_of_one :: pool_options where
  "pool_of_one = with_task_pool (\<lambda>n. n < 1) plain_options"

definition note_event :: rpc_event where
  "note_event = \<lparr>re_kind = RpcNotification, re_frame = note_frame, re_payload_pos = 0, re_use_header = False\<rparr>"

lemma note_step: "processor_step opts note_frame cl =
    Some (act_on (HandleNotification (ro_blocking_notifications opts) note_event) cl)"
  by (simp add: processor_step_def rpc_try_from_def note_frame_def note_event_def frame_new_def)

lemmas run_simps = calling_run_def rpc_tasks_new_def rpc_client_new_def processor_turn_def note_step act_on_def run_action_def
  spawn_handler_def start_task_def pool_load_def task_calls_def task_is_def make_call_def call_begin_def call_send_def
  next_call_id_def set_task_def plain_options_def pool_of_one_def with_task_pool_def rpc_options_default_def
  rpc_options.extend_def rpc_options.truncate_def

lemma calling_run_plain:
  "rt_processor (calling_run plain_options) = Receiving" "rt_inbox (calling_run plain_options) = [note_frame, reply_to_1]"
  "r_calls (rt_client (calling_run plain_options)) 1 = Some 0" "task_is 0 (AwaitingReply 0) (calling_run plain_options)"
  "waits_for 1 0 (rt_client (calling_run plain_options))"
  by (simp_all add: run_simps waits_for_def)

lemma calling_run_pool:
  "rt_processor (task_step ProcessorTurn (calling_run pool_of_one)) = AwaitingSlot (HandleNotification False note_event)"
  "rt_inbox (task_step ProcessorTurn (calling_run pool_of_one)) = [reply_to_1]"
  "self_blocked (task_step ProcessorTurn (calling_run pool_of_one))"
  by (simp_all add: run_simps self_blocked_def pool_blocked_def unanswered_def)

end
