(* ===== verification/Bus_SyncRpc.thy ===== *)
theory Bus_SyncRpc
  imports Bus_RpcLife
begin

text \<open>
  The blocking RPC client, \<open>src/src/sync/rpc.rs\<close>: the operations it shares in text with the asynchronous one and
  that they agree, and its threads.  A call locks the mutex around the bus client, sends, and holds the lock
  until its reply is there; the threads that answer requests need the same lock.  What this means for two
  clients that call each other is shown at the end.
\<close>

section \<open>Operations\<close>

definition sync_dummy_handle_call :: "rpc_event \<Rightarrow> rpc_result" where
  "sync_dummy_handle_call event =
     Inl (rpc_error_new RPC_ERROR_CODE_METHOD_NOT_FOUND (Some (as_bytes ''RPC handler is not implemented'')))"

definition sync_default_handle_call :: "rpc_event \<Rightarrow> rpc_result" where
  "sync_default_handle_call event = Inl (rpc_error_method None)"

definition sync_rpc_notify :: "string \<Rightarrow> cow \<Rightarrow> QoS \<Rightarrow> zc_args" where
  "sync_rpc_notify target data qos =
     \<lparr>z_target = target, z_header = [RPC_NOTIFICATION], z_payload = cow_slice data, z_qos = qos\<rparr>"

definition sync_rpc_call0 :: "string \<Rightarrow> string \<Rightarrow> cow \<Rightarrow> QoS \<Rightarrow> zc_args" where
  "sync_rpc_call0 target method params qos =
     (let payload = prepare_call_payload method [0, 0, 0, 0]
      in \<lparr>z_target = target, z_header = payload, z_payload = cow_slice params, z_qos = qos\<rparr>)"

text \<open>\<open>call\<close> up to the lock.\<close>

definition sync_call_begin ::
  "string \<Rightarrow> string \<Rightarrow> cow \<Rightarrow> QoS \<Rightarrow> rpc_client \<Rightarrow> (u32 \<times> ticket \<times> zc_args) \<times> rpc_client" where
  "sync_call_begin target method params qos cl =
     (let call_id = (if r_call_id cl = - 1 then 1 else r_call_id cl + 1);
          payload = prepare_call_payload method (le32 call_id);
          rx = r_next_ticket cl
      in ((call_id, rx, \<lparr>z_target = target, z_header = payload, z_payload = cow_slice params, z_qos = qos\<rparr>),
          cl\<lparr>r_call_id := call_id, r_next_ticket := rx + 1, r_calls := (r_calls cl)(call_id \<mapsto> rx)\<rparr>))"

text \<open>The thread of a request.\<close>

definition sync_handle_request ::
  "(rpc_event \<Rightarrow> rpc_result) \<Rightarrow> rpc_event \<Rightarrow> (u32 \<times> string) option \<Rightarrow> zc_args option" where
  "sync_handle_request handle_call event ev =
     (let qos = (if f_realtime (re_frame event) then RealtimeProcessed else Processed);
          res = handle_call event;
          send_reply = (\<lambda>target payload result.
            Some \<lparr>z_target = target, z_header = payload,
                  z_payload = (case result of Some r \<Rightarrow> r | None \<Rightarrow> []), z_qos = qos\<rparr>)
      in case ev of
           Some (i, target) \<Rightarrow>
             (case res of
                Inr v \<Rightarrow> send_reply target ([RPC_REPLY] @ le32 i) v
              | Inl e \<Rightarrow> send_reply target ([RPC_ERROR] @ le32 i @ le16 (rx_code e)) (rx_data e))
         | None \<Rightarrow> None)"

definition sync_rpc_is_connected :: "rpc_life \<Rightarrow> bool" where
  "sync_rpc_is_connected l = (case rl_beacon l of Some b \<Rightarrow> b | None \<Rightarrow> True)"

text \<open>They do what the operations of the asynchronous client do.\<close>

lemma sync_rpc_operations:
  "sync_dummy_handle_call = dummy_handle_call" "sync_default_handle_call = default_handle_call"
  "sync_rpc_notify = rpc_notify" "sync_rpc_call0 = rpc_call0" "sync_call_begin = call_begin"
  "sync_handle_request = handle_request" "sync_rpc_is_connected = rpc_is_connected"
  by (auto simp: fun_eq_iff sync_dummy_handle_call_def dummy_handle_call_def sync_default_handle_call_def
      default_handle_call_def sync_rpc_notify_def rpc_notify_def sync_rpc_call0_def rpc_call0_def sync_call_begin_def
      call_begin_def next_call_id_def sync_handle_request_def handle_request_def sync_rpc_is_connected_def
      rpc_is_connected_def Let_def split: option.splits sum.splits)

section \<open>Threads\<close>

text \<open>
  The mutex around the bus client: free, or held by the call that waits for a ticket.  The other holders send
  and release it at once.  \<open>sp_calls\<close> are the calls that have registered their id and wait for the lock,
  \<open>sp_replied\<close> the requests whose threads have finished, by their position among the actions of the processor,
  and \<open>sp_sent\<close> is what was handed to \<open>zc_send\<close>.
\<close>

datatype client_lock = Free | HeldBy u32 ticket

record sync_peer =
  sp_name :: string
  sp_client :: rpc_client
  sp_lock :: client_lock
  sp_calls :: "(u32 \<times> ticket \<times> zc_args) list"
  sp_replied :: "nat set"
  sp_sent :: "zc_args list"
  sp_returned :: "(rpc_error + rpc_event) list"

definition sync_peer_new :: "string \<Rightarrow> duration option \<Rightarrow> sync_peer" where
  "sync_peer_new name timeout = \<lparr>sp_name = name, sp_client = rpc_client_new timeout, sp_lock = Free, sp_calls = [],
     sp_replied = {}, sp_sent = [], sp_returned = []\<rparr>"

text \<open>How the wait of a call can end by itself, without its timeout.\<close>

definition reply_of :: "ticket \<Rightarrow> rpc_client \<Rightarrow> reply_outcome option" where
  "reply_of rx cl =
     (case r_results cl rx of
        Some event \<Rightarrow> Some (Replied event)
      | None \<Rightarrow> if rx \<in> ran (r_calls cl) then None else Some ReplyDropped)"

definition returned_value :: "(rpc_error, rpc_event) eff \<Rightarrow> (rpc_error + rpc_event) list" where
  "returned_value r = (case r of Done v \<Rightarrow> [Inr v] | Bail e \<Rightarrow> [Inl e] | Pending \<Rightarrow> [])"

definition call_returns :: "u32 \<Rightarrow> reply_outcome \<Rightarrow> sync_peer \<Rightarrow> sync_peer" where
  "call_returns i r p =
     (case sync_call_wait i r (sp_client p) of
        (v, cl) \<Rightarrow> p\<lparr>sp_client := cl, sp_lock := Free, sp_returned := sp_returned p @ returned_value v\<rparr>)"

text \<open>A frame in the event channel: \<open>Processor::run\<close> needs no lock.\<close>

definition peer_receives :: "frame \<Rightarrow> sync_peer \<Rightarrow> sync_peer option" where
  "peer_receives f p = map_option (\<lambda>cl. p\<lparr>sp_client := cl\<rparr>) (sync_processor_step f (sp_client p))"

text \<open>
  The steps of a client other than frames and timeouts: a call registers itself, gets the lock and sends,
  successfully or not, and returns with its reply; a thread answers its request; another thread sends a
  notification or a call without reply.
\<close>

inductive peer_step :: "(rpc_event \<Rightarrow> rpc_result) \<Rightarrow> sync_peer \<Rightarrow> sync_peer \<Rightarrow> bool" for h where
  call_starts: "sync_call_begin target m params qos (sp_client p) = ((i, rx, z), cl) \<Longrightarrow>
    peer_step h p (p\<lparr>sp_client := cl, sp_calls := sp_calls p @ [(i, rx, z)]\<rparr>)"
| call_sends: "sp_lock p = Free \<Longrightarrow> (i, rx, z) \<in> set (sp_calls p) \<Longrightarrow>
    peer_step h p (p\<lparr>sp_lock := HeldBy i rx, sp_calls := remove1 (i, rx, z) (sp_calls p), sp_sent := sp_sent p @ [z]\<rparr>)"
| call_fails: "sp_lock p = Free \<Longrightarrow> (i, rx, z) \<in> set (sp_calls p) \<Longrightarrow>
    sync_call_send i (ZcErr e) (sp_client p) = (Bail x, cl) \<Longrightarrow>
    peer_step h p (p\<lparr>sp_client := cl, sp_calls := remove1 (i, rx, z) (sp_calls p), sp_returned := sp_returned p @ [Inl x]\<rparr>)"
| call_ends: "sp_lock p = HeldBy i rx \<Longrightarrow> reply_of rx (sp_client p) = Some r \<Longrightarrow> peer_step h p (call_returns i r p)"
| replies: "sp_lock p = Free \<Longrightarrow> k < length (r_actions (sp_client p)) \<Longrightarrow> k \<notin> sp_replied p \<Longrightarrow>
    r_actions (sp_client p) ! k = HandleRequest event ev \<Longrightarrow> sync_handle_request h event ev = Some z \<Longrightarrow>
    peer_step h p (p\<lparr>sp_replied := insert k (sp_replied p), sp_sent := sp_sent p @ [z]\<rparr>)"
| sends: "sp_lock p = Free \<Longrightarrow> z = sync_rpc_notify target data qos \<or> z = sync_rpc_call0 target m data qos \<Longrightarrow>
    peer_step h p (p\<lparr>sp_sent := sp_sent p @ [z]\<rparr>)"

inductive peer_timeout :: "sync_peer \<Rightarrow> sync_peer \<Rightarrow> bool" where
  times_out: "sp_lock p = HeldBy i rx \<Longrightarrow> reply_of rx (sp_client p) = None \<Longrightarrow> r_timeout (sp_client p) = Some d \<Longrightarrow>
    peer_timeout p (call_returns i ReplyElapsed p)"

inductive_cases peer_stepE: "peer_step h p p'"

text \<open>A call of the client holds the lock, has no reply yet, and none is among the frames on their way.\<close>

definition stuck :: "sync_peer \<Rightarrow> frame list \<Rightarrow> bool" where
  "stuck p fs \<longleftrightarrow> (\<exists>i rx. sp_lock p = HeldBy i rx \<and> r_calls (sp_client p) i = Some rx \<and>
     r_results (sp_client p) rx = None \<and> (\<forall>j t. r_calls (sp_client p) j = Some t \<longrightarrow> t < r_next_ticket (sp_client p)) \<and>
     inj_on (r_calls (sp_client p)) (dom (r_calls (sp_client p))) \<and> (\<forall>f \<in> set fs. \<not> answers i f))"

lemma stuckE:
  assumes "stuck p fs"
  obtains i rx where "sp_lock p = HeldBy i rx" "r_calls (sp_client p) i = Some rx" "r_results (sp_client p) rx = None"
    "\<forall>j t. r_calls (sp_client p) j = Some t \<longrightarrow> t < r_next_ticket (sp_client p)"
    "inj_on (r_calls (sp_client p)) (dom (r_calls (sp_client p)))" "\<forall>f \<in> set fs. \<not> answers i f"
  using assms by (auto simp: stuck_def)

lemma stuck_waits: "stuck p fs \<Longrightarrow> sp_lock p = HeldBy i rx \<Longrightarrow> reply_of rx (sp_client p) = None"
  by (auto simp: stuck_def reply_of_def ran_def)

text \<open>The step does not issue the id of the waiting call again, which takes as many calls as there are ids.\<close>

definition spares_id :: "sync_peer \<Rightarrow> sync_peer \<Rightarrow> bool" where
  "spares_id p p' \<longleftrightarrow> (case sp_lock p of
     HeldBy i rx \<Rightarrow> r_call_id (sp_client p') = r_call_id (sp_client p) \<or> r_call_id (sp_client p') \<noteq> i
   | Free \<Rightarrow> True)"

text \<open>Nothing the client can do by itself sends a frame or ends the call.\<close>

lemma stuck_step:
  assumes "stuck p fs" and "peer_step h p p'" and "spares_id p p'"
  shows "stuck p' fs \<and> sp_sent p' = sp_sent p \<and> sp_returned p' = sp_returned p \<and> sp_lock p' = sp_lock p"
  using assms(2)
proof (cases rule: peer_step.cases)
  case (call_starts target m params qos i rx z cl)
  obtain j t where s: "sp_lock p = HeldBy j t" "r_calls (sp_client p) j = Some t" "r_results (sp_client p) t = None"
      "\<forall>j t. r_calls (sp_client p) j = Some t \<longrightarrow> t < r_next_ticket (sp_client p)"
      "inj_on (r_calls (sp_client p)) (dom (r_calls (sp_client p)))" "\<forall>f \<in> set fs. \<not> answers j f"
    using assms(1) by (rule stuckE)
  have cl: "cl = (sp_client p)\<lparr>r_call_id := i, r_next_ticket := rx + 1, r_calls := (r_calls (sp_client p))(i \<mapsto> rx)\<rparr>"
      "rx = r_next_ticket (sp_client p)"
    using call_starts(2) by (auto simp: sync_call_begin_def Let_def)
  have "i = next_call_id (r_call_id (sp_client p))"
    using call_starts(2) by (auto simp: sync_call_begin_def next_call_id_def Let_def)
  then have "i \<noteq> r_call_id (sp_client p)" by (simp add: next_call_id_def)
  then have "i \<noteq> j" using assms(3) call_starts(1) cl(1) s(1) by (auto simp: spares_id_def)
  have "inj_on (r_calls cl) (dom (r_calls cl))"
    using s(4,5) cl by (fastforce simp: inj_on_def dom_def)
  moreover have "\<forall>j t. r_calls cl j = Some t \<longrightarrow> t < r_next_ticket cl"
    using s(4) cl by (auto simp: less_Suc_eq split: if_splits)
  ultimately show ?thesis using call_starts(1) s \<open>i \<noteq> j\<close> cl by (auto simp: stuck_def)
qed (use assms(1) stuck_waits [OF assms(1)] in \<open>auto simp: stuck_def\<close>)

lemma stuck_receives:
  assumes "stuck p (f # fs)" and "peer_receives f p = Some p'"
  shows "stuck p' fs \<and> sp_sent p' = sp_sent p \<and> sp_returned p' = sp_returned p \<and> sp_lock p' = sp_lock p"
proof -
  obtain cl where cl: "sync_processor_step f (sp_client p) = Some cl" "p' = p\<lparr>sp_client := cl\<rparr>"
    using assms(2) by (auto simp: peer_receives_def)
  obtain i rx where s: "sp_lock p = HeldBy i rx" "r_calls (sp_client p) i = Some rx" "r_results (sp_client p) rx = None"
      "\<forall>j t. r_calls (sp_client p) j = Some t \<longrightarrow> t < r_next_ticket (sp_client p)"
      "inj_on (r_calls (sp_client p)) (dom (r_calls (sp_client p)))" "\<forall>g \<in> set (f # fs). \<not> answers i g"
    using assms(1) by (rule stuckE)
  show ?thesis
  proof (cases "\<exists>j event. cl = resolve_call j event (sp_client p) \<and> j \<noteq> i")
    case True
    then obtain j event where j: "cl = resolve_call j event (sp_client p)" "j \<noteq> i" by blast
    have "t \<noteq> rx" if "r_calls (sp_client p) j = Some t" for t
      using s(2,5) j(2) that by (auto simp: inj_on_def dom_def)
    with j s cl(2) show ?thesis
      by (auto simp: stuck_def resolve_call_def inj_on_def dom_def split: option.splits)
  next
    case False
    with cl(1) s(6) have "cl = sp_client p \<or> (\<exists>as. cl = (sp_client p)\<lparr>r_actions := as\<rparr>)"
      by (auto simp: sync_processor_step_def answers_def act_on_def split: if_splits option.splits sum.splits rpc_event_kind.splits)
    with s cl(2) show ?thesis by (auto simp: stuck_def)
  qed
qed

section \<open>Two clients\<close>

text \<open>
  Two clients on one bus, and the frames on their way between them.  The other clients of the bus may send
  frames to both, other than a reply to a call that waits, which was not made to them.
\<close>

definition answers_call :: "sync_peer \<Rightarrow> frame \<Rightarrow> bool" where
  "answers_call p f \<longleftrightarrow> (case sp_lock p of HeldBy i rx \<Rightarrow> answers i f | Free \<Rightarrow> False)"

record duo =
  du_a :: sync_peer
  du_b :: sync_peer
  du_to_a :: "frame list"
  du_to_b :: "frame list"

definition duo_start :: "sync_peer \<Rightarrow> sync_peer \<Rightarrow> duo" where
  "duo_start a b = \<lparr>du_a = a, du_b = b, du_to_a = [], du_to_b = []\<rparr>"

text \<open>The frames of what \<open>p\<close> handed over on the way to \<open>p'\<close> for the client called \<open>name\<close>.\<close>

definition newly_sent :: "sync_peer \<Rightarrow> sync_peer \<Rightarrow> string \<Rightarrow> frame list" where
  "newly_sent p p' name =
     map (zc_frame (sp_name p)) (filter (\<lambda>z. z_target z = name) (drop (length (sp_sent p)) (sp_sent p')))"

inductive duo_step :: "(rpc_event \<Rightarrow> rpc_result) \<Rightarrow> (rpc_event \<Rightarrow> rpc_result) \<Rightarrow> duo \<Rightarrow> duo \<Rightarrow> bool" for ha hb where
  step_a: "peer_step ha (du_a d) a' \<Longrightarrow> spares_id (du_a d) a' \<Longrightarrow>
    duo_step ha hb d (d\<lparr>du_a := a', du_to_b := du_to_b d @ newly_sent (du_a d) a' (sp_name (du_b d))\<rparr>)"
| step_b: "peer_step hb (du_b d) b' \<Longrightarrow> spares_id (du_b d) b' \<Longrightarrow>
    duo_step ha hb d (d\<lparr>du_b := b', du_to_a := du_to_a d @ newly_sent (du_b d) b' (sp_name (du_a d))\<rparr>)"
| arrives_a: "du_to_a d = f # fs \<Longrightarrow> peer_receives f (du_a d) = Some a' \<Longrightarrow>
    duo_step ha hb d (d\<lparr>du_a := a', du_to_a := fs\<rparr>)"
| arrives_b: "du_to_b d = f # fs \<Longrightarrow> peer_receives f (du_b d) = Some b' \<Longrightarrow>
    duo_step ha hb d (d\<lparr>du_b := b', du_to_b := fs\<rparr>)"
| other_a: "peer_receives f (du_a d) = Some a' \<Longrightarrow> \<not> answers_call (du_a d) f \<Longrightarrow>
    duo_step ha hb d (d\<lparr>du_a := a'\<rparr>)"
| other_b: "peer_receives f (du_b d) = Some b' \<Longrightarrow> \<not> answers_call (du_b d) f \<Longrightarrow>
    duo_step ha hb d (d\<lparr>du_b := b'\<rparr>)"

inductive duo_run :: "(rpc_event \<Rightarrow> rpc_result) \<Rightarrow> (rpc_event \<Rightarrow> rpc_result) \<Rightarrow> duo \<Rightarrow> duo \<Rightarrow> bool" for ha hb where
  run_refl: "duo_run ha hb d d"
| run_step: "duo_run ha hb d d' \<Longrightarrow> duo_step ha hb d' d'' \<Longrightarrow> duo_run ha hb d d''"

text \<open>Both hold their locks, and no answer is on its way.\<close>

definition crossed :: "duo \<Rightarrow> bool" where
  "crossed d \<longleftrightarrow> stuck (du_a d) (du_to_a d) \<and> stuck (du_b d) (du_to_b d)"

definition unchanged :: "sync_peer \<Rightarrow> sync_peer \<Rightarrow> bool" where
  "unchanged p p' \<longleftrightarrow> sp_sent p' = sp_sent p \<and> sp_returned p' = sp_returned p \<and> sp_lock p' = sp_lock p"

lemma stuck_mono: "stuck p fs \<Longrightarrow> \<not> answers_call p f \<Longrightarrow> stuck p (f # fs)"
  by (auto simp: stuck_def answers_call_def)

lemma newly_sent_unchanged: "sp_sent p' = sp_sent p \<Longrightarrow> newly_sent p p' name = []"
  by (simp add: newly_sent_def)

lemma crossed_step:
  assumes "crossed d" and "duo_step ha hb d d'"
  shows "crossed d' \<and> unchanged (du_a d) (du_a d') \<and> unchanged (du_b d) (du_b d')"
  using assms(2)
proof (cases rule: duo_step.cases)
  case (step_a a')
  then show ?thesis
    using stuck_step [of "du_a d" "du_to_a d" ha a'] assms(1) by (auto simp: crossed_def unchanged_def newly_sent_unchanged)
next
  case (step_b b')
  then show ?thesis
    using stuck_step [of "du_b d" "du_to_b d" hb b'] assms(1) by (auto simp: crossed_def unchanged_def newly_sent_unchanged)
next
  case (arrives_a f fs a')
  then show ?thesis using stuck_receives [of "du_a d" f fs a'] assms(1) by (auto simp: crossed_def unchanged_def)
next
  case (arrives_b f fs b')
  then show ?thesis using stuck_receives [of "du_b d" f fs b'] assms(1) by (auto simp: crossed_def unchanged_def)
next
  case (other_a f a')
  then show ?thesis
    using stuck_receives [of "du_a d" f "du_to_a d" a'] stuck_mono assms(1) by (auto simp: crossed_def unchanged_def)
next
  case (other_b f b')
  then show ?thesis
    using stuck_receives [of "du_b d" f "du_to_b d" b'] stuck_mono assms(1) by (auto simp: crossed_def unchanged_def)
qed

lemma crossed_run:
  assumes "duo_run ha hb d d'" and "crossed d"
  shows "crossed d' \<and> unchanged (du_a d) (du_a d') \<and> unchanged (du_b d) (du_b d')"
  using assms
proof (induction rule: duo_run.induct)
  case (run_step d d' d'')
  then show ?case using crossed_step [OF _ run_step.hyps(2)] by (auto simp: unchanged_def)
qed (simp add: unchanged_def)

text \<open>A client whose call is stuck gives up only by its timeout.\<close>

lemma stuck_timeout:
  assumes "stuck p fs" and "peer_timeout p p'"
  shows "sp_lock p' = Free \<and> sp_returned p' = sp_returned p @ [Inl (rpc_error_from err_timeout)]"
  using assms(2,1)
  by (auto simp: peer_timeout.simps call_returns_def sync_call_wait_def returned_value_def)

section \<open>Calls that cross\<close>

text \<open>The first call of a client, up to its wait for the reply.\<close>

lemma first_call:
  "\<exists>p1 p2 z. peer_step h (sync_peer_new n timeout) p1 \<and> peer_step h p1 p2 \<and> sp_lock p1 = Free \<and> sp_sent p1 = [] \<and>
     sp_sent p2 = [z] \<and> z_target z = target \<and> z_header z = prepare_call_payload m (le32 1) \<and>
     z_payload z = cow_slice params \<and> stuck p2 [] \<and> sp_returned p2 = [] \<and> r_actions (sp_client p2) = [] \<and>
     sp_name p1 = n \<and> sp_name p2 = n \<and> sp_replied p2 = {}"
proof -
  let ?p = "sync_peer_new n timeout"
  obtain i rx z cl where b: "sync_call_begin target m params qos (sp_client ?p) = ((i, rx, z), cl)" by (metis prod.exhaust)
  then have c: "i = 1" "rx = 0" "z_target z = target" "z_header z = prepare_call_payload m (le32 1)"
      "z_payload z = cow_slice params" "cl = (rpc_client_new timeout)\<lparr>r_call_id := 1, r_next_ticket := 1, r_calls := [1 \<mapsto> 0]\<rparr>"
    by (auto simp: sync_call_begin_def sync_peer_new_def rpc_client_new_def Let_def)
  let ?p1 = "?p\<lparr>sp_client := cl, sp_calls := sp_calls ?p @ [(i, rx, z)]\<rparr>"
  have "peer_step h ?p ?p1" using b by (rule call_starts)
  moreover have "peer_step h ?p1 (?p1\<lparr>sp_lock := HeldBy i rx, sp_calls := remove1 (i, rx, z) (sp_calls ?p1), sp_sent := sp_sent ?p1 @ [z]\<rparr>)"
    by (rule call_sends) (simp_all add: sync_peer_new_def)
  ultimately show ?thesis
    using c by (intro exI conjI) (assumption | simp add: sync_peer_new_def stuck_def rpc_client_new_def inj_on_def)+
qed

text \<open>The request of a call arrives and starts a thread, whoever holds the lock.\<close>

lemma request_arrives:
  assumes "nul_free m" and "z_header z = prepare_call_payload m (le32 1)"
  shows "\<exists>e p'. peer_receives (zc_frame n z) p = Some p' \<and>
    r_actions (sp_client p') = r_actions (sp_client p) @ [HandleRequest e (Some (1, n))] \<and>
    event_method e = Some (as_bytes m) \<and> event_payload e = Some (z_payload z)"
    and "\<not> answers i (zc_frame n z)"
proof -
  have d: "delivered_as n z (zc_frame n z)" by (simp add: delivered_as_def)
  show "\<exists>e p'. peer_receives (zc_frame n z) p = Some p' \<and>
    r_actions (sp_client p') = r_actions (sp_client p) @ [HandleRequest e (Some (1, n))] \<and>
    event_method e = Some (as_bytes m) \<and> event_payload e = Some (z_payload z)"
    using processor_step_request [OF d assms(2,1) one_neq_zero,
        of "\<lparr>ro_blocking_notifications = True, ro_blocking_frames = True\<rparr>" "sp_client p"]
    by (auto simp: peer_receives_def sync_processor_step_eq act_on_def)
  have "carries (prepare_call_payload m (le32 1)) (z_payload z) (zc_frame n z)"
    using delivered_carries [OF d] assms(2) by simp
  from parsesD [OF rpc_parse_request [OF assms(1) this]] show "\<not> answers i (zc_frame n z)"
    by (auto simp: answers_def)
qed

text \<open>
  Two clients call each other, each before it has the request of the other: then both requests have started
  their threads, and both calls hold their locks.
\<close>

lemma calls_cross:
  assumes "nul_free ma" and "nul_free mb"
  shows "\<exists>d ea eb. duo_run ha hb (duo_start (sync_peer_new na ta) (sync_peer_new nb tb)) d \<and> crossed d \<and>
    sp_returned (du_a d) = [] \<and> sp_returned (du_b d) = [] \<and> du_to_a d = [] \<and> du_to_b d = [] \<and>
    r_actions (sp_client (du_b d)) = [HandleRequest ea (Some (1, na))] \<and>
    event_method ea = Some (as_bytes ma) \<and> event_payload ea = Some (cow_slice pa) \<and>
    r_actions (sp_client (du_a d)) = [HandleRequest eb (Some (1, nb))] \<and>
    event_method eb = Some (as_bytes mb) \<and> event_payload eb = Some (cow_slice pb)"
proof -
  let ?s = "duo_start (sync_peer_new na ta) (sync_peer_new nb tb)"
  obtain a1 a2 za where a: "peer_step ha (sync_peer_new na ta) a1" "peer_step ha a1 a2" "sp_lock a1 = Free" "sp_sent a1 = []"
      "sp_sent a2 = [za]" "z_target za = nb" "z_header za = prepare_call_payload ma (le32 1)" "z_payload za = cow_slice pa"
      "stuck a2 []" "sp_returned a2 = []" "r_actions (sp_client a2) = []" "sp_name a1 = na" "sp_name a2 = na"
    using first_call [of ha na ta nb ma pa] by blast
  obtain b1 b2 zb where b: "peer_step hb (sync_peer_new nb tb) b1" "peer_step hb b1 b2" "sp_lock b1 = Free" "sp_sent b1 = []"
      "sp_sent b2 = [zb]" "z_target zb = na" "z_header zb = prepare_call_payload mb (le32 1)" "z_payload zb = cow_slice pb"
      "stuck b2 []" "sp_returned b2 = []" "r_actions (sp_client b2) = []" "sp_name b1 = nb" "sp_name b2 = nb"
    using first_call [of hb nb tb na mb pb] by blast
  obtain ea b3 where eb: "peer_receives (zc_frame na za) b2 = Some b3"
      "r_actions (sp_client b3) = [HandleRequest ea (Some (1, na))]" "event_method ea = Some (as_bytes ma)"
      "event_payload ea = Some (cow_slice pa)"
    using request_arrives(1) [OF assms(1) a(7), of na b2] a(8) b(11) by auto
  obtain eb a3 where ea: "peer_receives (zc_frame nb zb) a2 = Some a3"
      "r_actions (sp_client a3) = [HandleRequest eb (Some (1, nb))]" "event_method eb = Some (as_bytes mb)"
      "event_payload eb = Some (cow_slice pb)"
    using request_arrives(1) [OF assms(2) b(7), of nb a2] b(8) a(11) by auto
  let ?fa = "zc_frame na za" and ?fb = "zc_frame nb zb"
  let ?d1 = "?s\<lparr>du_a := a1\<rparr>" and ?d2 = "?s\<lparr>du_a := a2, du_to_b := [?fa]\<rparr>"
  let ?d3 = "?d2\<lparr>du_b := b1\<rparr>" and ?d4 = "?d2\<lparr>du_b := b2, du_to_a := [?fb]\<rparr>"
  let ?d5 = "?d4\<lparr>du_a := a3, du_to_a := []\<rparr>" and ?d6 = "?d4\<lparr>du_a := a3, du_to_a := [], du_b := b3, du_to_b := []\<rparr>"
  have "duo_step ha hb ?s ?d1" "duo_step ha hb ?d1 ?d2" "duo_step ha hb ?d2 ?d3" "duo_step ha hb ?d3 ?d4"
    using step_a [of ha ?s a1 hb] step_a [of ha ?d1 a2 hb] step_b [of hb ?d2 b1 ha] step_b [of hb ?d3 b2 ha] a b
    by (simp_all add: duo_start_def newly_sent_def spares_id_def sync_peer_new_def)
  moreover have "duo_step ha hb ?d4 ?d5" "duo_step ha hb ?d5 ?d6"
    using arrives_a [of ?d4 ?fb "[]" a3 ha hb] arrives_b [of ?d5 ?fa "[]" b3 ha hb] ea(1) eb(1)
    by (simp_all add: duo_start_def)
  ultimately have run: "duo_run ha hb ?s ?d4" "duo_run ha hb ?d4 ?d6"
    by (meson run_refl run_step)+
  then have "duo_run ha hb ?s ?d6" using \<open>duo_step ha hb ?d4 ?d5\<close> \<open>duo_step ha hb ?d5 ?d6\<close> run_step by blast
  moreover have "crossed ?d4"
    using a(9) b(9) request_arrives(2) [OF assms(1) a(7)] request_arrives(2) [OF assms(2) b(7)]
    by (auto simp: crossed_def stuck_def)
  ultimately show ?thesis
    using crossed_run [OF run(2)] a(10) b(10) ea eb by (intro exI [of _ ?d6] exI [of _ ea] exI [of _ eb]) (auto simp: unchanged_def)
qed

end
