(* ===== verification/Bus_SyncIpc.thy ===== *)
theory Bus_SyncIpc
  imports Bus_Ipc
begin

text \<open>
  The synchronous IPC client, \<open>src/src/sync/ipc.rs\<close>: the blocking counterpart of \<open>Bus_Ipc\<close>.  A write
  either completes or fails with an I/O error (the write timeout is one), and a failed write shuts the
  socket down; reads wait without limit.  The lemmas relate it to the asynchronous client: the same
  frames on the wire, the same acknowledgements, the same events.
\<close>

section \<open>State\<close>

record sync_config =
  ycfg_path :: string
  ycfg_name :: string
  ycfg_buf_size :: usize
  ycfg_queue_size :: usize
  ycfg_timeout :: duration
  ycfg_token :: "string option"

definition sync_config_new :: "string \<Rightarrow> string \<Rightarrow> sync_config" where
  "sync_config_new path name = \<lparr>ycfg_path = path, ycfg_name = name, ycfg_buf_size = 8192,
     ycfg_queue_size = 8192, ycfg_timeout = 1000000000, ycfg_token = None\<rparr>"

record sync_client =
  y_name :: string
  y_frame_id :: u32
  y_responses :: "u32 \<rightharpoonup> ticket"
  y_next_ticket :: ticket
  y_results :: "ticket \<rightharpoonup> (error + unit)"
  y_connected :: bool
  y_shutdown :: bool
  y_written :: bytes
  y_config :: sync_config
  y_secondary_counter :: usize

section \<open>Writing\<close>

definition sync_send_data :: "io_kind option \<Rightarrow> bytes \<Rightarrow> (sync_client, error, unit) act" where
  "sync_send_data w data cl =
     (case w of
        None \<Rightarrow> (Done (), cl\<lparr>y_written := y_written cl @ data\<rparr>)
      | Some k \<Rightarrow> (Bail (err_from_io k), cl\<lparr>y_connected := False, y_shutdown := True\<rparr>))"

definition sync_increment_frame_id :: "u32 \<Rightarrow> u32" where
  "sync_increment_frame_id frame_id = (if frame_id = - 1 then 1 else frame_id + 1)"

definition sync_prepare_frame_buf :: "FrameOp \<Rightarrow> QoS \<Rightarrow> sync_client \<Rightarrow> bytes \<times> sync_client" where
  "sync_prepare_frame_buf op qos cl =
     (let cl' = cl\<lparr>y_frame_id := sync_increment_frame_id (y_frame_id cl)\<rparr>
      in (le32 (y_frame_id cl') @ [frame_flags op qos], cl'))"

definition sync_send_frame_and_confirm ::
  "io_kind option \<times> io_kind option \<Rightarrow> bytes \<Rightarrow> bytes \<Rightarrow> QoS \<Rightarrow> (sync_client, error, ticket option) act" where
  "sync_send_frame_and_confirm w buf pl qos cl =
     (let (rx, cl') =
        (if needs_ack qos then
           (Some (y_next_ticket cl),
            cl\<lparr>y_responses := (y_responses cl)(y_frame_id cl \<mapsto> y_next_ticket cl),
               y_next_ticket := y_next_ticket cl + 1\<rparr>)
         else (None, cl))
      in act_then (sync_send_data (fst w) buf) (\<lambda>_.
         act_then (sync_send_data (snd w) pl) (\<lambda>_ cl''. (Done rx, cl''))) cl')"

definition sync_send_zc_frame ::
  "io_kind option \<times> io_kind option \<Rightarrow> string \<Rightarrow> bytes \<Rightarrow> bytes \<Rightarrow> FrameOp \<Rightarrow> QoS
     \<Rightarrow> (sync_client, error, ticket option) act" where
  "sync_send_zc_frame w target header pl op qos cl =
     (let t = as_bytes target;
          (buf, cl') = sync_prepare_frame_buf op qos cl;
          len = word_of_nat (length t + length pl + length header + 1) :: u32
      in sync_send_frame_and_confirm w (buf @ le32 len @ t @ [0] @ header) pl qos cl')"

definition sync_send_frame ::
  "io_kind option \<times> io_kind option \<Rightarrow> string \<Rightarrow> bytes \<Rightarrow> FrameOp \<Rightarrow> QoS
     \<Rightarrow> (sync_client, error, ticket option) act" where
  "sync_send_frame w target pl op qos cl =
     (let t = as_bytes target;
          (buf, cl') = sync_prepare_frame_buf op qos cl;
          len = word_of_nat (length t + length pl + 1) :: u32
      in sync_send_frame_and_confirm w (buf @ le32 len @ t @ [0]) pl qos cl')"

definition sync_send_frame_receiver ::
  "io_kind option \<times> io_kind option \<Rightarrow> string \<Rightarrow> string \<Rightarrow> bytes \<Rightarrow> FrameOp \<Rightarrow> QoS
     \<Rightarrow> (sync_client, error, ticket option) act" where
  "sync_send_frame_receiver w target receiver pl op qos cl =
     (let t = as_bytes target;
          r = as_bytes receiver;
          (buf, cl') = sync_prepare_frame_buf op qos cl;
          len = word_of_nat (length t + length r + length pl + 2) :: u32
      in sync_send_frame_and_confirm w (buf @ le32 len @ t @ [0] @ r @ [0]) pl qos cl')"

definition sync_send_frame_plain ::
  "io_kind option \<times> io_kind option \<Rightarrow> bytes \<Rightarrow> FrameOp \<Rightarrow> QoS \<Rightarrow> (sync_client, error, ticket option) act" where
  "sync_send_frame_plain w pl op qos cl =
     (let (buf, cl') = sync_prepare_frame_buf op qos cl;
          len = word_of_nat (length pl) :: u32
      in sync_send_frame_and_confirm w (buf @ le32 len) pl qos cl')"

section \<open>The client's methods\<close>

definition sync_send where
  "sync_send w target p qos = sync_send_frame w target (cow_slice p) OpMessage qos"
definition sync_zc_send where
  "sync_zc_send w target h p qos = sync_send_zc_frame w target (cow_slice h) (cow_slice p) OpMessage qos"
definition sync_send_broadcast where
  "sync_send_broadcast w target p qos = sync_send_frame w target (cow_slice p) OpBroadcast qos"
definition sync_publish where
  "sync_publish w target p qos = sync_send_frame w target (cow_slice p) OpPublishTopic qos"
definition sync_publish_for where
  "sync_publish_for w target receiver p qos =
     sync_send_frame_receiver w target receiver (cow_slice p) OpPublishTopicFor qos"
definition sync_subscribe where
  "sync_subscribe w topic qos = sync_send_frame_plain w (as_bytes topic) OpSubscribeTopic qos"
definition sync_unsubscribe where
  "sync_unsubscribe w topic qos = sync_send_frame_plain w (as_bytes topic) OpUnsubscribeTopic qos"

text \<open>The loop that joins the topics of a bulk operation.\<close>

fun sync_join_topics :: "bytes \<Rightarrow> string list \<Rightarrow> bytes" where
  "sync_join_topics payload [] = payload"
| "sync_join_topics payload (topic # topics) =
     sync_join_topics ((if payload \<noteq> [] then payload @ [0] else payload) @ as_bytes topic) topics"

definition sync_subscribe_bulk where
  "sync_subscribe_bulk w topics qos = sync_send_frame_plain w (sync_join_topics [] topics) OpSubscribeTopic qos"
definition sync_unsubscribe_bulk where
  "sync_unsubscribe_bulk w topics qos = sync_send_frame_plain w (sync_join_topics [] topics) OpUnsubscribeTopic qos"
definition sync_exclude where
  "sync_exclude w topic qos = sync_send_frame_plain w (as_bytes topic) OpExcludeTopic qos"
definition sync_unexclude where
  "sync_unexclude w topic qos = sync_send_frame_plain w (as_bytes topic) OpUnexcludeTopic qos"
definition sync_exclude_bulk where
  "sync_exclude_bulk w topics qos = sync_send_frame_plain w (sync_join_topics [] topics) OpExcludeTopic qos"
definition sync_unexclude_bulk where
  "sync_unexclude_bulk w topics qos = sync_send_frame_plain w (sync_join_topics [] topics) OpUnexcludeTopic qos"
definition sync_ping where
  "sync_ping w = sync_send_data w PING_FRAME"

definition sync_register_secondary :: "sync_client \<Rightarrow> (error + sync_config) \<times> sync_client" where
  "sync_register_secondary cl =
     (if str_find SECONDARY_SEP (y_name cl) \<noteq> None
      then (Inl (err_not_supported [Lit ''not a primary client'']), cl)
      else (Inr ((y_config cl)\<lparr>ycfg_name := y_name cl @ SECONDARY_SEP @ show_nat (y_secondary_counter cl)\<rparr>),
            cl\<lparr>y_secondary_counter := y_secondary_counter cl + 1\<rparr>))"

section \<open>Reading\<close>

definition sync_parse_body :: "FrameKind \<Rightarrow> bool \<Rightarrow> bytes \<Rightarrow> error + frame" where
  "sync_parse_body frame_type realtime buf =
     (let n = (if frame_type = KPublish then 3 else 2);
          sp = splitn0 n buf
      in case sp of
           [] \<Rightarrow> Inl (err_data [Lit ''broken frame''])
         | s # rest \<Rightarrow>
             (case parse_str s of
                Inl e \<Rightarrow> Inl e
              | Inr sender \<Rightarrow>
                  if frame_type = KPublish then
                    (case rest of
                       [] \<Rightarrow> Inl (err_data [Lit ''broken frame''])
                     | t # rest' \<Rightarrow>
                         (case parse_str t of
                            Inl e \<Rightarrow> Inl e
                          | Inr topic \<Rightarrow>
                              if rest' = [] then Inl (err_data [Lit ''broken frame''])
                              else Inr (frame_new frame_type (Some sender) (Some topic) None buf
                                     (length s + length t + 2) realtime)))
                  else if rest = [] then Inl (err_data [Lit ''broken frame''])
                  else Inr (frame_new frame_type (Some sender) None None buf (length s + 1) realtime)))"

definition sync_handle_read_step :: "(nat \<Rightarrow> bool) \<Rightarrow> stream \<Rightarrow> reader \<Rightarrow> (error, stream) eff \<times> reader" where
  "sync_handle_read_step alive s rd =
     (case read_exact 6 s of
        ReadErr k \<Rightarrow> (Bail (err_from_io k), rd)
      | ReadElapsed \<Rightarrow> (Pending, rd)
      | Got buf s1 \<Rightarrow>
          (case frame_kind_try_from (buf ! 0) of
             Inl e \<Rightarrow> (Bail e, rd)
           | Inr KNop \<Rightarrow> (Done s1, rd)
           | Inr KAcknowledge \<Rightarrow>
               (Done s1, resolve_ack (of_le32 (take 4 (drop 1 buf))) (buf ! 5) rd)
           | Inr frame_type \<Rightarrow>
               (case read_exact (unat (of_le32 (take 4 (drop 1 buf)))) s1 of
                  ReadErr k \<Rightarrow> (Bail (err_from_io k), rd)
                | ReadElapsed \<Rightarrow> (Pending, rd)
                | Got body s2 \<Rightarrow>
                    (case sync_parse_body frame_type (buf ! 5 \<noteq> 0) body of
                       Inl e \<Rightarrow> (Bail e, rd)
                     | Inr f \<Rightarrow>
                         if alive (length (rd_events rd))
                         then (Done s2, rd\<lparr>rd_events := rd_events rd @ [f]\<rparr>)
                         else (Bail (err_io [Shown (ExternError ''SendError'')]), rd)))))"

lemma sync_handle_read_step_consumes:
  "sync_handle_read_step alive s rd = (Done s', rd') \<Longrightarrow> length (s_bytes s') < length (s_bytes s)"
  by (auto simp: sync_handle_read_step_def read_exact_Got
      split: read_result.splits sum.splits FrameKind.splits if_splits)

function sync_handle_read :: "(nat \<Rightarrow> bool) \<Rightarrow> stream \<Rightarrow> reader \<Rightarrow> (error, unit) eff \<times> reader" where
  "sync_handle_read alive s rd =
     (case sync_handle_read_step alive s rd of
        (Done s', rd') \<Rightarrow> sync_handle_read alive s' rd'
      | (Bail e, rd') \<Rightarrow> (Bail e, rd')
      | (Pending, rd') \<Rightarrow> (Pending, rd'))"
  by pat_completeness auto
termination
  by (relation "measure (\<lambda>(alive, s, rd). length (s_bytes s))")
     (auto dest: sync_handle_read_step_consumes [OF sym])

declare sync_handle_read.simps [simp del]

text \<open>\<open>Reader::run\<close>: the beacon is cleared when the reader ends with an error.\<close>

definition reader_run :: "(nat \<Rightarrow> bool) \<Rightarrow> stream \<Rightarrow> reader \<Rightarrow> bool \<Rightarrow> bool \<times> reader" where
  "reader_run alive s rd rconn =
     (case sync_handle_read alive s rd of
        (Bail e, rd') \<Rightarrow> (False, rd')
      | (_, rd') \<Rightarrow> (rconn, rd'))"

section \<open>The same protocol\<close>

interpretation sync_frame_ids: id_source sync_increment_frame_id
  by unfold_locales (simp_all add: sync_increment_frame_id_def)

text \<open>The synchronous client seen as an asynchronous one.\<close>

definition as_ipc :: "ipc_config \<Rightarrow> sync_client \<Rightarrow> ipc_client" where
  "as_ipc cfg cl = \<lparr>i_name = y_name cl, i_frame_id = y_frame_id cl, i_responses = y_responses cl,
     i_next_ticket = y_next_ticket cl, i_results = y_results cl, i_connected = y_connected cl,
     i_reader_alive = (\<not> y_shutdown cl), i_written = y_written cl, i_config = cfg,
     i_secondary_counter = y_secondary_counter cl\<rparr>"

definition as_outcome :: "io_kind option \<Rightarrow> write_outcome" where
  "as_outcome w = (case w of None \<Rightarrow> Written | Some k \<Rightarrow> WriteErr k)"

lemma sync_send_data_as_ipc:
  "send_data_or_mark_disconnected (as_outcome w) data (as_ipc cfg cl) =
     (case sync_send_data w data cl of (r, cl') \<Rightarrow> (r, as_ipc cfg cl'))"
  by (cases w) (simp_all add: send_data_or_mark_disconnected_def sync_send_data_def as_outcome_def as_ipc_def
      mark_disconnected_def)

lemma sync_confirm_as_ipc:
  "send_frame_and_confirm (map_prod as_outcome as_outcome w) buf pl qos (as_ipc cfg cl) =
     (case sync_send_frame_and_confirm w buf pl qos cl of (r, cl') \<Rightarrow> (r, as_ipc cfg cl'))"
  by (cases w; cases "fst w"; cases "snd w")
     (simp_all add: send_frame_and_confirm_def sync_send_frame_and_confirm_def frame_write_guard_def
       act_then_def register_response_def send_data_or_mark_disconnected_def sync_send_data_def
       as_outcome_def as_ipc_def mark_disconnected_def Let_def)

lemma sync_prepare_as_ipc:
  "prepare_frame_buf op qos (as_ipc cfg cl) =
     (case sync_prepare_frame_buf op qos cl of (buf, cl') \<Rightarrow> (buf, as_ipc cfg cl'))"
  by (simp add: prepare_frame_buf_def sync_prepare_frame_buf_def as_ipc_def increment_frame_id_def
      sync_increment_frame_id_def Let_def)

lemma sync_join_topics_eq: "sync_join_topics acc topics = bulk_payload acc topics"
  by (induction topics arbitrary: acc) simp_all

lemma sync_parse_body_eq: "sync_parse_body k rt buf = parse_incoming k rt buf"
  by (auto simp: sync_parse_body_def parse_incoming_def err_broken_frame_def Let_def
      split: list.splits sum.splits)

text \<open>Without a silent peer the two readers agree.\<close>

lemma sync_handle_read_step_eq:
  "s_end s \<noteq> Silent \<Longrightarrow> sync_handle_read_step alive s rd = handle_read_step alive s rd"
proof -
  assume s: "s_end s \<noteq> Silent"
  have e: "read_exact n t \<noteq> ReadElapsed" if "s_end t \<noteq> Silent" for n t
    using that by (auto simp: read_exact_def split: stream_end.splits)
  show ?thesis
  proof (cases "read_exact 6 s")
    case (Got buf s1)
    then have "s_end s1 \<noteq> Silent" using s by (simp add: read_exact_Got)
    then have "read_exact n s1 \<noteq> ReadElapsed" for n by (rule e)
    with Got show ?thesis
      by (auto simp: sync_handle_read_step_def handle_read_step_def Let_def sync_parse_body_eq
          split: sum.splits FrameKind.splits read_result.splits)
  qed (simp_all add: sync_handle_read_step_def handle_read_step_def)
qed

lemma handle_read_step_end:
  "handle_read_step alive s rd = (Done s', rd') \<Longrightarrow> s_end s' = s_end s"
  by (auto simp: handle_read_step_def Let_def read_exact_Got
      split: read_result.splits sum.splits FrameKind.splits if_splits)

lemma sync_handle_read_eq:
  "s_end s \<noteq> Silent \<Longrightarrow> sync_handle_read alive s rd = handle_read alive s rd"
proof (induction alive s rd rule: handle_read.induct)
  case (1 alive s rd)
  obtain r rd' where h: "handle_read_step alive s rd = (r, rd')" by force
  then have y: "sync_handle_read_step alive s rd = (r, rd')" using 1 sync_handle_read_step_eq by metis
  show ?case
  proof (cases r)
    case (Done s')
    with 1 h handle_read_step_end have "sync_handle_read alive s' rd' = handle_read alive s' rd'" by metis
    with h y Done show ?thesis by (simp add: handle_read.simps [of alive s] sync_handle_read.simps [of alive s])
  qed (use h y in \<open>simp_all add: handle_read.simps [of alive s] sync_handle_read.simps [of alive s]\<close>)
qed

end
