(* ===== verification/Bus_Pubsub.thy ===== *)
theory Bus_Pubsub
  imports Bus_Core
begin

text \<open>
  The topic broker of \<open>src/src/tools/pubsub.rs\<close>: handlers registered for topics and for topic prefixes,
  and the dispatch of publications to them.  A \<open>BTreeMap\<close> is an association list in ascending key
  order, which is the order its iterator has; a channel is a number, and how a send into it ends is an
  argument.
\<close>

section \<open>Ordered maps\<close>

fun bt_insert :: "string \<Rightarrow> 'v \<Rightarrow> (string \<times> 'v) list \<Rightarrow> (string \<times> 'v) list" where
  "bt_insert k v [] = [(k, v)]"
| "bt_insert k v ((l, w) # m) =
     (if k < l then (k, v) # (l, w) # m else if k = l then (k, v) # m else (l, w) # bt_insert k v m)"

definition bt_ok :: "(string \<times> 'v) list \<Rightarrow> bool" where
  "bt_ok m \<longleftrightarrow> sorted_wrt (<) (map fst m)"

lemma set_fst_bt_insert [simp]: "fst ` set (bt_insert k v m) = insert k (fst ` set m)"
  by (induction k v m rule: bt_insert.induct) auto

lemma bt_ok_insert: "bt_ok m \<Longrightarrow> bt_ok (bt_insert k v m)"
  unfolding bt_ok_def
proof (induction k v m rule: bt_insert.induct)
  case (2 k v l w m)
  have "set (map fst (bt_insert k v m)) = insert k (set (map fst m))" by simp
  moreover have "k \<noteq> l \<Longrightarrow> \<not> k < l \<Longrightarrow> l < k" by auto
  ultimately show ?case using 2 by (auto simp del: set_map dest: less_trans)
qed simp

lemma map_of_bt_insert: "bt_ok m \<Longrightarrow> map_of (bt_insert k v m) = (map_of m)(k \<mapsto> v)"
proof (induction k v m rule: bt_insert.induct)
  case (2 k v l w m)
  then show ?case by (auto simp: bt_ok_def fun_eq_iff)
qed simp

section \<open>Publications\<close>

type_synonym chan = nat

record publication =
  p_subtopic_pos :: usize
  p_frame :: frame
  p_handler_id :: usize

text \<open>\<^const>\<open>None\<close> is a panic.\<close>

definition pub_topic :: "publication \<Rightarrow> string option" where
  "pub_topic p = f_topic (p_frame p)"

definition pub_subtopic :: "publication \<Rightarrow> string option" where
  "pub_subtopic p =
     (case f_topic (p_frame p) of
        Some t \<Rightarrow> if p_subtopic_pos p \<le> length t then Some (drop (p_subtopic_pos p) t) else None
      | None \<Rightarrow> None)"

record topic_broker =
  tb_prefixes :: "(string \<times> chan \<times> usize) list"
  tb_topics :: "(string \<times> chan \<times> usize) list"

definition topic_broker_new :: topic_broker where
  "topic_broker_new = \<lparr>tb_prefixes = [], tb_topics = []\<rparr>"

definition register_topic_tx_with_handler_id ::
  "string \<Rightarrow> usize \<Rightarrow> chan \<Rightarrow> topic_broker \<Rightarrow> (error + unit) \<times> topic_broker" where
  "register_topic_tx_with_handler_id topic handler_id tx tb =
     (if map_of (tb_topics tb) topic = None
      then (Inr (), tb\<lparr>tb_topics := bt_insert topic (tx, handler_id) (tb_topics tb)\<rparr>)
      else (Inl (err_busy [Lit ''topic already registered'']), tb))"

definition register_topic_tx :: "string \<Rightarrow> chan \<Rightarrow> topic_broker \<Rightarrow> (error + unit) \<times> topic_broker" where
  "register_topic_tx topic tx tb =
     (if map_of (tb_topics tb) topic = None
      then (Inr (), tb\<lparr>tb_topics := bt_insert topic (tx, 0) (tb_topics tb)\<rparr>)
      else (Inl (err_busy [Lit ''topic already registered'']), tb))"

definition register_prefix_tx_with_handler_id ::
  "string \<Rightarrow> usize \<Rightarrow> chan \<Rightarrow> topic_broker \<Rightarrow> (error + unit) \<times> topic_broker" where
  "register_prefix_tx_with_handler_id pfx handler_id tx tb =
     (if map_of (tb_prefixes tb) pfx = None
      then (Inr (), tb\<lparr>tb_prefixes := bt_insert pfx (tx, handler_id) (tb_prefixes tb)\<rparr>)
      else (Inl (err_busy [Lit ''topic prefix already registered'']), tb))"

definition register_prefix_tx :: "string \<Rightarrow> chan \<Rightarrow> topic_broker \<Rightarrow> (error + unit) \<times> topic_broker" where
  "register_prefix_tx pfx tx tb =
     (if map_of (tb_prefixes tb) pfx = None
      then (Inr (), tb\<lparr>tb_prefixes := bt_insert pfx (tx, 0) (tb_prefixes tb)\<rparr>)
      else (Inl (err_busy [Lit ''topic prefix already registered'']), tb))"

text \<open>The forms that make the channel: \<open>fresh\<close> is the new channel, dropped again on failure.\<close>

definition register_topic :: "chan \<Rightarrow> string \<Rightarrow> topic_broker \<Rightarrow> (error + chan) \<times> topic_broker" where
  "register_topic fresh topic tb =
     (case register_topic_tx topic fresh tb of (Inl e, tb') \<Rightarrow> (Inl e, tb') | (Inr _, tb') \<Rightarrow> (Inr fresh, tb'))"

definition register_topic_with_handler_id ::
  "chan \<Rightarrow> string \<Rightarrow> usize \<Rightarrow> topic_broker \<Rightarrow> (error + chan) \<times> topic_broker" where
  "register_topic_with_handler_id fresh topic handler_id tb =
     (case register_topic_tx_with_handler_id topic handler_id fresh tb of
        (Inl e, tb') \<Rightarrow> (Inl e, tb') | (Inr _, tb') \<Rightarrow> (Inr fresh, tb'))"

definition register_prefix :: "chan \<Rightarrow> string \<Rightarrow> topic_broker \<Rightarrow> (error + chan) \<times> topic_broker" where
  "register_prefix fresh pfx tb =
     (case register_prefix_tx pfx fresh tb of (Inl e, tb') \<Rightarrow> (Inl e, tb') | (Inr _, tb') \<Rightarrow> (Inr fresh, tb'))"

definition register_prefix_with_handler_id ::
  "chan \<Rightarrow> string \<Rightarrow> usize \<Rightarrow> topic_broker \<Rightarrow> (error + chan) \<times> topic_broker" where
  "register_prefix_with_handler_id fresh pfx handler_id tb =
     (case register_prefix_tx_with_handler_id pfx handler_id fresh tb of
        (Inl e, tb') \<Rightarrow> (Inl e, tb') | (Inr _, tb') \<Rightarrow> (Inr fresh, tb'))"

section \<open>Dispatch\<close>

datatype chan_outcome = ChanSent | ChanClosed | ChanBlocked

text \<open>
  \<open>process\<close>: \<open>out\<close> is how a send into a channel ends; the state is the log of what was sent where.  The
  result is the frame, if no handler took it.
\<close>

definition send_pub :: "(chan \<Rightarrow> chan_outcome) \<Rightarrow> chan \<Rightarrow> publication
    \<Rightarrow> ((chan \<times> publication) list, error, frame option) act" where
  "send_pub out tx p log =
     (case out tx of
        ChanSent \<Rightarrow> (Done None, log @ [(tx, p)])
      | ChanClosed \<Rightarrow> (Bail err_eof, log)
      | ChanBlocked \<Rightarrow> (Pending, log))"

fun process_prefixes ::
  "(chan \<Rightarrow> chan_outcome) \<Rightarrow> string \<Rightarrow> frame \<Rightarrow> (string \<times> chan \<times> usize) list
     \<Rightarrow> ((chan \<times> publication) list, error, frame option) act" where
  "process_prefixes out topic f [] log = (Done (Some f), log)"
| "process_prefixes out topic f ((pfx, tx, handler_id) # m) log =
     (if prefix pfx topic
      then send_pub out tx \<lparr>p_subtopic_pos = length pfx, p_frame = f, p_handler_id = handler_id\<rparr> log
      else process_prefixes out topic f m log)"

definition process_frame ::
  "(chan \<Rightarrow> chan_outcome) \<Rightarrow> topic_broker \<Rightarrow> frame \<Rightarrow> ((chan \<times> publication) list, error, frame option) act" where
  "process_frame out tb f log =
     (case f_topic f of
        Some topic \<Rightarrow>
          (case map_of (tb_topics tb) topic of
             Some (tx, handler_id) \<Rightarrow>
               send_pub out tx \<lparr>p_subtopic_pos = 0, p_frame = f, p_handler_id = handler_id\<rparr> log
           | None \<Rightarrow> process_prefixes out topic f (tb_prefixes tb) log)
      | None \<Rightarrow> (Done (Some f), log))"

section \<open>Lemmas\<close>

definition topic_broker_ok :: "topic_broker \<Rightarrow> bool" where
  "topic_broker_ok tb \<longleftrightarrow> bt_ok (tb_prefixes tb) \<and> bt_ok (tb_topics tb)"

lemma prefix_le: "prefix p q \<Longrightarrow> p \<le> (q :: string)"
proof (induction p arbitrary: q)
  case (Cons c p)
  then show ?case by (cases q) auto
qed simp

text \<open>Among the prefixes of one string the lexicographic order is the order of their lengths.\<close>

lemma prefixes_ordered:
  assumes "prefix p t" and "prefix q t" and "p < (q :: string)"
  shows "length p < length q"
proof (rule ccontr)
  assume "\<not> length p < length q"
  then have "prefix q p" using assms(1,2) prefix_length_prefix [of q t p] by simp
  then have "q \<le> p" by (rule prefix_le)
  with assms(3) show False by simp
qed

lemma process_prefixes_first:
  assumes "bt_ok m" and "(pfx, tx, h) \<in> set m" and "prefix pfx topic"
    and "\<And>q. q \<in> fst ` set m \<Longrightarrow> prefix q topic \<Longrightarrow> length pfx \<le> length q"
  shows "process_prefixes out topic f m log =
    send_pub out tx \<lparr>p_subtopic_pos = length pfx, p_frame = f, p_handler_id = h\<rparr> log"
  using assms
proof (induction m)
  case (Cons e m)
  obtain l u v where e: "e = (l, u, v)" by (cases e)
  show ?case
  proof (cases "prefix l topic")
    case True
    have "\<not> l < pfx" if "(pfx, tx, h) \<in> set m"
      using prefixes_ordered [OF True Cons.prems(3)] Cons.prems(4) [of l] True e by fastforce
    moreover have "l < pfx" if "(pfx, tx, h) \<in> set m"
      using Cons.prems(1) e that by (force simp: bt_ok_def)
    ultimately have "e = (pfx, tx, h)" using Cons.prems(2) by auto
    then show ?thesis using Cons.prems(3) by simp
  next
    case False
    with Cons e show ?thesis by (auto simp: bt_ok_def)
  qed
qed simp

lemma process_prefixes_none:
  assumes "\<And>q. q \<in> fst ` set m \<Longrightarrow> \<not> prefix q topic"
  shows "process_prefixes out topic f m log = (Done (Some f), log)"
  using assms by (induction m) auto

lemma registered_ok:
  assumes "topic_broker_ok tb"
  shows "topic_broker_ok (snd (register_topic_tx_with_handler_id t h c tb))"
    and "topic_broker_ok (snd (register_topic_tx t c tb))"
    and "topic_broker_ok (snd (register_prefix_tx_with_handler_id t h c tb))"
    and "topic_broker_ok (snd (register_prefix_tx t c tb))"
  using assms
  by (simp_all add: topic_broker_ok_def register_topic_tx_with_handler_id_def register_topic_tx_def
      register_prefix_tx_with_handler_id_def register_prefix_tx_def bt_ok_insert)

end
