(* ===== verification/Bus_Cursors.thy ===== *)
theory Bus_Cursors
  imports Bus_Rpc
begin

text \<open>
  The cursor map of \<open>src/src/cursors.rs\<close>: cursors by UUID, their expiry, and the cleaner.  A cursor is
  code of the user of the crate: its \<open>next\<close> and \<open>next_bulk\<close> are arguments that act on its own state
  \<open>'c\<close>.  Instants and durations are natural numbers (nanoseconds).
\<close>

type_synonym uuid = "128 word"

record payload =
  pl_u :: uuid
  pl_n :: "usize option"

definition payload_from :: "uuid \<Rightarrow> payload" where
  "payload_from u = \<lparr>pl_u = u, pl_n = None\<rparr>"
definition bulk_number :: "payload \<Rightarrow> usize" where
  "bulk_number p = (case pl_n p of Some n \<Rightarrow> n | None \<Rightarrow> 1)"
definition set_bulk_number :: "usize \<Rightarrow> payload \<Rightarrow> payload" where
  "set_bulk_number n p = p\<lparr>pl_n := Some n\<rparr>"
definition clear_bulk_number :: "payload \<Rightarrow> payload" where
  "clear_bulk_number p = p\<lparr>pl_n := None\<rparr>"

section \<open>Meta\<close>

record meta =
  m_finished :: bool
  m_expires :: nat
  m_ttl :: duration

definition meta_new :: "nat \<Rightarrow> duration \<Rightarrow> meta" where
  "meta_new now ttl = \<lparr>m_finished = False, m_expires = now + ttl, m_ttl = ttl\<rparr>"
definition is_expired :: "nat \<Rightarrow> meta \<Rightarrow> bool" where
  "is_expired now m \<longleftrightarrow> m_expires m < now"
definition mark_finished :: "meta \<Rightarrow> meta" where
  "mark_finished m = m\<lparr>m_finished := True\<rparr>"
definition is_alive :: "nat \<Rightarrow> meta \<Rightarrow> bool" where
  "is_alive now m \<longleftrightarrow> \<not> m_finished m \<and> \<not> is_expired now m"
definition touch :: "nat \<Rightarrow> meta \<Rightarrow> meta" where
  "touch now m = m\<lparr>m_expires := now + m_ttl m\<rparr>"

section \<open>The map\<close>

record 'c cursor =
  cu_state :: 'c
  cu_meta :: meta

type_synonym 'c cursor_map = "uuid \<rightharpoonup> 'c cursor"

text \<open>\<open>u\<close> is the UUID \<open>Uuid::new_v4\<close> returns.\<close>

definition cursor_add :: "uuid \<Rightarrow> 'c cursor \<Rightarrow> 'c cursor_map \<Rightarrow> uuid \<times> 'c cursor_map" where
  "cursor_add u c m = (u, m(u \<mapsto> c))"

definition cursor_remove :: "uuid \<Rightarrow> 'c cursor_map \<Rightarrow> 'c cursor_map" where
  "cursor_remove u m = m(u := None)"

definition cursor_next ::
  "nat \<Rightarrow> ('c cursor \<Rightarrow> (rpc_error + bytes option) \<times> 'c cursor) \<Rightarrow> uuid \<Rightarrow> 'c cursor_map
     \<Rightarrow> (rpc_error + bytes option) \<times> 'c cursor_map" where
  "cursor_next now nxt u m =
     (case m u of
        Some c \<Rightarrow>
          (case nxt (c\<lparr>cu_meta := touch now (cu_meta c)\<rparr>) of (r, c') \<Rightarrow> (r, m(u \<mapsto> c')))
      | None \<Rightarrow> (Inl (rpc_error_not_found None), m))"

definition cursor_next_bulk ::
  "nat \<Rightarrow> (usize \<Rightarrow> 'c cursor \<Rightarrow> (rpc_error + bytes) \<times> 'c cursor) \<Rightarrow> uuid \<Rightarrow> usize \<Rightarrow> 'c cursor_map
     \<Rightarrow> (rpc_error + bytes option) \<times> 'c cursor_map" where
  "cursor_next_bulk now nxt u count m =
     (case m u of
        Some c \<Rightarrow>
          (case nxt count (c\<lparr>cu_meta := touch now (cu_meta c)\<rparr>) of
             (Inr v, c') \<Rightarrow> (Inr (Some v), m(u \<mapsto> c'))
           | (Inl e, c') \<Rightarrow> (Inl e, m(u \<mapsto> c')))
      | None \<Rightarrow> (Inl (rpc_error_not_found None), m))"

text \<open>One tick of the cleaner: \<open>retain(|_, v| v.meta().is_alive())\<close>.\<close>

definition cleaner_tick :: "nat \<Rightarrow> 'c cursor_map \<Rightarrow> 'c cursor_map" where
  "cleaner_tick now m = (\<lambda>u. case m u of Some c \<Rightarrow> if is_alive now (cu_meta c) then Some c else None | None \<Rightarrow> None)"

section \<open>Lemmas\<close>

lemma touch_alive: "\<not> m_finished m \<Longrightarrow> now' \<le> now + m_ttl m \<Longrightarrow> is_alive now' (touch now m)"
  by (simp add: is_alive_def is_expired_def touch_def)

lemma cleaner_tick_Some: "cleaner_tick now m u = Some c \<longleftrightarrow> m u = Some c \<and> is_alive now (cu_meta c)"
  by (auto simp: cleaner_tick_def split: option.splits)

lemma cursor_next_keeps:
  assumes "m u = Some c" and "nxt (c\<lparr>cu_meta := touch now (cu_meta c)\<rparr>) = (r, c')"
    and "cu_meta c' = touch now (cu_meta c)" and "\<not> m_finished (cu_meta c)"
    and "now' \<le> now + m_ttl (cu_meta c)"
  shows "cursor_next now nxt u m = (r, m(u \<mapsto> c')) \<and> cleaner_tick now' (m(u \<mapsto> c')) u = Some c'"
  using assms by (simp add: cursor_next_def cleaner_tick_Some touch_alive)

end
