(* ===== verification/Bus_CursorDemo.thy ===== *)
theory Bus_CursorDemo
  imports Bus_Cursors Bus_CoreRpc
begin

text \<open>
  Transfer of a data stream through the cursor map, as \<open>src/examples/server_cursor.rs\<close> and
  \<open>src/examples/client_cursor.rs\<close> do it: the cursor over the rows of a database, the handler of the server, and
  the loops of the client that get the rows one by one or in bulk.  The encodings of \<open>rmp_serde\<close> are an argument;
  the database is the list of what its stream yields.
\<close>

section \<open>The server\<close>

record customer =
  cs_id :: i64
  cs_name :: string

text \<open>An item of the stream: an error, or a row whose columns can be read or not.\<close>

datatype db_item = DbErr | DbRow "i64 option" "string option"

record cursor_codec =
  enc_customer :: "customer \<Rightarrow> string + bytes"
  dec_customer :: "bytes \<Rightarrow> string + customer"
  enc_customers :: "customer list \<Rightarrow> string + bytes"
  dec_customers :: "bytes \<Rightarrow> string + customer list"
  enc_payload :: "payload \<Rightarrow> string + bytes"
  dec_payload :: "bytes \<Rightarrow> string + payload"

definition CURSOR_TTL :: duration where "CURSOR_TTL = 30 * 10 ^ 9"

fun row_customer :: "db_item \<Rightarrow> customer option" where
  "row_customer (DbRow (Some i) (Some n)) = Some \<lparr>cs_id = i, cs_name = n\<rparr>"
| "row_customer _ = None"

type_synonym customer_cursor = "db_item list cursor"

definition customer_cursor_new :: "nat \<Rightarrow> db_item list \<Rightarrow> customer_cursor" where
  "customer_cursor_new now rows = \<lparr>cu_state = rows, cu_meta = meta_new now CURSOR_TTL\<rparr>"

definition encoded :: "string + bytes \<Rightarrow> rpc_error + bytes" where
  "encoded r = (case r of Inl e \<Rightarrow> Inl (rpc_error_from_encode e) | Inr v \<Rightarrow> Inr v)"

definition customer_next :: "cursor_codec \<Rightarrow> customer_cursor \<Rightarrow> (rpc_error + bytes option) \<times> customer_cursor" where
  "customer_next C c =
     (case cu_state c of
        [] \<Rightarrow> (Inr None, c\<lparr>cu_meta := mark_finished (cu_meta c)\<rparr>)
      | item # s \<Rightarrow>
          (case row_customer item of
             None \<Rightarrow> Inl (rpc_error_internal None)
           | Some cu \<Rightarrow> (case encoded (enc_customer C cu) of Inl e \<Rightarrow> Inl e | Inr v \<Rightarrow> Inr (Some v)),
           c\<lparr>cu_state := s\<rparr>))"

text \<open>The loop of \<open>next_bulk\<close>; \<^const>\<open>None\<close> if an item is an error.\<close>

fun fetch_bulk :: "usize \<Rightarrow> customer list \<Rightarrow> db_item list \<Rightarrow> customer list option \<times> db_item list" where
  "fetch_bulk count result [] = (Some result, [])"
| "fetch_bulk count result (item # s) =
     (case row_customer item of
        None \<Rightarrow> (None, s)
      | Some cu \<Rightarrow> if length (result @ [cu]) = count then (Some (result @ [cu]), s)
                  else fetch_bulk count (result @ [cu]) s)"

definition customer_next_bulk ::
  "cursor_codec \<Rightarrow> usize \<Rightarrow> customer_cursor \<Rightarrow> (rpc_error + bytes) \<times> customer_cursor" where
  "customer_next_bulk C count c =
     (case (if count > 0 then fetch_bulk count [] (cu_state c) else (Some [], cu_state c)) of
        (None, s) \<Rightarrow> (Inl (rpc_error_internal None), c\<lparr>cu_state := s\<rparr>)
      | (Some result, s) \<Rightarrow>
          (encoded (enc_customers C result),
           if length result < count then c\<lparr>cu_state := s, cu_meta := mark_finished (cu_meta c)\<rparr>
           else c\<lparr>cu_state := s\<rparr>))"

text \<open>\<open>MyHandlers::handle_call\<close>: \<open>rows\<close> is what the query yields, \<open>u\<close> the fresh UUID.\<close>

definition db_method ::
  "cursor_codec \<Rightarrow> db_item list \<Rightarrow> uuid \<Rightarrow> nat \<Rightarrow> string \<Rightarrow> bytes \<Rightarrow> db_item list cursor_map
     \<Rightarrow> rpc_result \<times> db_item list cursor_map" where
  "db_method C rows u now method payload m =
     (if method = ''Ccustomers'' then
        (case cursor_add u (customer_cursor_new now rows) m of
           (u', m') \<Rightarrow> (case encoded (enc_payload C (payload_from u')) of Inl e \<Rightarrow> Inl e | Inr v \<Rightarrow> Inr (Some v), m'))
      else if method = ''N'' then
        (case dec_payload C payload of
           Inl e \<Rightarrow> (Inl (rpc_error_from_decode e), m)
         | Inr p \<Rightarrow> cursor_next now (customer_next C) (pl_u p) m)
      else if method = ''NB'' then
        (case dec_payload C payload of
           Inl e \<Rightarrow> (Inl (rpc_error_from_decode e), m)
         | Inr p \<Rightarrow> cursor_next_bulk now (customer_next_bulk C) (pl_u p) (bulk_number p) m)
      else (Inl (rpc_error_method None), m))"

definition db_handle_call ::
  "cursor_codec \<Rightarrow> db_item list \<Rightarrow> uuid \<Rightarrow> nat \<Rightarrow> rpc_event \<Rightarrow> db_item list cursor_map
     \<Rightarrow> (rpc_result \<times> db_item list cursor_map) option" where
  "db_handle_call C rows u now event m =
     (case (event_payload event, event_parse_method event) of
        (Some payload, Some (Inr method)) \<Rightarrow> Some (db_method C rows u now method payload m)
      | (Some payload, Some (Inl e)) \<Rightarrow> Some (Inl (rpc_error_from e), m)
      | _ \<Rightarrow> None)"

section \<open>The client\<close>

text \<open>
  A call the client makes at time \<open>now\<close>: its result is the payload of the reply, which is empty if the handler
  returned nothing.
\<close>

definition db_call ::
  "cursor_codec \<Rightarrow> db_item list \<Rightarrow> uuid \<Rightarrow> nat \<Rightarrow> string \<Rightarrow> bytes \<Rightarrow> db_item list cursor_map
     \<Rightarrow> (rpc_error + bytes) \<times> db_item list cursor_map" where
  "db_call C rows u now method payload m =
     (case db_method C rows u now method payload m of
        (Inr r, m') \<Rightarrow> (Inr (case r of Some v \<Rightarrow> v | None \<Rightarrow> []), m')
      | (Inl e, m') \<Rightarrow> (Inl e, m'))"

datatype demo_error = CallFailed rpc_error | DecodeFailed string

text \<open>
  The loops.  The list says when the calls are made, and when the cleaner of the server ran before each; the
  result is \<^const>\<open>None\<close> if the loop goes on after the last of them.
\<close>

definition cleaned :: "nat option \<Rightarrow> 'c cursor_map \<Rightarrow> 'c cursor_map" where
  "cleaned tick m = (case tick of Some t \<Rightarrow> cleaner_tick t m | None \<Rightarrow> m)"

fun next_loop ::
  "cursor_codec \<Rightarrow> bytes \<Rightarrow> (nat \<times> nat option) list \<Rightarrow> customer list \<Rightarrow> db_item list cursor_map
     \<Rightarrow> (demo_error + customer list) option" where
  "next_loop C packed [] got m = None"
| "next_loop C packed ((now, tick) # ts) got m =
     (case db_call C [] 0 now ''N'' packed (cleaned tick m) of
        (Inl e, m') \<Rightarrow> Some (Inl (CallFailed e))
      | (Inr data, m') \<Rightarrow>
          if data = [] then Some (Inr got)
          else (case dec_customer C data of
                  Inl e \<Rightarrow> Some (Inl (DecodeFailed e))
                | Inr cu \<Rightarrow> next_loop C packed ts (got @ [cu]) m'))"

fun bulk_loop ::
  "cursor_codec \<Rightarrow> usize \<Rightarrow> bytes \<Rightarrow> (nat \<times> nat option) list \<Rightarrow> customer list \<Rightarrow> db_item list cursor_map
     \<Rightarrow> (demo_error + customer list) option" where
  "bulk_loop C bulk_size packed [] got m = None"
| "bulk_loop C bulk_size packed ((now, tick) # ts) got m =
     (case db_call C [] 0 now ''NB'' packed (cleaned tick m) of
        (Inl e, m') \<Rightarrow> Some (Inl (CallFailed e))
      | (Inr data, m') \<Rightarrow>
          (case dec_customers C data of
             Inl e \<Rightarrow> Some (Inl (DecodeFailed e))
           | Inr customers \<Rightarrow>
               if length customers < bulk_size then Some (Inr (got @ customers))
               else bulk_loop C bulk_size packed ts (got @ customers) m'))"

text \<open>\<open>get\<close> is the part of \<open>main\<close> before a loop: it asks for a cursor and packs its payload again.\<close>

definition get_cursor ::
  "cursor_codec \<Rightarrow> db_item list \<Rightarrow> uuid \<Rightarrow> nat \<Rightarrow> (payload \<Rightarrow> payload) \<Rightarrow> db_item list cursor_map
     \<Rightarrow> (demo_error + bytes) \<times> db_item list cursor_map" where
  "get_cursor C rows u now adjust m =
     (case db_call C rows u now ''Ccustomers'' [] m of
        (Inl e, m') \<Rightarrow> (Inl (CallFailed e), m')
      | (Inr data, m') \<Rightarrow>
          (case dec_payload C data of
             Inl e \<Rightarrow> (Inl (DecodeFailed e), m')
           | Inr p \<Rightarrow>
               (case enc_payload C (adjust p) of
                  Inl e \<Rightarrow> (Inl (DecodeFailed e), m')
                | Inr packed \<Rightarrow> (Inr packed, m'))))"

definition client_one_by_one ::
  "cursor_codec \<Rightarrow> db_item list \<Rightarrow> uuid \<Rightarrow> nat \<Rightarrow> (nat \<times> nat option) list \<Rightarrow> db_item list cursor_map
     \<Rightarrow> (demo_error + customer list) option" where
  "client_one_by_one C rows u now ts m =
     (case get_cursor C rows u now id m of
        (Inl e, m') \<Rightarrow> Some (Inl e)
      | (Inr packed, m') \<Rightarrow> next_loop C packed ts [] m')"

definition client_bulk ::
  "cursor_codec \<Rightarrow> usize \<Rightarrow> db_item list \<Rightarrow> uuid \<Rightarrow> nat \<Rightarrow> (nat \<times> nat option) list \<Rightarrow> db_item list cursor_map
     \<Rightarrow> (demo_error + customer list) option" where
  "client_bulk C bulk_size rows u now ts m =
     (case get_cursor C rows u now (set_bulk_number bulk_size) m of
        (Inl e, m') \<Rightarrow> Some (Inl e)
      | (Inr packed, m') \<Rightarrow> bulk_loop C bulk_size packed ts [] m')"

section \<open>The transfer\<close>

definition row_of :: "customer \<Rightarrow> db_item" where
  "row_of cu = DbRow (Some (cs_id cu)) (Some (cs_name cu))"

text \<open>The cleaner runs within the time to live after the call before.\<close>

fun timely :: "nat \<Rightarrow> (nat \<times> nat option) list \<Rightarrow> bool" where
  "timely t [] = True"
| "timely t ((now, tick) # ts) = ((case tick of Some k \<Rightarrow> k \<le> t + CURSOR_TTL | None \<Rightarrow> True) \<and> timely now ts)"

text \<open>The cursor \<open>u\<close> was used at \<open>t\<close> and has the rows \<open>cs\<close> left.\<close>

definition cursor_at :: "uuid \<Rightarrow> nat \<Rightarrow> customer list \<Rightarrow> db_item list cursor_map \<Rightarrow> bool" where
  "cursor_at u t cs m \<longleftrightarrow>
     m u = Some \<lparr>cu_state = map row_of cs, cu_meta = \<lparr>m_finished = False, m_expires = t + CURSOR_TTL, m_ttl = CURSOR_TTL\<rparr>\<rparr>"

lemma row_customer_of [simp]: "row_customer (row_of cu) = Some cu"
  by (simp add: row_of_def)

lemma cursor_at_cleaned:
  "cursor_at u t cs m \<Longrightarrow> timely t ((now, tick) # ts) \<Longrightarrow> cursor_at u t cs (cleaned tick m)"
  by (auto simp: cursor_at_def cleaned_def cleaner_tick_Some is_alive_def is_expired_def split: option.splits)

lemma cursor_at_new: "cursor_at u now cs (snd (cursor_add u (customer_cursor_new now (map row_of cs)) m))"
  by (simp add: cursor_at_def cursor_add_def customer_cursor_new_def meta_new_def)

lemma fetch_bulk_rows:
  "length acc < n \<Longrightarrow> fetch_bulk n acc (map row_of cs) =
     (Some (acc @ take (n - length acc) cs), map row_of (drop (n - length acc) cs))"
proof (induction cs arbitrary: acc)
  case (Cons cu cs)
  show ?case
  proof (cases "Suc (length acc) = n")
    case False
    with Cons.prems have "length (acc @ [cu]) < n" "n - length acc = Suc (n - Suc (length acc))" by simp_all
    with Cons.IH [of "acc @ [cu]"] False show ?thesis by simp
  qed auto
qed simp

locale cursor_transfer =
  fixes C :: cursor_codec and customers :: "customer list" and u :: uuid and n :: usize
  assumes customer_codec: "cu \<in> set customers \<Longrightarrow>
      \<exists>v. v \<noteq> [] \<and> enc_customer C cu = Inr v \<and> dec_customer C v = Inr cu"
    and customers_codec: "set l \<subseteq> set customers \<Longrightarrow> \<exists>v. enc_customers C l = Inr v \<and> dec_customers C v = Inr l"
    and payload_codec: "p \<in> {payload_from u, set_bulk_number n (payload_from u)} \<Longrightarrow>
      \<exists>v. enc_payload C p = Inr v \<and> dec_payload C v = Inr p"
begin

lemma call_next:
  assumes "cursor_at u t cs m" and "dec_payload C packed = Inr p" and "pl_u p = u" and "set cs \<subseteq> set customers"
  shows "cs = [] \<Longrightarrow> \<exists>m'. db_call C rows u' now ''N'' packed m = (Inr [], m')"
    and "cs = cu # cs' \<Longrightarrow> \<exists>v m'. db_call C rows u' now ''N'' packed m = (Inr v, m') \<and> v \<noteq> [] \<and>
      dec_customer C v = Inr cu \<and> cursor_at u now cs' m'"
proof -
  show "\<exists>m'. db_call C rows u' now ''N'' packed m = (Inr [], m')" if "cs = []"
    using assms that by (simp add: db_call_def db_method_def cursor_next_def cursor_at_def customer_next_def)
  show "\<exists>v m'. db_call C rows u' now ''N'' packed m = (Inr v, m') \<and> v \<noteq> [] \<and>
      dec_customer C v = Inr cu \<and> cursor_at u now cs' m'" if "cs = cu # cs'"
    using assms that customer_codec [of cu]
    by (auto simp: db_call_def db_method_def cursor_next_def cursor_at_def customer_next_def encoded_def touch_def)
qed

lemma next_loop_all:
  assumes "cursor_at u t cs m" and "timely t ts" and "length cs < length ts"
    and "dec_payload C packed = Inr p" and "pl_u p = u" and "set cs \<subseteq> set customers"
  shows "next_loop C packed ts got m = Some (Inr (got @ cs))"
  using assms
proof (induction ts arbitrary: t cs m got)
  case (Cons a ts)
  obtain now tick where a: "a = (now, tick)" by force
  have at: "cursor_at u t cs (cleaned tick m)" using cursor_at_cleaned Cons.prems(1,2) a by blast
  show ?case
  proof (cases cs)
    case Nil
    then show ?thesis using call_next(1) [OF at Cons.prems(4,5,6) Nil, of "[]" 0 now] a by auto
  next
    case (Cons cu cs')
    then show ?thesis
      using call_next(2) [OF at Cons.prems(4,5,6) Cons, of "[]" 0 now] a Cons.prems
        Cons.IH [of now cs' _ "got @ [cu]"] by auto
  qed
qed simp

lemma call_bulk:
  assumes at: "cursor_at u t cs m" and p: "dec_payload C packed = Inr p" "pl_u p = u" "bulk_number p = n"
    and cs: "set cs \<subseteq> set customers" and n: "0 < n"
  shows "\<exists>v m'. db_call C rows u' now ''NB'' packed m = (Inr v, m') \<and> dec_customers C v = Inr (take n cs) \<and>
    (n \<le> length cs \<longrightarrow> cursor_at u now (drop n cs) m')"
proof -
  obtain v where v: "enc_customers C (take n cs) = Inr v" "dec_customers C v = Inr (take n cs)"
    using customers_codec [of "take n cs"] cs set_take_subset [of n cs] by blast
  show ?thesis
    using at p n v fetch_bulk_rows [of "[]" n cs]
    by (auto simp: db_call_def db_method_def cursor_next_bulk_def cursor_at_def customer_next_bulk_def encoded_def touch_def)
qed

lemma bulk_loop_all:
  assumes "cursor_at u t cs m" and "timely t ts" and "length cs div n < length ts"
    and "dec_payload C packed = Inr p" and "pl_u p = u" and "bulk_number p = n" and "set cs \<subseteq> set customers" and "0 < n"
  shows "bulk_loop C n packed ts got m = Some (Inr (got @ cs))"
  using assms
proof (induction ts arbitrary: t cs m got)
  case (Cons a ts)
  obtain now tick where a: "a = (now, tick)" by force
  have at: "cursor_at u t cs (cleaned tick m)" using cursor_at_cleaned Cons.prems(1,2) a by blast
  obtain v m' where v: "db_call C [] 0 now ''NB'' packed (cleaned tick m) = (Inr v, m')"
      "dec_customers C v = Inr (take n cs)" "n \<le> length cs \<longrightarrow> cursor_at u now (drop n cs) m'"
    using call_bulk [OF at Cons.prems(4-8)] by blast
  show ?case
  proof (cases "n \<le> length cs")
    case True
    then have "length (drop n cs) div n < length ts" using Cons.prems(3,8) by (simp add: le_div_geq)
    moreover have "set (drop n cs) \<subseteq> set customers" using Cons.prems(7) set_drop_subset [of n cs] by blast
    ultimately show ?thesis
      using Cons.IH [of now "drop n cs" m' "got @ take n cs"] v True Cons.prems a by simp
  next
    case False
    then show ?thesis using v a by simp
  qed
qed simp

lemma get_cursor_ok:
  "f (payload_from u) \<in> {payload_from u, set_bulk_number n (payload_from u)} \<Longrightarrow>
     \<exists>packed m'. get_cursor C (map row_of cs) u now f m = (Inr packed, m') \<and>
     dec_payload C packed = Inr (f (payload_from u)) \<and> cursor_at u now cs m'"
proof -
  assume f: "f (payload_from u) \<in> {payload_from u, set_bulk_number n (payload_from u)}"
  obtain v where v: "enc_payload C (payload_from u) = Inr v" "dec_payload C v = Inr (payload_from u)"
    using payload_codec by blast
  obtain packed where "enc_payload C (f (payload_from u)) = Inr packed" "dec_payload C packed = Inr (f (payload_from u))"
    using payload_codec [OF f] by blast
  with v show ?thesis using cursor_at_new [of u now cs m]
    by (simp add: get_cursor_def db_call_def db_method_def encoded_def cursor_add_def)
qed

text \<open>Both loops of the client get all rows, in order and once each.\<close>

lemma client_gets_all:
  assumes "timely now ts" and "length customers < length ts"
  shows "client_one_by_one C (map row_of customers) u now ts m = Some (Inr customers)"
proof -
  obtain packed m' where "get_cursor C (map row_of customers) u now id m = (Inr packed, m')"
      "dec_payload C packed = Inr (payload_from u)" "cursor_at u now customers m'"
    using get_cursor_ok [of id customers now m] by auto
  then show ?thesis
    using next_loop_all [of now customers m' ts packed "payload_from u"] assms
    by (simp add: client_one_by_one_def payload_from_def)
qed

lemma client_gets_all_bulk:
  assumes "timely now ts" and "0 < n" and "length customers div n < length ts"
  shows "client_bulk C n (map row_of customers) u now ts m = Some (Inr customers)"
proof -
  obtain packed m' where "get_cursor C (map row_of customers) u now (set_bulk_number n) m = (Inr packed, m')"
      "dec_payload C packed = Inr (set_bulk_number n (payload_from u))" "cursor_at u now customers m'"
    using get_cursor_ok [of "set_bulk_number n" customers now m] by auto
  then show ?thesis
    using bulk_loop_all [of now customers m' ts packed "set_bulk_number n (payload_from u)"] assms
    by (simp add: client_bulk_def payload_from_def set_bulk_number_def bulk_number_def)
qed

end

text \<open>A cursor that was not used for longer than its time to live is lost with the next run of the cleaner.\<close>

lemma cursor_expires:
  assumes "cursor_at u t cs m" and "t + CURSOR_TTL < k" and "dec_payload C packed = Inr p" and "pl_u p = u"
  shows "next_loop C packed ((now, Some k) # ts) got m = Some (Inl (CallFailed (rpc_error_not_found None)))"
proof -
  have "cleaned (Some k) m u = None"
    using assms(1,2) by (simp add: cleaned_def cleaner_tick_def cursor_at_def is_alive_def is_expired_def)
  with assms(3,4) show ?thesis by (simp add: db_call_def db_method_def cursor_next_def)
qed

text \<open>A bulk call that meets an error loses the rows it had read before it.\<close>

lemma bulk_error_loses:
  assumes "length cs < n" and "\<forall>cu. row_customer item \<noteq> Some cu"
  shows "fetch_bulk n [] (map row_of cs @ item # s) = (None, s)"
proof -
  have "fetch_bulk n acc (map row_of cs @ item # s) = (None, s)" if "length acc + length cs < n" for acc
    using that assms(2) by (induction cs arbitrary: acc) (auto split: option.splits)
  from this [of "[]"] assms(1) show ?thesis by simp
qed

section \<open>A codec\<close>

text \<open>
  One byte for each row, which is enough for ids below 256 of customers that have their id as name, and one
  for the payload of a cursor.
\<close>

definition demo_customer :: "u8 \<Rightarrow> customer" where
  "demo_customer b = \<lparr>cs_id = ucast b, cs_name = show_nat (unat b)\<rparr>"

definition demo_uuid :: uuid where "demo_uuid = 7"

definition demo_codec :: cursor_codec where
  "demo_codec = \<lparr>enc_customer = \<lambda>cu. Inr [ucast (cs_id cu)], dec_customer = \<lambda>v. Inr (demo_customer (hd v)),
     enc_customers = \<lambda>l. Inr (map (\<lambda>cu. ucast (cs_id cu)) l), dec_customers = \<lambda>v. Inr (map demo_customer v),
     enc_payload = \<lambda>p. Inr [case pl_n p of None \<Rightarrow> 0 | Some k \<Rightarrow> word_of_nat k],
     dec_payload = \<lambda>v. Inr \<lparr>pl_u = demo_uuid, pl_n = if hd v = 0 then None else Some (unat (hd v))\<rparr>\<rparr>"

definition demo_customers :: "customer list" where
  "demo_customers = map demo_customer [3, 1, 4, 1, 5]"

lemma demo_customer_id: "ucast (cs_id (demo_customer b)) = b"
  by (simp add: demo_customer_def unsigned_ucast_eq take_bit_word_eq_self)

interpretation demo: cursor_transfer demo_codec demo_customers demo_uuid 2
proof unfold_locales
  fix cu l p
  show "\<exists>v. v \<noteq> [] \<and> enc_customer demo_codec cu = Inr v \<and> dec_customer demo_codec v = Inr cu"
    if "cu \<in> set demo_customers"
    using that by (auto simp: demo_codec_def demo_customers_def demo_customer_id)
  show "\<exists>v. enc_customers demo_codec l = Inr v \<and> dec_customers demo_codec v = Inr l" if "set l \<subseteq> set demo_customers"
  proof -
    have "cu \<in> set l \<Longrightarrow> demo_customer (ucast (cs_id cu)) = cu" for cu
      using that by (auto simp: demo_customers_def demo_customer_id subset_iff)
    then have "map (\<lambda>cu. demo_customer (ucast (cs_id cu))) l = l" by (simp add: map_idI)
    then show ?thesis by (simp add: demo_codec_def comp_def)
  qed
  show "\<exists>v. enc_payload demo_codec p = Inr v \<and> dec_payload demo_codec v = Inr p"
    if "p \<in> {payload_from demo_uuid, set_bulk_number 2 (payload_from demo_uuid)}"
    using that by (auto simp: demo_codec_def payload_from_def set_bulk_number_def)
qed

end
