(* ===== verification/Bus_Comm.thy ===== *)
theory Bus_Comm
  imports Bus_Writer
begin

text \<open>
  The buffered writer of \<open>src/src/comm.rs\<close>: a \<open>BufWriter\<close> that is flushed at once, or by a flusher task a
  short time after a write asked for it.  The \<open>BufWriter\<close> itself belongs to \<open>tokio\<close>: its two operations are
  an argument, and the locale \<open>buf_writer\<close> states what it promises when they succeed.
\<close>

section \<open>The buffer below\<close>

record 'w buf_ops =
  bw_write_all :: "bytes \<Rightarrow> 'w \<Rightarrow> io_kind option \<times> 'w"
  bw_flush :: "'w \<Rightarrow> io_kind option \<times> 'w"

text \<open>\<open>out\<close> is what reached the socket, \<open>pend\<close> what is still in the buffer.\<close>

locale buf_writer =
  fixes ops :: "'w buf_ops" and out :: "'w \<Rightarrow> bytes" and pend :: "'w \<Rightarrow> bytes"
  assumes write_ok: "bw_write_all ops d w = (None, w') \<Longrightarrow>
      out w' @ pend w' = out w @ pend w @ d \<and> prefix (out w) (out w')"
    and flush_ok: "bw_flush ops w = (None, w') \<Longrightarrow> out w' = out w @ pend w \<and> pend w' = []"

text \<open>
  A buffer of a given capacity in front of a socket that accepts everything: it is emptied when the new
  bytes do not fit, and bytes that would fill it alone go past it.
\<close>

definition ref_buf :: "(nat \<times> bytes \<times> bytes) buf_ops" where
  "ref_buf = \<lparr>
     bw_write_all = (\<lambda>d (cap, sent, buf).
       let (sent1, buf1) = (if length buf + length d > cap then (sent @ buf, []) else (sent, buf))
       in (None, if length d \<ge> cap then (cap, sent1 @ buf1 @ d, []) else (cap, sent1, buf1 @ d))),
     bw_flush = (\<lambda>(cap, sent, buf). (None, (cap, sent @ buf, [])))\<rparr>"

interpretation ref_bw: buf_writer ref_buf "\<lambda>(cap, sent, buf). sent" "\<lambda>(cap, sent, buf). buf"
  by unfold_locales (auto simp: ref_buf_def Let_def split: if_splits)

section \<open>The writer\<close>

text \<open>
  \<open>tw_token\<close> says whether the channel of capacity one to the flusher holds a token.  The flusher waits for
  a token, sleeps for the time to live of the buffer, flushes, and starts again; dropping the writer stops it
  and wakes a task that flushes once.
\<close>

datatype flusher = FlusherIdle | FlusherSleeping | FlusherStopped

datatype drop_task = DropWaiting | DropSignalled | DropDone

record 'w ttl_writer =
  tw_writer :: 'w
  tw_token :: bool
  tw_flusher :: flusher
  tw_drop :: drop_task

definition ttl_new :: "'w \<Rightarrow> 'w ttl_writer" where
  "ttl_new w = \<lparr>tw_writer = w, tw_token = False, tw_flusher = FlusherIdle, tw_drop = DropWaiting\<rparr>"

text \<open>
  \<open>write\<close>: the error of a flush goes before the error of the write.  The send into the channel does not
  wait, since the channel is empty then.
\<close>

definition ttl_write :: "'w buf_ops \<Rightarrow> bytes \<Rightarrow> Flush \<Rightarrow> 'w ttl_writer \<Rightarrow> io_kind option \<times> 'w ttl_writer" where
  "ttl_write ops buf flush s =
     (let (result, w) = bw_write_all ops buf (tw_writer s); s1 = s\<lparr>tw_writer := w\<rparr>
      in if flush = FlushInstant then
           (case bw_flush ops w of
              (Some e, w') \<Rightarrow> (Some e, s1\<lparr>tw_writer := w'\<rparr>)
            | (None, w') \<Rightarrow> (result, s1\<lparr>tw_writer := w'\<rparr>))
         else if flush = FlushScheduled \<and> \<not> tw_token s then
           (result, if tw_flusher s = FlusherStopped then s1 else s1\<lparr>tw_token := True\<rparr>)
         else (result, s1))"

text \<open>The flusher takes a token; later its timer has elapsed and it flushes, if it gets the lock in time.\<close>

definition flusher_recv :: "'w ttl_writer \<Rightarrow> 'w ttl_writer" where
  "flusher_recv s =
     (if tw_flusher s = FlusherIdle \<and> tw_token s
      then s\<lparr>tw_token := False, tw_flusher := FlusherSleeping\<rparr> else s)"

definition flusher_flush :: "'w buf_ops \<Rightarrow> bool \<Rightarrow> 'w ttl_writer \<Rightarrow> io_kind option \<times> 'w ttl_writer" where
  "flusher_flush ops locked s =
     (if tw_flusher s = FlusherSleeping then
        if locked then
          (case bw_flush ops (tw_writer s) of (r, w) \<Rightarrow> (r, s\<lparr>tw_writer := w, tw_flusher := FlusherIdle\<rparr>))
        else (Some (OtherIo ''lock timeout''), s\<lparr>tw_flusher := FlusherIdle\<rparr>)
      else (None, s))"

definition ttl_drop :: "'w ttl_writer \<Rightarrow> 'w ttl_writer" where
  "ttl_drop s = s\<lparr>tw_flusher := FlusherStopped, tw_drop := DropSignalled\<rparr>"

definition drop_flush :: "'w buf_ops \<Rightarrow> 'w ttl_writer \<Rightarrow> io_kind option \<times> 'w ttl_writer" where
  "drop_flush ops s =
     (if tw_drop s = DropSignalled then
        (case bw_flush ops (tw_writer s) of (r, w) \<Rightarrow> (r, s\<lparr>tw_writer := w, tw_drop := DropDone\<rparr>))
      else (None, s))"

section \<open>Runs\<close>

datatype ttl_event = EvWrite bytes Flush | EvRecv | EvFlush bool | EvDrop | EvDropFlush

fun ttl_step :: "'w buf_ops \<Rightarrow> ttl_event \<Rightarrow> 'w ttl_writer \<Rightarrow> io_kind option \<times> 'w ttl_writer" where
  "ttl_step ops (EvWrite d fl) s = ttl_write ops d fl s"
| "ttl_step ops EvRecv s = (None, flusher_recv s)"
| "ttl_step ops (EvFlush locked) s = flusher_flush ops locked s"
| "ttl_step ops EvDrop s = (None, ttl_drop s)"
| "ttl_step ops EvDropFlush s = drop_flush ops s"

text \<open>A run, and the errors in it.\<close>

fun ttl_run :: "'w buf_ops \<Rightarrow> ttl_event list \<Rightarrow> 'w ttl_writer \<Rightarrow> io_kind list \<times> 'w ttl_writer" where
  "ttl_run ops [] s = ([], s)"
| "ttl_run ops (ev # evs) s =
     (case ttl_step ops ev s of (r, s1) \<Rightarrow>
        (case ttl_run ops evs s1 of (es, s2) \<Rightarrow> ((case r of Some e \<Rightarrow> e # es | None \<Rightarrow> es), s2)))"

definition written :: "ttl_event list \<Rightarrow> bytes" where
  "written evs = concat (map (\<lambda>ev. case ev of EvWrite d _ \<Rightarrow> d | _ \<Rightarrow> []) evs)"

definition writes_of :: "ttl_event list \<Rightarrow> (bytes \<times> Flush) list" where
  "writes_of evs = concat (map (\<lambda>ev. case ev of EvWrite d fl \<Rightarrow> [(d, fl)] | _ \<Rightarrow> []) evs)"

text \<open>A flush is under way: a token waits, the flusher sleeps, or the task of the drop is to run.\<close>

definition flush_due :: "'w ttl_writer \<Rightarrow> bool" where
  "flush_due s \<longleftrightarrow> tw_flusher s \<noteq> FlusherStopped \<and> (tw_token s \<or> tw_flusher s = FlusherSleeping) \<or>
     tw_drop s = DropSignalled"

lemma written_writes: "written evs = wire_bytes (writes_of evs)"
  by (induction evs) (auto simp: written_def writes_of_def wire_bytes_def split: ttl_event.splits)

lemma writes_no_bytes: "writes_of evs = [] \<Longrightarrow> written evs = []"
  by (simp add: written_writes wire_bytes_def)

text \<open>The last write of a frame asks for a flush.\<close>

lemma frame_writes_last:
  "\<not> snd (frame_writes f) \<Longrightarrow> fst (frame_writes f) \<noteq> [] \<and> snd (last (fst (frame_writes f))) \<noteq> FlushNo"
  by (cases "f_kind f = KPrepared"; cases "frame_payload f")
    (auto simp: frame_writes_def flush_from_def Let_def split: option.splits)

lemma frames_writes_last:
  "\<forall>f \<in> set fs. \<not> snd (frame_writes f) \<Longrightarrow> fs \<noteq> [] \<Longrightarrow>
     concat (map (fst \<circ> frame_writes) fs) \<noteq> [] \<and> snd (last (concat (map (fst \<circ> frame_writes) fs))) \<noteq> FlushNo"
proof (induction fs)
  case (Cons f fs)
  then show ?case using frame_writes_last [of f] by (cases "fs = []") auto
qed simp

lemma ttl_run_append:
  "ttl_run ops (evs @ evs') s = (case ttl_run ops evs s of (es, s1) \<Rightarrow>
     case ttl_run ops evs' s1 of (es', s2) \<Rightarrow> (es @ es', s2))"
  by (induction evs arbitrary: s) (auto split: prod.splits option.splits)

lemma ttl_run_no_drop:
  assumes "EvDrop \<notin> set evs" and "tw_drop s = DropWaiting"
  shows "tw_drop (snd (ttl_run ops evs s)) = DropWaiting"
  using assms
proof (induction evs arbitrary: s)
  case (Cons ev evs)
  obtain r s1 where st: "ttl_step ops ev s = (r, s1)" by force
  then have "tw_drop s1 = DropWaiting"
    using Cons.prems
    by (cases ev) (auto simp: ttl_write_def flusher_recv_def flusher_flush_def drop_flush_def Let_def
        split: if_splits prod.splits option.splits)
  with Cons.IH [of s1] Cons.prems(1) st show ?case by (auto split: prod.splits)
qed simp

context buf_writer
begin

abbreviation sent :: "'w ttl_writer \<Rightarrow> bytes" where "sent s \<equiv> out (tw_writer s)"
abbreviation total :: "'w ttl_writer \<Rightarrow> bytes" where "total s \<equiv> out (tw_writer s) @ pend (tw_writer s)"

text \<open>A step without error adds the bytes it writes, and takes nothing back from the socket.\<close>

lemma ttl_step_total:
  assumes "ttl_step ops ev s = (None, s')"
  shows "total s' = total s @ written [ev]" "prefix (sent s) (sent s')"
proof -
  have f: "out w' @ pend w' = out w @ pend w \<and> prefix (out w) (out w')" if "bw_flush ops w = (None, w')" for w w'
    using flush_ok [OF that] by simp
  have "total s' = total s @ written [ev] \<and> prefix (sent s) (sent s')"
  proof (cases ev)
    case (EvWrite d fl)
    obtain r w where w: "bw_write_all ops d (tw_writer s) = (r, w)" by force
    have "r = None" "tw_writer s' = w \<or> bw_flush ops w = (None, tw_writer s')"
      using assms EvWrite w by (auto simp: ttl_write_def Let_def split: if_splits prod.splits option.splits)
    then show ?thesis
      using write_ok [of d "tw_writer s" w] w f [of w] EvWrite
      by (auto simp: written_def intro: prefix_order.trans)
  qed (use assms f in \<open>auto simp: written_def flusher_recv_def flusher_flush_def ttl_drop_def drop_flush_def
      split: if_splits prod.splits\<close>)
  then show "total s' = total s @ written [ev]" "prefix (sent s) (sent s')" by simp_all
qed

text \<open>A step without error that ends the wait for a flush has emptied the buffer.\<close>

lemma ttl_step_due:
  assumes "ttl_step ops ev s = (None, s')" and "flush_due s" and "\<not> flush_due s'"
  shows "sent s' = total s'"
  using assms flush_ok [of "tw_writer s" "tw_writer s'"]
  by (cases ev) (auto simp: flush_due_def ttl_write_def flusher_recv_def flusher_flush_def ttl_drop_def drop_flush_def
      Let_def split: if_splits prod.splits option.splits)

lemma ttl_write_due:
  assumes "ttl_step ops (EvWrite d fl) s = (None, s')" and "fl \<noteq> FlushNo" and "tw_flusher s \<noteq> FlusherStopped"
  shows "flush_due s' \<or> sent s' = total s'"
  using assms flush_ok [of _ "tw_writer s'"]
  by (cases fl) (auto simp: flush_due_def ttl_write_def Let_def split: if_splits prod.splits option.splits)

text \<open>So what a write asked to be flushed is flushed, or a flush is due.\<close>

lemma ttl_run_settles:
  assumes "ttl_run ops evs s = ([], s')" and "flush_due s \<or> prefix u (sent s)" and "prefix u (total s)"
  shows "flush_due s' \<or> prefix u (sent s')"
  using assms
proof (induction evs arbitrary: s)
  case (Cons ev evs)
  obtain r s1 where st: "ttl_step ops ev s = (r, s1)" by force
  with Cons.prems(1) have r: "ttl_step ops ev s = (None, s1)" "ttl_run ops evs s1 = ([], s')"
    by (auto split: prod.splits option.splits)
  have u: "prefix u (total s1)"
    using Cons.prems(3) ttl_step_total(1) [OF r(1)] by (metis prefix_append)
  have "flush_due s1 \<or> prefix u (sent s1)"
    using Cons.prems(2) ttl_step_due [OF r(1)] u ttl_step_total(2) [OF r(1)] prefix_order.trans by metis
  from Cons.IH [OF r(2) this u] show ?case .
qed simp

lemma ttl_run_total: "ttl_run ops evs s = ([], s') \<Longrightarrow> total s' = total s @ written evs"
proof (induction evs arbitrary: s)
  case (Cons ev evs)
  obtain r s1 where st: "ttl_step ops ev s = (r, s1)" by force
  with Cons.prems have r: "ttl_step ops ev s = (None, s1)" "ttl_run ops evs s1 = ([], s')"
    by (auto split: prod.splits option.splits)
  from Cons.IH [OF r(2)] ttl_step_total(1) [OF r(1)] show ?case by (simp add: written_def)
qed (simp add: written_def)

lemma ttl_run_prefix: "ttl_run ops evs s = ([], s') \<Longrightarrow> prefix (sent s) (sent s')"
proof (induction evs arbitrary: s)
  case (Cons ev evs)
  obtain r s1 where st: "ttl_step ops ev s = (r, s1)" by force
  with Cons.prems have r: "ttl_step ops ev s = (None, s1)" "ttl_run ops evs s1 = ([], s')"
    by (auto split: prod.splits option.splits)
  from Cons.IH [OF r(2)] ttl_step_total(2) [OF r(1)] show ?case by (rule prefix_order.trans [rotated])
qed simp

text \<open>One turn of the flusher is enough, and so is the task of the drop.\<close>

lemma flusher_turn:
  assumes "\<And>w. fst (bw_flush ops w) = None" and "tw_drop s = DropWaiting" and "flush_due s \<or> sent s = total s"
  shows "sent (snd (ttl_run ops [EvRecv, EvFlush True] s)) = total s"
  using assms(1) [of "tw_writer s"] assms(2,3) flush_ok [of "tw_writer s"]
  by (cases "tw_flusher s")
    (auto simp: flush_due_def flusher_recv_def flusher_flush_def split: prod.splits option.splits)

lemma drop_turn:
  assumes "\<And>w. fst (bw_flush ops w) = None"
  shows "sent (snd (ttl_run ops [EvDrop, EvDropFlush] s)) = total s"
  using assms [of "tw_writer s"] flush_ok [of "tw_writer s"]
  by (auto simp: ttl_drop_def drop_flush_def split: prod.splits option.splits)

text \<open>After the last write of a run, if it asks for a flush, everything is flushed or a flush is due.\<close>

lemma ttl_run_last_write:
  assumes "ttl_run ops evs s = ([], s')" and "writes_of evs \<noteq> []" and "snd (last (writes_of evs)) \<noteq> FlushNo"
    and "EvDrop \<notin> set evs" and "tw_flusher s \<noteq> FlusherStopped"
  shows "flush_due s' \<or> sent s' = total s'"
  using assms
proof (induction evs arbitrary: s)
  case (Cons ev evs)
  obtain r s1 where st: "ttl_step ops ev s = (r, s1)" by force
  with Cons.prems(1) have r: "ttl_step ops ev s = (None, s1)" "ttl_run ops evs s1 = ([], s')"
    by (auto split: prod.splits option.splits)
  have alive: "tw_flusher s1 \<noteq> FlusherStopped"
    using r(1) Cons.prems(4,5)
    by (cases ev) (auto simp: ttl_write_def flusher_recv_def flusher_flush_def drop_flush_def Let_def
        split: if_splits prod.splits option.splits)
  show ?case
  proof (cases "writes_of evs = []")
    case False
    then show ?thesis using Cons.IH [OF r(2) _ _ _ alive] Cons.prems by (simp add: writes_of_def)
  next
    case True
    then obtain d fl where ev: "ev = EvWrite d fl" "fl \<noteq> FlushNo"
      using Cons.prems(2,3) by (cases ev) (auto simp: writes_of_def)
    then have "flush_due s1 \<or> prefix (total s1) (sent s1)"
      using ttl_write_due [of d fl s s1] r(1) Cons.prems(5) by auto
    then have "flush_due s' \<or> prefix (total s1) (sent s')"
      by (rule ttl_run_settles [OF r(2)]) simp
    moreover have "total s' = total s1"
      using ttl_run_total [OF r(2)] True by (simp add: writes_no_bytes)
    ultimately show ?thesis by (auto simp: prefix_def)
  qed
qed (simp add: writes_of_def)

end

end
