(* ===== verification/Bus_Connect.thy ===== *)
theory Bus_Connect
  imports Bus_SyncIpc
begin

text \<open>
  How the clients connect (\<open>Client::connect\<close> of \<open>src/src/ipc.rs\<close> and \<open>src/src/sync/ipc.rs\<close>): the builder
  methods of the configurations, the choice of the transport by the path, opening the socket, the handshake,
  and the client that results.  What the operating system and the web socket crate answer is an argument.
\<close>

section \<open>Configurations\<close>

definition ipc_set_buf_size :: "usize \<Rightarrow> ipc_config \<Rightarrow> ipc_config" where
  "ipc_set_buf_size n cfg = cfg\<lparr>cfg_buf_size := n\<rparr>"
definition ipc_set_buf_ttl :: "duration \<Rightarrow> ipc_config \<Rightarrow> ipc_config" where
  "ipc_set_buf_ttl ttl cfg = cfg\<lparr>cfg_buf_ttl := ttl\<rparr>"
definition ipc_set_queue_size :: "usize \<Rightarrow> ipc_config \<Rightarrow> ipc_config" where
  "ipc_set_queue_size n cfg = cfg\<lparr>cfg_queue_size := n\<rparr>"
definition ipc_set_timeout :: "duration \<Rightarrow> ipc_config \<Rightarrow> ipc_config" where
  "ipc_set_timeout timeout cfg = cfg\<lparr>cfg_timeout := timeout\<rparr>"
definition ipc_set_token :: "string \<Rightarrow> ipc_config \<Rightarrow> ipc_config" where
  "ipc_set_token token cfg = cfg\<lparr>cfg_token := Some token\<rparr>"

definition sync_set_buf_size :: "usize \<Rightarrow> sync_config \<Rightarrow> sync_config" where
  "sync_set_buf_size n cfg = cfg\<lparr>ycfg_buf_size := n\<rparr>"
definition sync_set_queue_size :: "usize \<Rightarrow> sync_config \<Rightarrow> sync_config" where
  "sync_set_queue_size n cfg = cfg\<lparr>ycfg_queue_size := n\<rparr>"
definition sync_set_timeout :: "duration \<Rightarrow> sync_config \<Rightarrow> sync_config" where
  "sync_set_timeout timeout cfg = cfg\<lparr>ycfg_timeout := timeout\<rparr>"
definition sync_set_token :: "string \<Rightarrow> sync_config \<Rightarrow> sync_config" where
  "sync_set_token token cfg = cfg\<lparr>ycfg_token := Some token\<rparr>"

section \<open>Transports\<close>

datatype writer_kind = WUnix | WTcp | WWebSocket

definition ws_path :: "string \<Rightarrow> bool" where
  "ws_path path \<longleftrightarrow> prefix ''ws://'' path \<or> prefix ''wss://'' path"

definition unix_path :: "string \<Rightarrow> bool" where
  "unix_path path \<longleftrightarrow> suffix ''.sock'' path \<or> suffix ''.socket'' path \<or> suffix ''.ipc'' path \<or> prefix ''/'' path"

text \<open>The settings the web socket crate gets, from the clients and from the broker, and the request.\<close>

record ws_config =
  ws_read_buffer_size :: usize
  ws_write_buffer_size :: usize
  ws_max_write_buffer_size :: usize
  ws_max_message_size :: "usize option"
  ws_max_frame_size :: "usize option"

definition ws_config_of :: "usize \<Rightarrow> ws_config" where
  "ws_config_of buf_size =
     \<lparr>ws_read_buffer_size = buf_size, ws_write_buffer_size = buf_size, ws_max_write_buffer_size = buf_size * 2,
      ws_max_message_size = Some (2 ^ 32 - 1), ws_max_frame_size = Some (2 ^ 32 - 1)\<rparr>"

record ws_request =
  ws_uri :: string
  ws_authorization :: "string option"
  ws_settings :: ws_config

definition ws_request_of :: "ipc_config \<Rightarrow> ws_request" where
  "ws_request_of cfg =
     \<lparr>ws_uri = cfg_path cfg, ws_authorization = map_option (\<lambda>token. ''Bearer '' @ token) (cfg_token cfg),
      ws_settings = ws_config_of (cfg_buf_size cfg)\<rparr>"

text \<open>
  What opening a socket gives, and the outcomes of the calls that set it up; \<open>e_write\<close> says how the writes
  of the handshake end, and \<open>e_write_elapsed\<close> is the error of a write that takes longer than the write timeout of
  the socket.  The errors of the web socket crate are the texts they display.
\<close>

datatype 'e opened = Opened stream | OpenErr 'e | OpenNever

datatype hello_write = HelloWritten | HelloErr io_kind | HelloBlocked

record connect_env =
  e_uri :: "string \<Rightarrow> string option"
  e_ws :: "ws_request \<Rightarrow> string opened"
  e_unix :: "string \<Rightarrow> io_kind opened"
  e_tcp :: "string \<Rightarrow> io_kind opened"
  e_nodelay :: "io_kind option"
  e_write_timeout :: "io_kind option"
  e_clone :: "io_kind option"
  e_write :: "nat \<Rightarrow> hello_write"
  e_write_elapsed :: io_kind

text \<open>A connection: the writer, the client, and what its reader task goes on reading.\<close>

record 'c connection =
  cn_writer :: writer_kind
  cn_client :: 'c
  cn_stream :: stream
  cn_hello :: bytes

section \<open>The asynchronous client\<close>

text \<open>A write that does not end is ended by the timeout around \<open>connect_broker\<close>.\<close>

definition write_error :: "connect_env \<Rightarrow> nat \<Rightarrow> error option" where
  "write_error E n =
     (case e_write E n of HelloWritten \<Rightarrow> None | HelloErr k \<Rightarrow> Some (err_from_io k) | HelloBlocked \<Rightarrow> Some err_timeout)"

text \<open>\<open>connect_broker!\<close> and the end of \<open>connect_broker\<close>\<close>

definition connect_over ::
  "connect_env \<Rightarrow> ipc_config \<Rightarrow> writer_kind \<Rightarrow> stream \<Rightarrow> (error, ipc_client connection) eff" where
  "connect_over E cfg k s =
     (case chat (write_error E) (cfg_name cfg) s of
        (Inl e, _) \<Rightarrow> Bail e
      | (Inr s', hello) \<Rightarrow>
          Done \<lparr>cn_writer = k, cn_client = ipc_client_new cfg, cn_stream = s', cn_hello = hello\<rparr>)"

definition try_io :: "io_kind option \<Rightarrow> (error, 'a) eff \<Rightarrow> (error, 'a) eff" where
  "try_io r m = (case r of Some k \<Rightarrow> Bail (err_from_io k) | None \<Rightarrow> m)"

text \<open>What waits for ever is ended by the timeout around \<open>connect_broker\<close>.\<close>

definition connect_broker :: "connect_env \<Rightarrow> ipc_config \<Rightarrow> stream option \<Rightarrow> (error, ipc_client connection) eff" where
  "connect_broker E cfg given =
     (if ws_path (cfg_path cfg) then
        (case e_uri E (cfg_path cfg) of
           Some e \<Rightarrow> Bail (err_io [Shown (ExternError e)])
         | None \<Rightarrow>
             (case e_ws E (ws_request_of cfg) of
                OpenErr e \<Rightarrow> Bail (err_io [Shown (ExternError e)])
              | OpenNever \<Rightarrow> Bail err_timeout
              | Opened s \<Rightarrow> connect_over E cfg WWebSocket s))
      else if unix_path (cfg_path cfg) then
        (case (case given of Some s \<Rightarrow> Opened s | None \<Rightarrow> e_unix E (cfg_path cfg)) of
           OpenErr k \<Rightarrow> Bail (err_from_io k)
         | OpenNever \<Rightarrow> Bail err_timeout
         | Opened s \<Rightarrow> connect_over E cfg WUnix s)
      else
        (case e_tcp E (cfg_path cfg) of
           OpenErr k \<Rightarrow> Bail (err_from_io k)
         | OpenNever \<Rightarrow> Bail err_timeout
         | Opened s \<Rightarrow> try_io (e_nodelay E) (connect_over E cfg WTcp s)))"

definition ipc_connect :: "connect_env \<Rightarrow> ipc_config \<Rightarrow> (error, ipc_client connection) eff" where
  "ipc_connect E cfg = connect_broker E cfg None"

definition ipc_connect_stream :: "connect_env \<Rightarrow> stream \<Rightarrow> ipc_config \<Rightarrow> (error, ipc_client connection) eff" where
  "ipc_connect_stream E s cfg = connect_broker E cfg (Some s)"

text \<open>The end of the reader task, and the drop of the client.\<close>

definition reader_task_ended :: "ipc_client \<Rightarrow> ipc_client" where
  "reader_task_ended cl = cl\<lparr>i_connected := False\<rparr>"

definition ipc_drop :: "ipc_client \<Rightarrow> ipc_client" where
  "ipc_drop cl = cl\<lparr>i_reader_alive := False\<rparr>"

section \<open>The synchronous client\<close>

definition sync_client_new :: "sync_config \<Rightarrow> sync_client" where
  "sync_client_new cfg = \<lparr>y_name = ycfg_name cfg, y_frame_id = 0, y_responses = Map.empty,
     y_next_ticket = 0, y_results = Map.empty, y_connected = True, y_shutdown = False,
     y_written = [], y_config = cfg, y_secondary_counter = 0\<rparr>"

text \<open>The socket has a write timeout.\<close>

definition sync_write_error :: "connect_env \<Rightarrow> nat \<Rightarrow> error option" where
  "sync_write_error E n =
     (case e_write E n of HelloWritten \<Rightarrow> None | HelloErr k \<Rightarrow> Some (err_from_io k)
      | HelloBlocked \<Rightarrow> Some (err_from_io (e_write_elapsed E)))"

text \<open>It has no read timeout: a silent broker is waited for.\<close>

definition sync_chat :: "(nat \<Rightarrow> error option) \<Rightarrow> string \<Rightarrow> stream \<Rightarrow> (error, stream) eff \<times> bytes" where
  "sync_chat wfail name s =
     (if length name > 65535 then (Bail (err_data [Lit ''name too long'']), [])
      else case read_exact 3 s of
        ReadErr k \<Rightarrow> (Bail (err_from_io k), [])
      | ReadElapsed \<Rightarrow> (Pending, [])
      | Got buf s1 \<Rightarrow>
      if buf ! 0 \<noteq> GREETINGS ! 0 then (Bail (err_not_supported [Lit ''Invalid greetings'']), [])
      else if of_le16 (take 2 (drop 1 buf)) \<noteq> PROTOCOL_VERSION
      then (Bail (err_not_supported [Lit ''Unsupported protocol version'']), [])
      else case wfail 0 of Some e \<Rightarrow> (Bail e, []) | None \<Rightarrow>
      (case read_exact 1 s1 of
        ReadErr k \<Rightarrow> (Bail (err_from_io k), buf)
      | ReadElapsed \<Rightarrow> (Pending, buf)
      | Got r s2 \<Rightarrow>
      if r ! 0 \<noteq> RESPONSE_OK
      then (Bail (error_new (kind_from (r ! 0))
             (Some [Lit ''Server greetings response: '', Lit (show_nat (unat (r ! 0)))])), buf)
      else case wfail 1 of Some e \<Rightarrow> (Bail e, buf) | None \<Rightarrow>
      (let hello = buf @ le16 (word_of_nat (length name))
       in case wfail 2 of Some e \<Rightarrow> (Bail e, hello) | None \<Rightarrow>
      (case read_exact 1 s2 of
        ReadErr k \<Rightarrow> (Bail (err_from_io k), hello @ as_bytes name)
      | ReadElapsed \<Rightarrow> (Pending, hello @ as_bytes name)
      | Got q s3 \<Rightarrow>
      if q ! 0 \<noteq> RESPONSE_OK
      then (Bail (error_new (kind_from (q ! 0))
             (Some [Lit ''Server registration response: '', Lit (show_nat (unat (q ! 0)))])),
            hello @ as_bytes name)
      else (Done s3, hello @ as_bytes name)))))"

definition sync_connect_over ::
  "connect_env \<Rightarrow> sync_config \<Rightarrow> writer_kind \<Rightarrow> stream \<Rightarrow> (error, sync_client connection) eff" where
  "sync_connect_over E cfg k s =
     (case sync_chat (sync_write_error E) (ycfg_name cfg) s of
        (Bail e, _) \<Rightarrow> Bail e
      | (Pending, _) \<Rightarrow> Pending
      | (Done s', hello) \<Rightarrow>
          Done \<lparr>cn_writer = k, cn_client = sync_client_new cfg, cn_stream = s', cn_hello = hello\<rparr>)"

text \<open>\<^const>\<open>None\<close> is the panic of \<open>unimplemented!\<close>.\<close>

definition sync_connect_broker ::
  "connect_env \<Rightarrow> sync_config \<Rightarrow> stream option \<Rightarrow> (error, sync_client connection) eff option" where
  "sync_connect_broker E cfg given =
     (if ws_path (ycfg_path cfg) then None
      else if unix_path (ycfg_path cfg) then Some
        (case (case given of Some s \<Rightarrow> Opened s | None \<Rightarrow> e_unix E (ycfg_path cfg)) of
           OpenErr k \<Rightarrow> Bail (err_from_io k)
         | OpenNever \<Rightarrow> Pending
         | Opened s \<Rightarrow> try_io (e_write_timeout E) (try_io (e_clone E) (sync_connect_over E cfg WUnix s)))
      else Some
        (case e_tcp E (ycfg_path cfg) of
           OpenErr k \<Rightarrow> Bail (err_from_io k)
         | OpenNever \<Rightarrow> Pending
         | Opened s \<Rightarrow>
             try_io (e_write_timeout E) (try_io (e_nodelay E) (try_io (e_clone E)
               (sync_connect_over E cfg WTcp s)))))"

definition sync_connect :: "connect_env \<Rightarrow> sync_config \<Rightarrow> (error, sync_client connection) eff option" where
  "sync_connect E cfg = sync_connect_broker E cfg None"

definition sync_connect_stream ::
  "connect_env \<Rightarrow> stream \<Rightarrow> sync_config \<Rightarrow> (error, sync_client connection) eff option" where
  "sync_connect_stream E s cfg = sync_connect_broker E cfg (Some s)"

definition sync_drop :: "sync_client \<Rightarrow> sync_client" where
  "sync_drop cl = cl\<lparr>y_shutdown := True\<rparr>"

section \<open>The two ways to connect\<close>

text \<open>The configuration of the asynchronous client that corresponds to one of the synchronous client.\<close>

definition async_config :: "duration \<Rightarrow> sync_config \<Rightarrow> ipc_config" where
  "async_config ttl cfg = \<lparr>cfg_path = ycfg_path cfg, cfg_name = ycfg_name cfg, cfg_buf_size = ycfg_buf_size cfg,
     cfg_buf_ttl = ttl, cfg_queue_size = ycfg_queue_size cfg, cfg_timeout = ycfg_timeout cfg, cfg_token = ycfg_token cfg\<rparr>"

text \<open>
  Where a given outcome of the synchronous client can come from, in the asynchronous one: what waits for ever is
  a timeout; so is a write that blocks, which the write timeout of the socket ends; and the two calls that
  only the synchronous client makes may fail.
\<close>

definition corresponding ::
  "connect_env \<Rightarrow> ipc_config \<Rightarrow> (error, sync_client connection) eff \<Rightarrow> (error, ipc_client connection) eff \<Rightarrow> bool" where
  "corresponding E cfg r r' \<longleftrightarrow>
     (case r of
        Done cn \<Rightarrow> r' = Done \<lparr>cn_writer = cn_writer cn, cn_client = as_ipc cfg (cn_client cn),
                       cn_stream = cn_stream cn, cn_hello = cn_hello cn\<rparr>
      | Bail e \<Rightarrow> r' = Bail e \<or> (\<exists>n. e_write E n = HelloBlocked) \<and> e = err_from_io (e_write_elapsed E) \<and> r' = Bail err_timeout \<or>
          (\<exists>k. (e_write_timeout E = Some k \<or> e_clone E = Some k) \<and> e = err_from_io k)
      | Pending \<Rightarrow> r' = Bail err_timeout)"

lemma chat_sync_chat:
  assumes "\<And>n. fa n = None \<longleftrightarrow> fs n = None"
  shows "case sync_chat fs name s of
     (Done s', h) \<Rightarrow> chat fa name s = (Inr s', h)
   | (Bail e, h) \<Rightarrow> chat fa name s = (Inl e, h) \<or> (\<exists>n. fs n = Some e \<and> chat fa name s = (Inl (the (fa n)), h))
   | (Pending, h) \<Rightarrow> chat fa name s = (Inl err_timeout, h)"
proof (cases "read_exact 3 s")
  case g: (Got buf s1)
  show ?thesis
  proof (cases "read_exact 1 s1")
    case h: (Got r s2)
    show ?thesis
      using assms [of 0] assms [of 1] assms [of 2]
      by (cases "read_exact 1 s2"; cases "fs 0"; cases "fs 1"; cases "fs 2")
         (use g h in \<open>auto simp: chat_def sync_chat_def Let_def\<close>)
  qed (use g assms [of 0] in \<open>cases "fs 0"; auto simp: chat_def sync_chat_def\<close>)+
qed (simp_all add: chat_def sync_chat_def)

lemma connect_over_sync:
  "corresponding E (async_config ttl cfg) (sync_connect_over E cfg k s) (connect_over E (async_config ttl cfg) k s)"
proof -
  have n: "write_error E n = None \<longleftrightarrow> sync_write_error E n = None" for n
    by (simp add: write_error_def sync_write_error_def split: hello_write.splits)
  have b: "(\<exists>n. e_write E n = HelloBlocked) \<and> e = err_from_io (e_write_elapsed E) \<and> the (write_error E n) = err_timeout \<or>
      the (write_error E n) = e" if "sync_write_error E n = Some e" for n e
    using that by (auto simp: write_error_def sync_write_error_def split: hello_write.splits)
  obtain r h where r: "sync_chat (sync_write_error E) (ycfg_name cfg) s = (r, h)" by fastforce
  have nm: "cfg_name (async_config ttl cfg) = ycfg_name cfg" by (simp add: async_config_def)
  note c = chat_sync_chat [of "write_error E" "sync_write_error E" "ycfg_name cfg" s, OF n, unfolded r]
  show ?thesis
  proof (cases r)
    case (Bail e)
    with c have "chat (write_error E) (ycfg_name cfg) s = (Inl e, h) \<or>
        (\<exists>n. sync_write_error E n = Some e \<and> chat (write_error E) (ycfg_name cfg) s = (Inl (the (write_error E n)), h))" by simp
    then have "chat (write_error E) (ycfg_name cfg) s = (Inl e, h) \<or>
        (\<exists>n. e_write E n = HelloBlocked) \<and> e = err_from_io (e_write_elapsed E) \<and> chat (write_error E) (ycfg_name cfg) s = (Inl err_timeout, h)"
      using b [of _ e] by metis
    with Bail show ?thesis by (auto simp: corresponding_def connect_over_def sync_connect_over_def r nm)
  qed (use c in \<open>auto simp: corresponding_def connect_over_def sync_connect_over_def r nm async_config_def
        ipc_client_new_def sync_client_new_def as_ipc_def\<close>)
qed

lemma corresponding_try_io:
  "corresponding E cfg r r' \<Longrightarrow> corresponding E cfg (try_io x r) (try_io x r')"
  "corresponding E cfg r r' \<Longrightarrow> corresponding E cfg (try_io (e_write_timeout E) r) r'"
  "corresponding E cfg r r' \<Longrightarrow> corresponding E cfg (try_io (e_clone E) r) r'"
  by (cases x, simp_all add: try_io_def corresponding_def) (auto simp: try_io_def corresponding_def split: option.splits)

lemma connect_broker_sync:
  assumes "\<not> ws_path (ycfg_path cfg)"
  shows "\<exists>r. sync_connect_broker E cfg given = Some r \<and>
    corresponding E (async_config ttl cfg) r (connect_broker E (async_config ttl cfg) given)"
proof -
  have o: "corresponding E c (Bail e) (Bail e)" "corresponding E c Pending (Bail err_timeout)" for c e
    by (simp_all add: corresponding_def)
  have p: "cfg_path (async_config ttl cfg) = ycfg_path cfg" by (simp add: async_config_def)
  show ?thesis
    using assms
    by (cases given)
       (auto simp: connect_broker_def sync_connect_broker_def p o split: opened.splits
         intro!: corresponding_try_io connect_over_sync)
qed

end
