(* ===== verification/Bus_Server.thy ===== *)
theory Bus_Server
  imports Bus_CoreRpc Bus_Peer Bus_Connect
begin

text \<open>
  The servers of the broker (\<open>Broker\<close>, \<open>Options\<close>, \<open>spawn_server!\<close>, \<open>handle_connection\<close> of
  \<open>src/src/broker.rs\<close>): what a listener passes on to \<open>handle_peer\<close> for every connection it accepts.  The
  services are kept as data; a listener is run by one turn per event of its socket.  File names are the
  only files: which ones exist is a set.
\<close>

section \<open>The broker and its options\<close>

type_synonym allocator = "string \<Rightarrow> usize \<Rightarrow> usize option"

record options =
  op_force_register :: bool
  op_direct_alloc_limit :: "usize option"
  op_async_allocator :: "allocator option"

definition options_default :: options where
  "options_default = \<lparr>op_force_register = False, op_direct_alloc_limit = None, op_async_allocator = None\<rparr>"

definition options_force_register :: "bool \<Rightarrow> options \<Rightarrow> options" where
  "options_force_register force opts = opts\<lparr>op_force_register := force\<rparr>"

definition options_with_async_allocator :: "usize \<Rightarrow> allocator \<Rightarrow> options \<Rightarrow> options" where
  "options_with_async_allocator limit a opts =
     opts\<lparr>op_direct_alloc_limit := Some limit, op_async_allocator := Some a\<rparr>"

text \<open>What the task of a listener captures.\<close>

record 'am listener =
  l_path :: string
  l_config :: "'am server_config"
  l_queue_size :: usize
  l_direct_alloc_limit :: "usize option"
  l_async_allocator :: "allocator option"
  l_kind :: client_kind
  l_tls :: bool

datatype 'am service = Listening "'am listener" | FifoReader string usize

record ('sm, 'bm, 'am, 'ch) broker_app =
  ba_db :: "('sm, 'bm, 'am, 'ch) broker"
  ba_services :: "'am service list"
  ba_queue_size :: usize
  ba_direct_alloc_limit :: "usize option"
  ba_async_allocator :: "allocator option"

definition DEFAULT_QUEUE_SIZE :: usize where "DEFAULT_QUEUE_SIZE = 8192"

definition broker_app_new :: "('sm, 'bm, 'am, 'ch) ctx \<Rightarrow> ('sm, 'bm, 'am, 'ch) broker_app" where
  "broker_app_new X = \<lparr>ba_db = broker_db_default X, ba_services = [], ba_queue_size = DEFAULT_QUEUE_SIZE,
     ba_direct_alloc_limit = None, ba_async_allocator = None\<rparr>"

definition broker_app_create :: "('sm, 'bm, 'am, 'ch) ctx \<Rightarrow> options \<Rightarrow> ('sm, 'bm, 'am, 'ch) broker_app" where
  "broker_app_create X opts =
     \<lparr>ba_db = broker_create X (op_force_register opts), ba_services = [], ba_queue_size = DEFAULT_QUEUE_SIZE,
      ba_direct_alloc_limit = op_direct_alloc_limit opts, ba_async_allocator = op_async_allocator opts\<rparr>"

definition set_queue_size :: "usize \<Rightarrow> ('sm, 'bm, 'am, 'ch) broker_app \<Rightarrow> ('sm, 'bm, 'am, 'ch) broker_app" where
  "set_queue_size queue_size k = k\<lparr>ba_queue_size := queue_size\<rparr>"

definition sc_set_buf_size :: "usize \<Rightarrow> 'am server_config \<Rightarrow> 'am server_config" where
  "sc_set_buf_size n cfg = cfg\<lparr>sc_buf_size := n\<rparr>"
definition sc_set_buf_ttl :: "duration \<Rightarrow> 'am server_config \<Rightarrow> 'am server_config" where
  "sc_set_buf_ttl ttl cfg = cfg\<lparr>sc_buf_ttl := ttl\<rparr>"
definition sc_set_timeout :: "duration \<Rightarrow> 'am server_config \<Rightarrow> 'am server_config" where
  "sc_set_timeout timeout cfg = cfg\<lparr>sc_timeout := timeout\<rparr>"
definition sc_set_aaa_map :: "(string \<rightharpoonup> 'am client_aaa) \<Rightarrow> 'am server_config \<Rightarrow> 'am server_config" where
  "sc_set_aaa_map m cfg = cfg\<lparr>sc_aaa_map := Some m\<rparr>"
definition sc_set_payload_size_limit :: "u32 \<Rightarrow> 'am server_config \<Rightarrow> 'am server_config" where
  "sc_set_payload_size_limit n cfg = cfg\<lparr>sc_payload_size_limit := Some n\<rparr>"

section \<open>Connections\<close>

datatype sock_addr = UnixAddr | InetAddr ip_addr u16

text \<open>\<open>impl From<..SocketAddr> for ClientIp\<close>\<close>

fun client_ip_from :: "sock_addr \<Rightarrow> client_ip" where
  "client_ip_from UnixAddr = NoIp"
| "client_ip_from (InetAddr ip port) = Addr ip"

text \<open>\<open>prepare_unix_source\<close> and \<open>prepare_tcp_source\<close>; \<open>show_addr\<close> is the \<open>Display\<close> of an address.\<close>

fun prepare_source :: "(sock_addr \<Rightarrow> string) \<Rightarrow> sock_addr \<Rightarrow> string option" where
  "prepare_source show_addr UnixAddr = None"
| "prepare_source show_addr (InetAddr ip port) = Some (show_addr (InetAddr ip port))"

text \<open>The arguments \<open>handle_connection\<close> gives to \<open>handle_peer\<close>.\<close>

definition handle_connection ::
  "string \<Rightarrow> client_ip \<Rightarrow> 'am server_config \<Rightarrow> usize \<Rightarrow> usize option \<Rightarrow> client_kind \<Rightarrow> string option
     \<Rightarrow> allocator option \<Rightarrow> 'am peer_params" where
  "handle_connection socket_path ip config queue_size direct_alloc_limit kind client_source async_allocator =
     \<lparr>pp_timeout = sc_timeout config, pp_payload_size_limit = sc_payload_size_limit config,
      pp_aaa_map = sc_aaa_map config, pp_ip = ip, pp_queue_size = queue_size, pp_kind = kind,
      pp_source = client_source, pp_source_port = Some socket_path,
      pp_allocator = (case (direct_alloc_limit, async_allocator) of
                        (Some limit, Some a) \<Rightarrow> Some (limit, a) | _ \<Rightarrow> None)\<rparr>"

datatype handshake = HandshakeOk | HandshakeErr string | HandshakeElapsed

text \<open>
  What the socket of a listener does: \<open>accept\<close> fails, or gives a stream with its address; then \<open>set_nodelay\<close>
  may fail, and for web sockets the TLS handshake and, with the given settings, the web socket handshake.
\<close>

datatype accept_event = AcceptErr io_kind | Accepted sock_addr "io_kind option" handshake "ws_config \<Rightarrow> handshake"

definition accept_connection :: "(sock_addr \<Rightarrow> string) \<Rightarrow> 'am listener \<Rightarrow> sock_addr \<Rightarrow> 'am peer_params" where
  "accept_connection show_addr l addr =
     handle_connection (l_path l) (client_ip_from addr) (l_config l) (l_queue_size l)
       (l_direct_alloc_limit l) (l_kind l) (prepare_source show_addr addr) (l_async_allocator l)"

text \<open>A turn of the loop of \<open>spawn_server!\<close>, where a Unix stream needs no preparation.\<close>

definition accept_stream ::
  "(sock_addr \<Rightarrow> string) \<Rightarrow> 'am listener \<Rightarrow> sock_addr \<Rightarrow> io_kind option \<Rightarrow> 'am peer_params option" where
  "accept_stream show_addr l addr prepared =
     (if l_kind l \<noteq> LocalIpc \<and> prepared \<noteq> None then None else Some (accept_connection show_addr l addr))"

text \<open>A turn of the loop of \<open>spawn_websocket_server\<close> and of the task it starts.\<close>

definition accept_websocket ::
  "(sock_addr \<Rightarrow> string) \<Rightarrow> 'am listener \<Rightarrow> sock_addr \<Rightarrow> io_kind option \<Rightarrow> handshake \<Rightarrow> (ws_config \<Rightarrow> handshake)
     \<Rightarrow> 'am peer_params option" where
  "accept_websocket show_addr l addr prepared tls ws =
     (if prepared \<noteq> None then None
      else if l_tls l \<and> tls \<noteq> HandshakeOk then None
      else if ws (ws_config_of (sc_buf_size (l_config l))) \<noteq> HandshakeOk then None
      else Some (accept_connection show_addr l addr))"

fun accept_turn :: "(sock_addr \<Rightarrow> string) \<Rightarrow> 'am listener \<Rightarrow> accept_event \<Rightarrow> 'am peer_params option" where
  "accept_turn show_addr l (AcceptErr e) = None"
| "accept_turn show_addr l (Accepted addr prepared tls ws) =
     (if l_kind l = WebSocket then accept_websocket show_addr l addr prepared tls ws
      else accept_stream show_addr l addr prepared)"

section \<open>Starting services\<close>

text \<open>The state is the set of existing files and the broker.\<close>

type_synonym ('sm, 'bm, 'am, 'ch, 'a) fact = "(string set \<times> ('sm, 'bm, 'am, 'ch) broker_app, error, 'a) act"

definition push_service ::
  "'am service \<Rightarrow> ('sm, 'bm, 'am, 'ch) broker_app \<Rightarrow> ('sm, 'bm, 'am, 'ch) broker_app" where
  "push_service v k = k\<lparr>ba_services := ba_services k @ [v]\<rparr>"

text \<open>\<open>spawn_server!\<close>\<close>

definition spawn_server ::
  "string \<Rightarrow> 'am server_config \<Rightarrow> client_kind \<Rightarrow> bool \<Rightarrow> ('sm, 'bm, 'am, 'ch) broker_app
     \<Rightarrow> ('sm, 'bm, 'am, 'ch) broker_app" where
  "spawn_server path config kind tls k =
     push_service (Listening \<lparr>l_path = path, l_config = config, l_queue_size = ba_queue_size k,
        l_direct_alloc_limit = ba_direct_alloc_limit k, l_async_allocator = ba_async_allocator k,
        l_kind = kind, l_tls = tls\<rparr>) k"

text \<open>\<open>bound\<close> is the error of \<open>bind\<close>, if it fails.\<close>

definition spawn_unix_server ::
  "io_kind option \<Rightarrow> string \<Rightarrow> 'am server_config \<Rightarrow> ('sm, 'bm, 'am, 'ch, unit) fact" where
  "spawn_unix_server bound path config s =
     (let fs = fst s - {path}
      in case bound of
           Some e \<Rightarrow> (Bail (err_from_io e), (fs, snd s))
         | None \<Rightarrow> (Done (), (insert path fs, spawn_server path config LocalIpc False (snd s))))"

definition spawn_tcp_server ::
  "io_kind option \<Rightarrow> string \<Rightarrow> 'am server_config \<Rightarrow> ('sm, 'bm, 'am, 'ch, unit) fact" where
  "spawn_tcp_server bound path config s =
     (case bound of
        Some e \<Rightarrow> (Bail (err_from_io e), s)
      | None \<Rightarrow> (Done (), (fst s, spawn_server path config Tcp False (snd s))))"

definition spawn_websocket_server ::
  "io_kind option \<Rightarrow> string \<Rightarrow> 'am server_config \<Rightarrow> bool \<Rightarrow> ('sm, 'bm, 'am, 'ch, unit) fact" where
  "spawn_websocket_server bound path config tls s =
     (case bound of
        Some e \<Rightarrow> (Bail (err_from_io e), s)
      | None \<Rightarrow> (Done (), (fst s, spawn_server path config WebSocket tls (snd s))))"

definition spawn_server_connection ::
  "'am server_config \<Rightarrow> ('sm, 'bm, 'am, 'ch) broker_app \<Rightarrow> 'am peer_params" where
  "spawn_server_connection config k =
     handle_connection [] NoIp config (ba_queue_size k) (ba_direct_alloc_limit k) LocalIpc None (ba_async_allocator k)"

text \<open>\<open>spawn_fifo\<close>: \<open>create\<close>, \<open>perm\<close> and \<open>open_read\<close> are the errors of the file operations, if they fail.\<close>

definition spawn_fifo ::
  "io_kind option \<Rightarrow> io_kind option \<Rightarrow> io_kind option \<Rightarrow> string \<Rightarrow> usize \<Rightarrow> ('sm, 'bm, 'am, 'ch, unit) fact" where
  "spawn_fifo create perm open_read path buf_size s =
     (if b_rpc_locked (ba_db (snd s)) then (Pending, s)
      else if b_rpc_client (ba_db (snd s)) = None
      then (Bail (err_not_supported [Lit BROKER_RPC_NOT_INIT_ERR]), s)
      else let fs = fst s - {path}
           in case create of
                Some e \<Rightarrow> (Bail (err_from_io e), (fs, snd s))
              | None \<Rightarrow>
                  (case (perm, open_read) of
                     (Some e, _) \<Rightarrow> (Bail (err_from_io e), (insert path fs, snd s))
                   | (None, Some e) \<Rightarrow> (Bail (err_from_io e), (insert path fs, snd s))
                   | (None, None) \<Rightarrow> (Done (), (insert path fs, push_service (FifoReader path buf_size) (snd s)))))"

text \<open>\<open>impl Drop for Broker\<close>: the services are aborted.\<close>

definition broker_app_drop :: "('sm, 'bm, 'am, 'ch) broker_app \<Rightarrow> ('sm, 'bm, 'am, 'ch) broker_app" where
  "broker_app_drop k = k\<lparr>ba_services := []\<rparr>"

section \<open>What a connection is checked against\<close>

lemma accept_turn_params:
  assumes "accept_turn show_addr l (Accepted addr prepared tls ws) = Some PP"
  shows "pp_ip PP = client_ip_from addr" "pp_aaa_map PP = sc_aaa_map (l_config l)" "pp_kind PP = l_kind l"
    "pp_queue_size PP = l_queue_size l" "pp_payload_size_limit PP = sc_payload_size_limit (l_config l)"
  using assms
  by (auto simp: accept_websocket_def accept_stream_def accept_connection_def handle_connection_def split: if_splits)

text \<open>A client that does not pass the access control is told so and not registered.\<close>

lemma handle_peer_denied:
  assumes hello: "str_ok name" "name \<noteq> []" "hd name \<noteq> CHR ''.''" "length name \<le> 65535" "\<And>k. wres k = Written"
    and map: "pp_aaa_map PP = Some m" "m (primary_of name) = Some a"
    and ip: "pp_ip PP = Addr addr" "\<not> connect_allowed X a addr"
  shows "\<exists>e. handle_peer X wres show_ip PP session
      (feed (GREETINGS @ le16 PROTOCOL_VERSION @ le16 (word_of_nat (length name)) @ as_bytes name) s) (b, []) =
      (Bail e, (b, [GREETINGS @ le16 PROTOCOL_VERSION, [RESPONSE_OK], [ERR_ACCESS]])) \<and> e_kind e = Access"
proof -
  let ?g = "GREETINGS @ le16 PROTOCOL_VERSION" and ?e = "err_access [Lit ''Client '', Lit name,
      Lit '' is not allowed to connect from '', Lit (show_ip addr)]"
  have "on_out (peer_hello wres (feed (GREETINGS @ le16 PROTOCOL_VERSION @ le16 (word_of_nat (length name)) @ as_bytes name) s))
      (b, []) = (Done (name, s), (b, [?g, [RESPONSE_OK]]))"
    unfolding on_out_def fst_conv snd_conv peer_hello_accepts [OF hello] by simp
  moreover have "on_out (peer_aaa X wres (pp_aaa_map PP) (pp_ip PP) show_ip name) (b, [?g, [RESPONSE_OK]]) =
      (Bail ?e, (b, [?g, [RESPONSE_OK], [ERR_ACCESS]]))"
    using map ip hello(5) by (simp add: on_out_def peer_aaa_def refuse_def write_and_flush_def act_then_def)
  ultimately show ?thesis
    by (intro exI [of _ ?e]) (simp only: handle_peer_def act_then_def eff.case prod.case err_kinds simp_thms)
qed

lemma peer_aaa_local:
  assumes "m (primary_of name) = Some a"
  shows "peer_aaa X wres (Some m) NoIp show_ip name out = (Done (Some a), out)"
  using assms by (simp add: peer_aaa_def)

end
