(* ===== verification/Bus_Daemon.thy ===== *)
theory Bus_Daemon
  imports Bus_Server
begin

text \<open>
  The broker daemon, \<open>src/src/server.rs\<close>: the start, which binds a service for every path of the command
  line, and the termination, which removes the files the daemon made and announces the shutdown to the
  clients.  Command-line parsing, the fork and the log output are left out.
\<close>

section \<open>State\<close>

text \<open>Durations are nanoseconds; \<open>o_timeout\<close> is the converted number of seconds.\<close>

record daemon_opts =
  o_path :: "string list"
  o_pid_file :: "string option"
  o_verbose :: bool
  o_daemonize :: bool
  o_log_syslog :: bool
  o_force_register :: bool
  o_workers :: usize
  o_timeout :: duration
  o_buf_size :: usize
  o_buf_ttl :: nat
  o_queue_size :: usize

text \<open>The statics \<open>PID_FILE\<close>, \<open>SOCK_FILES\<close>, \<open>BROKER\<close> and \<open>SERVER_ACTIVE\<close>, and the existing files.\<close>

record ('sm, 'bm, 'am, 'ch) daemon =
  d_fs :: "string set"
  d_pid_file :: "string option"
  d_sock_files :: "string list"
  d_broker :: "('sm, 'bm, 'am, 'ch) broker_app option"
  d_active :: bool

text \<open>The errors of the system calls, if they fail.\<close>

record daemon_env =
  de_pid :: "io_kind option"
  de_bind :: "string \<Rightarrow> io_kind option"
  de_create :: "string \<Rightarrow> io_kind option"
  de_perm :: "string \<Rightarrow> io_kind option"
  de_open :: "string \<Rightarrow> io_kind option"

section \<open>Start\<close>

text \<open>Where the log goes: \<open>disable_syslog\<close> is the environment variable, \<open>syslog_ok\<close> whether syslog answers.\<close>

datatype log_setup = StdoutTrace | StdoutInfo | SyslogInfo

definition choose_log :: "daemon_opts \<Rightarrow> string option \<Rightarrow> bool \<Rightarrow> log_setup" where
  "choose_log opts disable_syslog syslog_ok =
     (if o_verbose opts then StdoutTrace
      else if (\<not> o_daemonize opts \<or> (case disable_syslog of Some v \<Rightarrow> v | None \<Rightarrow> ''0'') = ''1'') \<and> \<not> o_log_syslog opts
      then StdoutInfo
      else if syslog_ok then SyslogInfo else StdoutInfo)"

definition strip_prefix :: "string \<Rightarrow> string \<Rightarrow> string option" where
  "strip_prefix p s = (if prefix p s then Some (drop (length p) s) else None)"

definition daemon_server_config :: "daemon_opts \<Rightarrow> 'am server_config" where
  "daemon_server_config opts =
     sc_set_timeout (o_timeout opts) (sc_set_buf_ttl (1000 * o_buf_ttl opts) (sc_set_buf_size (o_buf_size opts)
       server_config_default))"

text \<open>One path: \<^const>\<open>None\<close> is a panic (\<open>expect\<close>).\<close>

definition bind_path ::
  "daemon_env \<Rightarrow> daemon_opts \<Rightarrow> string \<Rightarrow> (string set \<times> ('sm, 'bm, 'am, 'ch) broker_app) \<times> string list
     \<Rightarrow> ((string set \<times> ('sm, 'bm, 'am, 'ch) broker_app) \<times> string list) option" where
  "bind_path E opts path st =
     (case st of (s, sock_files) \<Rightarrow>
        (case strip_prefix ''fifo:'' path of
           Some fifo \<Rightarrow>
             (case spawn_fifo (de_create E fifo) (de_perm E fifo) (de_open E fifo) fifo (o_buf_size opts) s of
                (Done _, s') \<Rightarrow> Some (s', sock_files @ [fifo])
              | _ \<Rightarrow> None)
         | None \<Rightarrow>
             if unix_path path then
               (case spawn_unix_server (de_bind E path) path (daemon_server_config opts) s of
                  (Done _, s') \<Rightarrow> Some (s', sock_files @ [path])
                | _ \<Rightarrow> None)
             else
               (case spawn_tcp_server (de_bind E path) path (daemon_server_config opts) s of
                  (Done _, s') \<Rightarrow> Some (s', sock_files)
                | _ \<Rightarrow> None)))"

fun bind_paths ::
  "daemon_env \<Rightarrow> daemon_opts \<Rightarrow> string list \<Rightarrow> (string set \<times> ('sm, 'bm, 'am, 'ch) broker_app) \<times> string list
     \<Rightarrow> ((string set \<times> ('sm, 'bm, 'am, 'ch) broker_app) \<times> string list) option" where
  "bind_paths E opts [] st = Some st"
| "bind_paths E opts (path # paths) st =
     (case bind_path E opts path st of Some st' \<Rightarrow> bind_paths E opts paths st' | None \<Rightarrow> None)"

text \<open>\<open>main\<close> from the pid file to the running broker, on the files \<open>fs\<close>.\<close>

definition daemon_start ::
  "('sm, 'bm, 'am, 'ch) ctx \<Rightarrow> daemon_env \<Rightarrow> daemon_opts \<Rightarrow> string set \<Rightarrow> ('sm, 'bm, 'am, 'ch) daemon option" where
  "daemon_start X E opts fs =
     (if o_pid_file opts \<noteq> None \<and> de_pid E \<noteq> None then None
      else let fs1 = fs \<union> set_option (o_pid_file opts);
               app = broker_app_create X (options_force_register (o_force_register opts) options_default)
           in case init_default_core_rpc X (ba_queue_size app) (ba_db app) of
                (Done _, db) \<Rightarrow>
                  (case bind_paths E opts (o_path opts)
                          ((fs1, set_queue_size (o_queue_size opts) (app\<lparr>ba_db := db\<rparr>)), []) of
                     Some ((fs2, app'), sock_files) \<Rightarrow>
                       Some \<lparr>d_fs = fs2, d_pid_file = o_pid_file opts, d_sock_files = sock_files,
                         d_broker = Some app', d_active = True\<rparr>
                   | None \<Rightarrow> None)
              | _ \<Rightarrow> None)"

section \<open>Termination\<close>

definition terminate ::
  "('sm, 'bm, 'am, 'ch) ctx \<Rightarrow> (('sm, 'bm, 'am, 'ch) daemon, error, unit) act" where
  "terminate X d =
     (let d1 = d\<lparr>d_fs := d_fs d - set_option (d_pid_file d) - set (d_sock_files d)\<rparr>
      in case d_broker d of
           None \<Rightarrow> (Done (), d1\<lparr>d_active := False\<rparr>)
         | Some k \<Rightarrow>
             (case log_err (broker_announce X event_shutdown) (ba_db k) of
                (Done _, b) \<Rightarrow> (Done (), d1\<lparr>d_broker := Some (k\<lparr>ba_db := b\<rparr>), d_active := False\<rparr>)
              | (Bail e, b) \<Rightarrow> (Bail e, d1\<lparr>d_broker := Some (k\<lparr>ba_db := b\<rparr>)\<rparr>)
              | (Pending, b) \<Rightarrow> (Pending, d1\<lparr>d_broker := Some (k\<lparr>ba_db := b\<rparr>)\<rparr>)))"

section \<open>The files of the daemon\<close>

lemma strip_prefix_fifo: "strip_prefix ''fifo:'' path = Some fifo \<longleftrightarrow> path = ''fifo:'' @ fifo"
  by (auto simp: strip_prefix_def prefix_def)

lemma bind_path_files:
  assumes "bind_path E opts path ((fs, k), socks) = Some ((fs', k'), socks')"
  shows "fs' \<union> set socks' = fs \<union> set socks \<union> set socks' \<and> set socks \<subseteq> set socks'"
  using assms
  by (auto simp: bind_path_def spawn_fifo_def spawn_unix_server_def spawn_tcp_server_def Let_def
      split: option.splits if_splits prod.splits eff.splits)

lemma bind_paths_files:
  "bind_paths E opts paths ((fs, k), socks) = Some ((fs', k'), socks') \<Longrightarrow>
     fs' \<union> set socks' = fs \<union> set socks \<union> set socks' \<and> set socks \<subseteq> set socks'"
proof (induction paths arbitrary: fs k socks)
  case (Cons path paths)
  then obtain fs1 k1 socks1 where 1: "bind_path E opts path ((fs, k), socks) = Some ((fs1, k1), socks1)"
    and 2: "bind_paths E opts paths ((fs1, k1), socks1) = Some ((fs', k'), socks')"
    by (auto split: option.splits)
  from bind_path_files [OF 1] Cons.IH [OF 2] show ?case by blast
qed auto

lemma daemon_start_files:
  fixes X :: "('sm, 'bm, 'am, 'ch) ctx"
  assumes "daemon_start X E opts fs = Some d"
  shows "d_fs d - set_option (d_pid_file d) - set (d_sock_files d) \<subseteq> fs"
proof -
  obtain fs2 and app app' :: "('sm, 'bm, 'am, 'ch) broker_app" where b: "bind_paths E opts (o_path opts) ((fs \<union> set_option (o_pid_file opts), app), []) =
      Some ((fs2, app'), d_sock_files d)" and d: "d_fs d = fs2" "d_pid_file d = o_pid_file opts"
    using assms by (auto simp: daemon_start_def Let_def split: if_splits prod.splits eff.splits option.splits)
  from bind_paths_files [OF b] d show ?thesis by auto
qed

text \<open>The core RPC client of a fresh broker can be set.\<close>

lemma init_default_core_rpc_fresh:
  "\<exists>db. init_default_core_rpc X q (broker_create X force) = (Done (), db) \<and>
     b_rpc_client db = Some 0 \<and> \<not> b_rpc_locked db \<and> \<not> b_core_locked db"
proof -
  have p: "primary_of BROKER_NAME = BROKER_NAME" by code_simp
  let ?cl = "bus_client_new X BROKER_NAME (primary_of BROKER_NAME) q Internal None None"
  let ?b = "(broker_create X force)\<lparr>b_objs := [?cl]\<rparr>"
  have c: "c_primary (obj ?b 0)" "c_name (obj ?b 0) = BROKER_NAME" by (simp_all add: bus_client_new_def p)
  have "register_entry X 0 ?b = (Inr (), inserted X 0 ?b)"
    using c by (simp add: register_entry_def inserted_def insert_client_def Let_def broker_create_def broker_db_default_def)
  moreover have "b_rpc_client (inserted X 0 ?b) = None" "\<not> b_rpc_locked (inserted X 0 ?b)" "\<not> b_core_locked (inserted X 0 ?b)"
    using c by (simp_all add: inserted_def insert_client_def Let_def broker_create_def broker_db_default_def)
  ultimately have "register_client X 0 ?b = (Done (), inserted X 0 ?b)"
    using c by (simp add: register_client_def log_err_def announce_no_core)
  moreover have "alloc ?cl (broker_create X force) = (0, ?b)"
    by (simp add: alloc_def broker_create_def broker_db_default_def)
  ultimately show ?thesis
    using \<open>\<not> b_rpc_locked (inserted X 0 ?b)\<close> \<open>\<not> b_core_locked (inserted X 0 ?b)\<close>
    by (simp add: init_default_core_rpc_def broker_register_client_def act_then_def set_core_rpc_client_def)
qed

text \<open>Which service a path gets.\<close>

definition service_for :: "daemon_opts \<Rightarrow> ('sm, 'bm, 'am, 'ch) broker_app \<Rightarrow> string \<Rightarrow> 'am service" where
  "service_for opts k path =
     (if prefix ''fifo:'' path then FifoReader (drop (length ''fifo:'') path) (o_buf_size opts)
      else Listening \<lparr>l_path = path, l_config = daemon_server_config opts, l_queue_size = ba_queue_size k,
        l_direct_alloc_limit = ba_direct_alloc_limit k, l_async_allocator = ba_async_allocator k,
        l_kind = (if unix_path path then LocalIpc else Tcp), l_tls = False\<rparr>)"

lemma bind_path_service:
  assumes "bind_path E opts path ((fs, k), socks) = Some ((fs', k'), socks')"
  shows "k' = push_service (service_for opts k path) k"
  using assms
  by (auto simp: bind_path_def spawn_fifo_def spawn_unix_server_def spawn_tcp_server_def spawn_server_def
      service_for_def strip_prefix_def Let_def split: option.splits if_splits prod.splits eff.splits)

lemma bind_paths_services:
  "bind_paths E opts paths ((fs, k), socks) = Some ((fs', k'), socks') \<Longrightarrow>
     k' = k\<lparr>ba_services := ba_services k @ map (service_for opts k) paths\<rparr>"
proof (induction paths arbitrary: fs k socks)
  case (Cons path paths)
  then obtain fs1 k1 socks1 where 1: "bind_path E opts path ((fs, k), socks) = Some ((fs1, k1), socks1)"
    and 2: "bind_paths E opts paths ((fs1, k1), socks1) = Some ((fs', k'), socks')"
    by (auto split: option.splits)
  have k1: "k1 = push_service (service_for opts k path) k" by (rule bind_path_service [OF 1])
  then have "service_for opts k1 = service_for opts k" by (auto simp: fun_eq_iff service_for_def push_service_def)
  with Cons.IH [OF 2] k1 show ?case by (simp add: push_service_def)
qed simp

lemma daemon_start_services:
  fixes X :: "('sm, 'bm, 'am, 'ch) ctx"
  assumes "daemon_start X E opts fs = Some d"
  shows "\<exists>k. d_broker d = Some k \<and> ba_services k = map (service_for opts k) (o_path opts) \<and> ba_queue_size k = o_queue_size opts"
proof -
  obtain fs2 db and app' :: "('sm, 'bm, 'am, 'ch) broker_app" where
    b: "bind_paths E opts (o_path opts) ((fs \<union> set_option (o_pid_file opts), set_queue_size (o_queue_size opts)
        ((broker_app_create X (options_force_register (o_force_register opts) options_default))\<lparr>ba_db := db\<rparr>)), []) =
      Some ((fs2, app'), d_sock_files d)" and d: "d_broker d = Some app'"
    using assms by (auto simp: daemon_start_def Let_def split: if_splits prod.splits eff.splits option.splits)
  show ?thesis
    using bind_paths_services [OF b] d
    by (auto simp: set_queue_size_def broker_app_create_def service_for_def)
qed

section \<open>The announcement of the shutdown\<close>

context broker_libs
begin

text \<open>An announcement whose subscribers all have room.\<close>

lemma announce_delivers:
  assumes inv: "dbi N b" and core: "b_rpc_client b = Some k"
    and free: "\<not> b_rpc_locked b" "\<not> b_core_locked b"
    and enc: "rmp_event X (ev_s ev) (ev_d ev) (now_ns X) = Inr payload"
    and room: "\<And>c. c \<in> recipients smv topic_match (not_excluded X (ev_topic ev)) (ev_topic ev) b \<Longrightarrow>
      \<not> ch_is_full X (c_tx (obj b c))"
  shows "\<exists>b'. announce X ev b = (Done (), b') \<and> \<not> b_rpc_locked b' \<and>
    (\<forall>c. if c \<in> recipients smv topic_match (not_excluded X (ev_topic ev)) (ev_topic ev) b
         then offered chq chcap chclosed (frame_new KPublish (Some (c_name (obj b k))) (Some (ev_topic ev)) None payload 0 False)
                (c_tx (obj b c)) (c_tx (obj b' c))
         else c_tx (obj b' c) = c_tx (obj b c))"
proof -
  let ?b = "b\<lparr>b_rpc_locked := True, b_core_locked := True\<rparr>"
  let ?k = "not_excluded X (ev_topic ev)"
  let ?l = "word_of_nat (length payload) :: u64"
  have i: "dbi N ?b" using inv by simp
  have r: "recipients smv topic_match ?k (ev_topic ev) ?b = recipients smv topic_match ?k (ev_topic ev) b"
    by (simp add: recipients_def live_def)
  have "?k (obj (count_r k ?l ?b) c) = ?k (obj ?b c)" for c by (simp add: not_excluded_def)
  from publish_where_offered [OF i this, of "ev_topic ev" None payload 0 False None] room
  obtain b' where p: "publish_where ?k X (announce X) k (ev_topic ev) None payload 0 ?l False None ?b = (Done (), b')"
    and q0: "\<forall>c. if c \<in> recipients smv topic_match ?k (ev_topic ev) ?b
         then offered chq chcap chclosed (frame_new KPublish (Some (c_name (obj ?b k))) (Some (ev_topic ev)) None payload 0 False)
                (c_tx (obj ?b c)) (c_tx (obj b' c))
         else c_tx (obj b' c) = c_tx (obj ?b c)"
    by (force simp: r)
  have q: "if c \<in> recipients smv topic_match ?k (ev_topic ev) b
         then offered chq chcap chclosed (frame_new KPublish (Some (c_name (obj b k))) (Some (ev_topic ev)) None payload 0 False)
                (c_tx (obj b c)) (c_tx (obj b' c))
         else c_tx (obj b' c) = c_tx (obj b c)" for c
    using q0 [rule_format, of c] by (simp add: r split: if_splits)
  have "announce X ev b = announce_fuel X (Suc (Suc 0)) ev b" by (rule announce_fuel_enough [symmetric])
  also have "\<dots> = unlock_core (Done (), b')"
  proof -
    have "announce_fuel X (Suc 0) = announce X" by (simp add: announce_def)
    then show ?thesis
      using core free enc p by (subst announce_fuel.simps) (simp add: publish_def del: announce_fuel.simps)
  qed
  finally show ?thesis using q by (simp add: unlock_core_Done)
qed

end

end
