(* ===== verification/Bus_DaemonRun.thy ===== *)
theory Bus_DaemonRun
  imports Bus_Daemon
begin

text \<open>
  The daemon of \<open>src/src/server.rs\<close> with its signals: the steps of \<open>main\<close> and of the two tasks of
  \<open>handle_term_signal!\<close>, which call \<open>terminate\<close>, in any order.  \<open>SOCK_FILES\<close> is locked while the paths are bound.
\<close>

section \<open>Steps\<close>

text \<open>
  Where \<open>main\<close> is: after the handlers are installed, at the paths that are left to bind (with the lock of
  \<open>SOCK_FILES\<close> and the broker it builds), after them, in the loop that waits for \<open>SERVER_ACTIVE\<close>, or over.
\<close>

datatype ('sm, 'bm, 'am, 'ch) main_state =
  Started
| Binding "string list" "('sm, 'bm, 'am, 'ch) broker_app"
| Bound "('sm, 'bm, 'am, 'ch) broker_app"
| Waiting
| Exited
| MainPanicked

text \<open>Where a handler is: waiting for its signal, or in \<open>terminate\<close> after a file removal; the last never ends.\<close>

datatype term_state = AwaitsSignal | PidRemoved | SocksRemoved | AnnounceHangs

datatype signal_kind = SigInterrupt | SigTerminate

record ('sm, 'bm, 'am, 'ch) daemon_run =
  dr_main :: "('sm, 'bm, 'am, 'ch) main_state"
  dr_term :: "signal_kind \<Rightarrow> term_state"
  dr_daemon :: "('sm, 'bm, 'am, 'ch) daemon"

text \<open>\<open>main\<close> up to the handlers: the pid file is written.\<close>

definition daemon_begin :: "daemon_opts \<Rightarrow> string set \<Rightarrow> ('sm, 'bm, 'am, 'ch) daemon_run" where
  "daemon_begin opts fs =
     \<lparr>dr_main = Started, dr_term = (\<lambda>_. AwaitsSignal),
      dr_daemon = \<lparr>d_fs = fs \<union> set_option (o_pid_file opts), d_pid_file = o_pid_file opts, d_sock_files = [],
        d_broker = None, d_active = True\<rparr>\<rparr>"

text \<open>The broker before its paths are bound.\<close>

definition daemon_app ::
  "('sm, 'bm, 'am, 'ch) ctx \<Rightarrow> daemon_opts \<Rightarrow> ('sm, 'bm, 'am, 'ch) broker_app option" where
  "daemon_app X opts =
     (let app = broker_app_create X (options_force_register (o_force_register opts) options_default)
      in case init_default_core_rpc X (ba_queue_size app) (ba_db app) of
           (Done _, db) \<Rightarrow> Some (set_queue_size (o_queue_size opts) (app\<lparr>ba_db := db\<rparr>))
         | _ \<Rightarrow> None)"

definition main_bind ::
  "daemon_env \<Rightarrow> daemon_opts \<Rightarrow> string \<Rightarrow> string list \<Rightarrow> ('sm, 'bm, 'am, 'ch) broker_app
     \<Rightarrow> ('sm, 'bm, 'am, 'ch) daemon_run \<Rightarrow> ('sm, 'bm, 'am, 'ch) daemon_run" where
  "main_bind E opts path paths app s =
     (case bind_path E opts path ((d_fs (dr_daemon s), app), d_sock_files (dr_daemon s)) of
        Some ((fs, app'), socks) \<Rightarrow>
          s\<lparr>dr_main := Binding paths app', dr_daemon := (dr_daemon s)\<lparr>d_fs := fs, d_sock_files := socks\<rparr>\<rparr>
      | None \<Rightarrow> s\<lparr>dr_main := MainPanicked\<rparr>)"

text \<open>The parts of \<open>terminate\<close>: up to \<open>SOCK_FILES.lock()\<close>, up to \<open>BROKER.lock()\<close>, and the rest.\<close>

definition remove_pid :: "('sm, 'bm, 'am, 'ch) daemon \<Rightarrow> ('sm, 'bm, 'am, 'ch) daemon" where
  "remove_pid d = d\<lparr>d_fs := d_fs d - set_option (d_pid_file d)\<rparr>"

definition remove_socks :: "('sm, 'bm, 'am, 'ch) daemon \<Rightarrow> ('sm, 'bm, 'am, 'ch) daemon" where
  "remove_socks d = d\<lparr>d_fs := d_fs d - set (d_sock_files d)\<rparr>"

definition announce_shutdown ::
  "('sm, 'bm, 'am, 'ch) ctx \<Rightarrow> ('sm, 'bm, 'am, 'ch) daemon \<Rightarrow> term_state \<times> ('sm, 'bm, 'am, 'ch) daemon" where
  "announce_shutdown X d =
     (case d_broker d of
        None \<Rightarrow> (AwaitsSignal, d\<lparr>d_active := False\<rparr>)
      | Some k \<Rightarrow>
          (case log_err (broker_announce X event_shutdown) (ba_db k) of
             (Done _, b) \<Rightarrow> (AwaitsSignal, d\<lparr>d_broker := Some (k\<lparr>ba_db := b\<rparr>), d_active := False\<rparr>)
           | (_, b) \<Rightarrow> (AnnounceHangs, d\<lparr>d_broker := Some (k\<lparr>ba_db := b\<rparr>)\<rparr>)))"

definition running :: "('sm, 'bm, 'am, 'ch) daemon_run \<Rightarrow> bool" where
  "running s \<longleftrightarrow> dr_main s \<noteq> Exited \<and> dr_main s \<noteq> MainPanicked"

definition sock_files_locked :: "('sm, 'bm, 'am, 'ch) daemon_run \<Rightarrow> bool" where
  "sock_files_locked s \<longleftrightarrow> (\<exists>paths app. dr_main s = Binding paths app)"

text \<open>A termination that hangs keeps the lock of \<open>BROKER\<close>.\<close>

definition broker_locked :: "('sm, 'bm, 'am, 'ch) daemon_run \<Rightarrow> bool" where
  "broker_locked s \<longleftrightarrow> (\<exists>k. dr_term s k = AnnounceHangs)"

inductive daemon_step ::
  "('sm, 'bm, 'am, 'ch) ctx \<Rightarrow> daemon_env \<Rightarrow> daemon_opts
     \<Rightarrow> ('sm, 'bm, 'am, 'ch) daemon_run \<Rightarrow> ('sm, 'bm, 'am, 'ch) daemon_run \<Rightarrow> bool"
  for X E opts where
  main_creates: "dr_main s = Started \<Longrightarrow> daemon_app X opts = Some app \<Longrightarrow>
    daemon_step X E opts s (s\<lparr>dr_main := Binding (o_path opts) app\<rparr>)"
| main_fails: "dr_main s = Started \<Longrightarrow> daemon_app X opts = None \<Longrightarrow> daemon_step X E opts s (s\<lparr>dr_main := MainPanicked\<rparr>)"
| main_binds: "dr_main s = Binding (path # paths) app \<Longrightarrow> daemon_step X E opts s (main_bind E opts path paths app s)"
| main_bound: "dr_main s = Binding [] app \<Longrightarrow> daemon_step X E opts s (s\<lparr>dr_main := Bound app\<rparr>)"
| main_serves: "dr_main s = Bound app \<Longrightarrow> \<not> broker_locked s \<Longrightarrow>
    daemon_step X E opts s (s\<lparr>dr_main := Waiting, dr_daemon := (dr_daemon s)\<lparr>d_broker := Some app\<rparr>\<rparr>)"
| main_exits: "dr_main s = Waiting \<Longrightarrow> \<not> d_active (dr_daemon s) \<Longrightarrow> daemon_step X E opts s (s\<lparr>dr_main := Exited\<rparr>)"
| signalled: "running s \<Longrightarrow> dr_term s k = AwaitsSignal \<Longrightarrow>
    daemon_step X E opts s (s\<lparr>dr_term := (dr_term s)(k := PidRemoved), dr_daemon := remove_pid (dr_daemon s)\<rparr>)"
| removes_socks: "running s \<Longrightarrow> dr_term s k = PidRemoved \<Longrightarrow> \<not> sock_files_locked s \<Longrightarrow>
    daemon_step X E opts s (s\<lparr>dr_term := (dr_term s)(k := SocksRemoved), dr_daemon := remove_socks (dr_daemon s)\<rparr>)"
| announces: "running s \<Longrightarrow> dr_term s k = SocksRemoved \<Longrightarrow> \<not> broker_locked s \<Longrightarrow>
    announce_shutdown X (dr_daemon s) = (t, d) \<Longrightarrow>
    daemon_step X E opts s (s\<lparr>dr_term := (dr_term s)(k := t), dr_daemon := d\<rparr>)"
| broker_works: "running s \<Longrightarrow> d_broker (dr_daemon s) = Some app \<Longrightarrow>
    daemon_step X E opts s (s\<lparr>dr_daemon := (dr_daemon s)\<lparr>d_broker := Some (app\<lparr>ba_db := b\<rparr>)\<rparr>\<rparr>)"

inductive daemon_runs ::
  "('sm, 'bm, 'am, 'ch) ctx \<Rightarrow> daemon_env \<Rightarrow> daemon_opts
     \<Rightarrow> ('sm, 'bm, 'am, 'ch) daemon_run \<Rightarrow> ('sm, 'bm, 'am, 'ch) daemon_run \<Rightarrow> bool"
  for X E opts where
  runs_refl: "daemon_runs X E opts s s"
| runs_step: "daemon_runs X E opts s s' \<Longrightarrow> daemon_step X E opts s' s'' \<Longrightarrow> daemon_runs X E opts s s''"

lemma runs_trans: "daemon_runs X E opts s' s'' \<Longrightarrow> daemon_runs X E opts s s' \<Longrightarrow> daemon_runs X E opts s s''"
  by (induction rule: daemon_runs.induct) (auto intro: runs_step)

lemma runs_one: "daemon_step X E opts s s' \<Longrightarrow> daemon_runs X E opts s s'"
  using runs_refl runs_step by metis

section \<open>The steps of a termination\<close>

text \<open>The parts of a termination, one after the other, are \<^const>\<open>terminate\<close>.\<close>

lemma terminate_parts:
  "announce_shutdown X (remove_socks (remove_pid d)) =
     (case terminate X d of (Done _, d') \<Rightarrow> (AwaitsSignal, d') | (_, d') \<Rightarrow> (AnnounceHangs, d'))"
  by (auto simp: announce_shutdown_def remove_socks_def remove_pid_def terminate_def Let_def
      split: option.splits prod.splits eff.splits)

lemma terminates:
  assumes "running s" and "dr_term s k = AwaitsSignal" and "\<not> sock_files_locked s" and "\<not> broker_locked s"
    and "terminate X (dr_daemon s) = (Done (), d)"
  shows "daemon_runs X E opts s (s\<lparr>dr_daemon := d\<rparr>)"
proof -
  let ?s1 = "s\<lparr>dr_term := (dr_term s)(k := PidRemoved), dr_daemon := remove_pid (dr_daemon s)\<rparr>"
  let ?s2 = "s\<lparr>dr_term := (dr_term s)(k := SocksRemoved), dr_daemon := remove_socks (remove_pid (dr_daemon s))\<rparr>"
  have "daemon_step X E opts s ?s1" using assms(1,2) by (rule signalled)
  moreover have "daemon_step X E opts ?s1 ?s2"
    using removes_socks [of ?s1 k X E opts] assms(1,3) by (simp add: running_def sock_files_locked_def)
  moreover have "daemon_step X E opts ?s2 (s\<lparr>dr_daemon := d\<rparr>)"
    using announces [of ?s2 k X AwaitsSignal d E opts] assms terminate_parts [of X "dr_daemon s"]
    by (simp add: running_def broker_locked_def fun_upd_idem)
  ultimately show ?thesis by (meson runs_refl runs_step)
qed

section \<open>The undisturbed start\<close>

definition serving :: "('sm, 'bm, 'am, 'ch) daemon \<Rightarrow> ('sm, 'bm, 'am, 'ch) daemon_run" where
  "serving d = \<lparr>dr_main = Waiting, dr_term = (\<lambda>_. AwaitsSignal), dr_daemon = d\<rparr>"

lemma binds_all:
  assumes "bind_paths E opts paths ((fs, app), socks) = Some ((fs', app'), socks')"
    and "dr_main s = Binding paths app" and "d_fs (dr_daemon s) = fs" and "d_sock_files (dr_daemon s) = socks"
  shows "daemon_runs X E opts s (s\<lparr>dr_main := Bound app', dr_daemon := (dr_daemon s)\<lparr>d_fs := fs', d_sock_files := socks'\<rparr>\<rparr>)"
  using assms
proof (induction paths arbitrary: s fs app socks)
  case Nil
  have "(dr_daemon s)\<lparr>d_fs := fs', d_sock_files := socks'\<rparr> = dr_daemon s"
    using Nil by (cases "dr_daemon s") simp
  then have "s\<lparr>dr_main := Bound app', dr_daemon := (dr_daemon s)\<lparr>d_fs := fs', d_sock_files := socks'\<rparr>\<rparr> = s\<lparr>dr_main := Bound app\<rparr>"
    using Nil(1) by (simp only:) simp
  with runs_one [OF main_bound [of s app X E opts]] Nil(2) show ?case by simp
next
  case (Cons path paths)
  obtain fs1 app1 socks1 where 1: "bind_path E opts path ((fs, app), socks) = Some ((fs1, app1), socks1)"
      "bind_paths E opts paths ((fs1, app1), socks1) = Some ((fs', app'), socks')"
    using Cons.prems(1) by (auto split: option.splits)
  let ?s = "s\<lparr>dr_main := Binding paths app1, dr_daemon := (dr_daemon s)\<lparr>d_fs := fs1, d_sock_files := socks1\<rparr>\<rparr>"
  have "daemon_step X E opts s ?s"
    using main_binds [of s path paths app X E opts] Cons.prems 1(1) by (simp add: main_bind_def)
  with Cons.IH [of fs1 app1 socks1 ?s] 1(2) show ?case using runs_trans runs_one by fastforce
qed

text \<open>What binding adds to the files does not depend on them.\<close>

lemma bind_path_any:
  assumes "bind_path E opts path ((fs, app), socks) = Some ((fs', app'), socks')"
  shows "\<exists>l. socks' = socks @ l \<and> fs' = fs \<union> set l \<and> bind_path E opts path ((gs, app), socks) = Some ((gs \<union> set l, app'), socks')"
  using assms
  by (auto simp: bind_path_def spawn_fifo_def spawn_unix_server_def spawn_tcp_server_def Let_def
      split: option.splits if_splits prod.splits eff.splits)

lemma bind_paths_any:
  "bind_paths E opts paths ((fs, app), socks) = Some ((fs', app'), socks') \<Longrightarrow>
     \<exists>l. socks' = socks @ l \<and> fs' = fs \<union> set l \<and> bind_paths E opts paths ((gs, app), socks) = Some ((gs \<union> set l, app'), socks')"
proof (induction paths arbitrary: fs gs app socks)
  case (Cons path paths)
  obtain fs1 app1 socks1 where 1: "bind_path E opts path ((fs, app), socks) = Some ((fs1, app1), socks1)"
      "bind_paths E opts paths ((fs1, app1), socks1) = Some ((fs', app'), socks')"
    using Cons.prems by (auto split: option.splits)
  obtain l where l: "socks1 = socks @ l" "fs1 = fs \<union> set l"
      "bind_path E opts path ((gs, app), socks) = Some ((gs \<union> set l, app1), socks1)"
    using bind_path_any [OF 1(1), of gs] by blast
  with Cons.IH [OF 1(2), of "gs \<union> set l"] show ?case by (auto simp: Un_assoc)
qed auto

text \<open>From any state before the paths are bound, \<open>main\<close> gets to serve, whatever its handlers have done.\<close>

lemma daemon_start_runs:
  fixes X :: "('sm, 'bm, 'am, 'ch) ctx"
  assumes "daemon_start X E opts fs = Some d" and "dr_main s = Started" and "\<not> broker_locked s"
    and "d_sock_files (dr_daemon s) = []"
  shows "daemon_runs X E opts s (s\<lparr>dr_main := Waiting, dr_daemon := (dr_daemon s)\<lparr>
    d_fs := d_fs (dr_daemon s) \<union> set (d_sock_files d), d_sock_files := d_sock_files d, d_broker := d_broker d\<rparr>\<rparr>)"
    and "d = \<lparr>d_fs = fs \<union> set_option (o_pid_file opts) \<union> set (d_sock_files d), d_pid_file = o_pid_file opts,
      d_sock_files = d_sock_files d, d_broker = d_broker d, d_active = True\<rparr>"
proof -
  obtain app app' :: "('sm, 'bm, 'am, 'ch) broker_app" where app: "daemon_app X opts = Some app"
      and b: "bind_paths E opts (o_path opts) ((fs \<union> set_option (o_pid_file opts), app), []) =
        Some ((d_fs d, app'), d_sock_files d)" and d: "d_broker d = Some app'" "d_pid_file d = o_pid_file opts" "d_active d"
    using assms(1) by (auto simp: daemon_start_def daemon_app_def Let_def split: if_splits prod.splits eff.splits option.splits)
  let ?gs = "d_fs (dr_daemon s)"
  have c: "d_fs d = fs \<union> set_option (o_pid_file opts) \<union> set (d_sock_files d)"
      "bind_paths E opts (o_path opts) ((?gs, app), []) = Some ((?gs \<union> set (d_sock_files d), app'), d_sock_files d)"
    using bind_paths_any [OF b, of ?gs] by auto
  then show "d = \<lparr>d_fs = fs \<union> set_option (o_pid_file opts) \<union> set (d_sock_files d), d_pid_file = o_pid_file opts,
      d_sock_files = d_sock_files d, d_broker = d_broker d, d_active = True\<rparr>" using d by simp
  let ?s1 = "s\<lparr>dr_main := Binding (o_path opts) app\<rparr>"
  let ?s2 = "s\<lparr>dr_main := Bound app', dr_daemon := (dr_daemon s)\<lparr>d_fs := ?gs \<union> set (d_sock_files d), d_sock_files := d_sock_files d\<rparr>\<rparr>"
  have "daemon_runs X E opts s ?s1" using main_creates [OF assms(2) app] by (rule runs_one)
  moreover have "daemon_runs X E opts ?s1 ?s2"
    using binds_all [OF c(2), of ?s1 X] assms(4) by simp
  moreover have "daemon_step X E opts ?s2 (s\<lparr>dr_main := Waiting, dr_daemon := (dr_daemon s)\<lparr>
      d_fs := ?gs \<union> set (d_sock_files d), d_sock_files := d_sock_files d, d_broker := d_broker d\<rparr>\<rparr>)"
    using main_serves [of ?s2 app' X E opts] assms(3) d by (simp add: broker_locked_def)
  ultimately show "daemon_runs X E opts s (s\<lparr>dr_main := Waiting, dr_daemon := (dr_daemon s)\<lparr>
    d_fs := ?gs \<union> set (d_sock_files d), d_sock_files := d_sock_files d, d_broker := d_broker d\<rparr>\<rparr>)"
    using runs_trans runs_step by blast
qed

section \<open>The files\<close>

text \<open>
  With \<open>fs\<close> the files before the start: nothing else exists but what is recorded, a removal is complete before
  the server can be stopped, and none is done before the paths are bound.
\<close>

definition files_inv :: "string set \<Rightarrow> ('sm, 'bm, 'am, 'ch) daemon_run \<Rightarrow> bool" where
  "files_inv fs s \<longleftrightarrow> dr_main s \<noteq> Started \<and>
     d_fs (dr_daemon s) \<subseteq> fs \<union> set_option (d_pid_file (dr_daemon s)) \<union> set (d_sock_files (dr_daemon s)) \<and>
     (\<forall>k. dr_term s k = PidRemoved \<longrightarrow> d_fs (dr_daemon s) \<subseteq> fs \<union> set (d_sock_files (dr_daemon s))) \<and>
     ((\<exists>k. dr_term s k \<in> {SocksRemoved, AnnounceHangs}) \<or> \<not> d_active (dr_daemon s) \<longrightarrow>
        \<not> sock_files_locked s \<and> d_fs (dr_daemon s) \<subseteq> fs) \<and>
     (dr_main s = Exited \<longrightarrow> \<not> d_active (dr_daemon s))"

lemma announce_shutdown_keeps:
  "announce_shutdown X d = (t, d') \<Longrightarrow>
     d_fs d' = d_fs d \<and> d_pid_file d' = d_pid_file d \<and> d_sock_files d' = d_sock_files d \<and> t \<in> {AwaitsSignal, AnnounceHangs}"
  by (auto simp: announce_shutdown_def split: option.splits prod.splits eff.splits)

lemma files_inv_step:
  assumes "daemon_step X E opts s s'" and "files_inv fs s"
  shows "files_inv fs s'"
  using assms
proof (cases rule: daemon_step.cases)
  case (main_binds path paths app)
  show ?thesis
  proof (cases "bind_path E opts path ((d_fs (dr_daemon s), app), d_sock_files (dr_daemon s))")
    case None
    then show ?thesis using main_binds assms(2) by (auto simp: files_inv_def main_bind_def sock_files_locked_def)
  next
    case (Some r)
    obtain gs app' socks where r: "r = ((gs, app'), socks)" by (metis prod.exhaust)
    obtain l where "socks = d_sock_files (dr_daemon s) @ l" "gs = d_fs (dr_daemon s) \<union> set l"
      using bind_path_any [OF Some [unfolded r]] by blast
    with Some r main_binds assms(2) show ?thesis
      by (auto simp: files_inv_def main_bind_def sock_files_locked_def)
  qed
next
  case (announces k t d)
  then show ?thesis
    using announce_shutdown_keeps [OF announces(5)] assms(2) by (fastforce simp: files_inv_def running_def sock_files_locked_def)
qed (use assms(2) in \<open>auto simp: files_inv_def running_def sock_files_locked_def remove_pid_def remove_socks_def\<close>)

lemma files_inv_runs: "daemon_runs X E opts s s' \<Longrightarrow> files_inv fs s \<Longrightarrow> files_inv fs s'"
  by (induction rule: daemon_runs.induct) (auto intro: files_inv_step)

text \<open>A daemon that starts to bind its paths before a signal arrives leaves no files when it exits.\<close>

lemma exits_clean:
  assumes "daemon_runs X E opts s s'" and "dr_main s' = Exited" and "dr_main s \<noteq> Started" and "dr_main s \<noteq> Exited"
    and "\<forall>k. dr_term s k = AwaitsSignal" and "d_active (dr_daemon s)"
    and "d_fs (dr_daemon s) \<subseteq> fs \<union> set_option (d_pid_file (dr_daemon s)) \<union> set (d_sock_files (dr_daemon s))"
  shows "d_fs (dr_daemon s') \<subseteq> fs"
proof -
  have "files_inv fs s" using assms(3-7) by (auto simp: files_inv_def)
  with files_inv_runs [OF assms(1)] assms(2) show ?thesis by (auto simp: files_inv_def)
qed

text \<open>A signal before that stops the daemon after it has made all its files.\<close>

lemma early_signal:
  assumes "daemon_start X E opts fs = Some d"
  shows "\<exists>s. daemon_runs X E opts (daemon_begin opts fs) s \<and> dr_main s = Exited \<and>
    d_fs (dr_daemon s) = fs - set_option (o_pid_file opts) \<union> set (d_sock_files d)"
proof -
  let ?s = "daemon_begin opts fs"
  let ?d = "(dr_daemon ?s)\<lparr>d_fs := fs - set_option (o_pid_file opts), d_active := False\<rparr>"
  have "terminate X (dr_daemon ?s) = (Done (), ?d)" by (auto simp: terminate_def daemon_begin_def)
  then have "daemon_runs X E opts ?s (?s\<lparr>dr_daemon := ?d\<rparr>)"
    by (intro terminates [of _ SigTerminate]) (auto simp: daemon_begin_def running_def sock_files_locked_def broker_locked_def)
  moreover have "daemon_runs X E opts (?s\<lparr>dr_daemon := ?d\<rparr>) ((?s\<lparr>dr_daemon := ?d\<rparr>)\<lparr>dr_main := Waiting, dr_daemon := ?d\<lparr>
      d_fs := fs - set_option (o_pid_file opts) \<union> set (d_sock_files d), d_sock_files := d_sock_files d, d_broker := d_broker d\<rparr>\<rparr>)"
    using daemon_start_runs(1) [OF assms, of "?s\<lparr>dr_daemon := ?d\<rparr>"] by (auto simp: daemon_begin_def broker_locked_def)
  ultimately obtain s where s: "daemon_runs X E opts ?s s" "dr_main s = Waiting" "\<not> d_active (dr_daemon s)"
      "d_fs (dr_daemon s) = fs - set_option (o_pid_file opts) \<union> set (d_sock_files d)"
    using runs_trans by fastforce
  from s(1) main_exits [OF s(2,3)] have "daemon_runs X E opts ?s (s\<lparr>dr_main := Exited\<rparr>)" by (rule runs_step)
  with s(4) show ?thesis by (intro exI [of _ "s\<lparr>dr_main := Exited\<rparr>"]) simp
qed

end
