(* ===== verification/Bus_Cli.thy ===== *)
theory Bus_Cli
  imports Bus_CoreRpc Bus_Connect
begin

text \<open>
  The command-line client, \<open>src/src/cli.rs\<close>: its commands, the operation each of them performs on the bus, how
  the operation ends, and how payloads are printed.  The encodings of \<open>serde_json\<close>, \<open>rmp_serde\<close> and \<open>hex\<close> are
  an argument; colours and log lines are left out; the benchmark is in \<open>Bus_Bench\<close>.
\<close>

section \<open>Commands\<close>

datatype broker_command = ClientListCmd | InfoCmd | StatsCmd | TestCmd

record listen_command =
  lc_topics :: "string list"
  lc_exclude_topics :: "string list"

record target_payload =
  tp_target :: string
  tp_payload :: "string option"

record rpc_call_cmd =
  rc_target :: string
  rc_method :: string
  rc_params :: "string list"

record publish_command =
  pc_topic :: string
  pc_payload :: "string option"

datatype rpc_command =
  RpcListenCmd "string list" | RpcNotifyCmd target_payload | RpcCall0Cmd rpc_call_cmd | RpcCallCmd rpc_call_cmd

record benchmark_command =
  bc_workers :: u32
  bc_payload_size :: usize
  bc_iters :: u32

datatype command =
  BrokerCmd broker_command
| ListenCmd listen_command
| SendCmd target_payload
| PublishCmd publish_command
| RpcCmd rpc_command
| BenchmarkCmd benchmark_command

record cli_opts =
  co_path :: string
  co_name :: "string option"
  co_buf_size :: usize
  co_queue_size :: usize
  co_timeout :: duration
  co_token :: "string option"
  co_verbose :: bool
  co_silent :: bool
  co_command :: command

text \<open>The name of the client; \<open>hostname\<close> is \<^const>\<open>None\<close> if it cannot be read, which is a panic.\<close>

definition cli_client_name :: "cli_opts \<Rightarrow> string option \<Rightarrow> nat \<Rightarrow> string option" where
  "cli_client_name opts hostname pid =
     (case co_name opts of
        Some name \<Rightarrow> Some name
      | None \<Rightarrow> map_option (\<lambda>h. ''cli.'' @ h @ ''.'' @ show_nat pid) hostname)"

definition create_client_config :: "cli_opts \<Rightarrow> string \<Rightarrow> ipc_config" where
  "create_client_config opts name =
     (let config = ipc_set_timeout (co_timeout opts) (ipc_set_queue_size (co_queue_size opts)
                     (ipc_set_buf_size (co_buf_size opts) (ipc_config_new (co_path opts) name)))
      in case co_token opts of Some token \<Rightarrow> ipc_set_token token config | None \<Rightarrow> config)"

section \<open>Printing\<close>

text \<open>
  \<open>cc_json\<close> and \<open>cc_msgpack\<close> decode a payload and give its text, in one line or pretty (\<open>True\<close>).
\<close>

record cli_codec =
  cc_json :: "string \<Rightarrow> (bool \<Rightarrow> string) option"
  cc_msgpack :: "bytes \<Rightarrow> (bool \<Rightarrow> string option) option"
  cc_hex :: "bytes \<Rightarrow> string"

datatype cli_output = OutLine string | OutRaw bytes

definition print_hex :: "cli_codec \<Rightarrow> bytes \<Rightarrow> cli_output list" where
  "print_hex C payload =
     (let (p, dots) = (if length payload > 256 then (take 256 payload, ''...'') else (payload, ''''))
      in [OutLine (''HEX: '' @ cc_hex C p @ dots)])"

definition print_payload :: "cli_codec \<Rightarrow> bytes \<Rightarrow> bool \<Rightarrow> cli_output list" where
  "print_payload C payload silent =
     (case (if list_all (\<lambda>p. \<not> p < 9) payload then from_utf8 payload else None) of
        Some s \<Rightarrow>
          (case cc_json C s of
             Some j \<Rightarrow> (if silent then [] else [OutLine ''JSON:'']) @ [OutLine (j (\<not> silent))]
           | None \<Rightarrow> [OutLine ((if silent then '''' else ''STR: '') @ '' '' @ s)])
      | None \<Rightarrow>
          (case cc_msgpack C payload of
             Some data \<Rightarrow>
               (if silent then [] else [OutLine ''MSGPACK:'']) @
               (case data (\<not> silent) of Some s \<Rightarrow> [OutLine s] | None \<Rightarrow> print_hex C payload)
           | None \<Rightarrow> if silent then [OutRaw payload] else print_hex C payload))"

section \<open>Handlers\<close>

fun frame_kind_debug :: "FrameKind \<Rightarrow> string" where
  "frame_kind_debug KPrepared = ''Prepared''"
| "frame_kind_debug KMessage = ''Message''"
| "frame_kind_debug KBroadcast = ''Broadcast''"
| "frame_kind_debug KPublish = ''Publish''"
| "frame_kind_debug KAcknowledge = ''Acknowledge''"
| "frame_kind_debug KNop = ''Nop''"

fun event_kind_debug :: "rpc_event_kind \<Rightarrow> string" where
  "event_kind_debug RpcNotification = ''Notification''"
| "event_kind_debug RpcRequest = ''Request''"
| "event_kind_debug RpcReply = ''Reply''"
| "event_kind_debug RpcErrorReply = ''ErrorReply''"

text \<open>\<open>what\<close>, the senders, then \<open>rest\<close>, the payload and a line; \<^const>\<open>None\<close> is a panic of an accessor.\<close>

definition print_from ::
  "cli_codec \<Rightarrow> string \<Rightarrow> cli_output list \<Rightarrow> frame \<Rightarrow> bytes option \<Rightarrow> cli_output list option" where
  "print_from C what rest f payload =
     (case (frame_sender f, frame_primary_sender f, payload) of
        (Some sender, Some primary, Some p) \<Rightarrow>
          Some (OutLine (what @ ''from '' @ sender @ '' ('' @ primary @ '')'') # rest @
            print_payload C p False @ [OutLine ''----''])
      | _ \<Rightarrow> None)"

definition print_frame :: "cli_codec \<Rightarrow> frame \<Rightarrow> cli_output list option" where
  "print_frame C f =
     print_from C (frame_kind_debug (f_kind f) @ '' '')
       (case f_topic f of Some topic \<Rightarrow> [OutLine (''topic: '' @ topic)] | None \<Rightarrow> []) f (frame_payload f)"

text \<open>The handlers of \<open>rpc listen\<close>: everything is printed, and a call is answered with nothing.\<close>

definition listen_handle_notification :: "cli_codec \<Rightarrow> rpc_event \<Rightarrow> cli_output list option" where
  "listen_handle_notification C event =
     print_from C (event_kind_debug (re_kind event) @ '' '') [] (re_frame event) (event_payload event)"

definition listen_handle_call :: "cli_codec \<Rightarrow> rpc_event \<Rightarrow> (cli_output list \<times> rpc_result) option" where
  "listen_handle_call C event =
     (case event_method event of
        None \<Rightarrow> None
      | Some m \<Rightarrow>
          map_option (\<lambda>out. (OutLine (''method: '' @ (case parse_str m of Inr s \<Rightarrow> s | Inl _ \<Rightarrow> ''HEX: '' @ cc_hex C m)) # out,
              Inr None))
            (print_from C '''' [] (re_frame event) (event_payload event)))"

text \<open>The handlers of the benchmark; \<^const>\<open>None\<close> is a panic of an accessor.\<close>

definition benchmark_handle_call :: "rpc_event \<Rightarrow> rpc_result option" where
  "benchmark_handle_call event =
     (case event_parse_method event of
        None \<Rightarrow> None
      | Some (Inl e) \<Rightarrow> Some (Inl (rpc_error_from e))
      | Some (Inr m) \<Rightarrow>
          if m = ''benchmark.selftest'' then map_option (\<lambda>p. Inr (Some p)) (event_payload event)
          else Some (Inl (rpc_error_method None)))"

section \<open>What a command does\<close>

definition get_payload :: "bytes \<Rightarrow> string option \<Rightarrow> bytes" where
  "get_payload stdin candidate = (case candidate of Some p \<Rightarrow> as_bytes p | None \<Rightarrow> stdin)"

text \<open>\<open>prepare_rpc_call!\<close>: the payload of a call; \<^const>\<open>None\<close> is a panic of \<open>unwrap\<close>.\<close>

definition prepare_rpc_call :: "core_codec \<Rightarrow> bytes \<Rightarrow> rpc_call_cmd \<Rightarrow> bytes option" where
  "prepare_rpc_call CC stdin c =
     (if length (rc_params c) = 1 \<and> rc_params c ! 0 = ''-'' then Some stdin
      else if rc_params c = [] then Some []
      else case str_to_params_map (rc_params c) of
        Inl e \<Rightarrow> None
      | Inr params \<Rightarrow> (case enc_params CC params of Inl e \<Rightarrow> None | Inr v \<Rightarrow> Some v))"

datatype cli_action =
  CallBroker string
| ListenTo "string list" "string list"
| SendTo string bytes
| BroadcastTo string bytes
| PublishTo string bytes
| RpcListenTo "string list"
| NotifyTo string bytes
| Call0To string string bytes
| CallTo string string bytes
| RunBenchmark benchmark_command

fun broker_method :: "broker_command \<Rightarrow> string" where
  "broker_method ClientListCmd = ''client.list''"
| "broker_method InfoCmd = ''info''"
| "broker_method StatsCmd = ''stats''"
| "broker_method TestCmd = ''test''"

text \<open>The match of \<open>main\<close>.\<close>

fun cli_action_of :: "core_codec \<Rightarrow> bytes \<Rightarrow> command \<Rightarrow> cli_action option" where
  "cli_action_of CC stdin (BrokerCmd op) = Some (CallBroker (broker_method op))"
| "cli_action_of CC stdin (ListenCmd cmd) = Some (ListenTo (lc_exclude_topics cmd) (lc_topics cmd))"
| "cli_action_of CC stdin (SendCmd cmd) =
     (let payload = get_payload stdin (tp_payload cmd)
      in Some (if CHR ''*'' \<in> set (tp_target cmd) \<or> CHR ''?'' \<in> set (tp_target cmd)
               then BroadcastTo (tp_target cmd) payload else SendTo (tp_target cmd) payload))"
| "cli_action_of CC stdin (PublishCmd cmd) = Some (PublishTo (pc_topic cmd) (get_payload stdin (pc_payload cmd)))"
| "cli_action_of CC stdin (RpcCmd (RpcListenCmd topics)) = Some (RpcListenTo topics)"
| "cli_action_of CC stdin (RpcCmd (RpcNotifyCmd cmd)) =
     Some (NotifyTo (tp_target cmd) (get_payload stdin (tp_payload cmd)))"
| "cli_action_of CC stdin (RpcCmd (RpcCall0Cmd cmd)) =
     map_option (Call0To (rc_target cmd) (rc_method cmd)) (prepare_rpc_call CC stdin cmd)"
| "cli_action_of CC stdin (RpcCmd (RpcCallCmd cmd)) =
     map_option (CallTo (rc_target cmd) (rc_method cmd)) (prepare_rpc_call CC stdin cmd)"
| "cli_action_of CC stdin (BenchmarkCmd cmd) = Some (RunBenchmark cmd)"

text \<open>The request an action sends with its client, all with \<open>QoS::Processed\<close>; calls are made by the RPC client.\<close>

definition cli_zc :: "write_outcome \<times> write_outcome \<Rightarrow> zc_args \<Rightarrow> (ipc_client, error, ticket option) act" where
  "cli_zc w z = ipc_zc_send w (z_target z) (Owned (z_header z)) (Owned (z_payload z)) (z_qos z)"

definition subscribe_topics ::
  "write_outcome \<times> write_outcome \<Rightarrow> string list \<Rightarrow> (ipc_client, error, ticket option) act" where
  "subscribe_topics w topics = ipc_subscribe_bulk w topics Processed"

definition exclude_topics ::
  "write_outcome \<times> write_outcome \<Rightarrow> string list \<Rightarrow> (ipc_client, error, ticket option) act" where
  "exclude_topics w topics = ipc_exclude_bulk w topics Processed"

text \<open>\<open>listen\<close> waits for the confirmation of the exclusion before it subscribes; the wait is not part of the request.\<close>

fun cli_request :: "write_outcome \<times> write_outcome \<Rightarrow> cli_action \<Rightarrow> (ipc_client, error, ticket option) act option" where
  "cli_request w (SendTo target payload) = Some (ipc_send w target (Owned payload) Processed)"
| "cli_request w (BroadcastTo target payload) = Some (ipc_send_broadcast w target (Owned payload) Processed)"
| "cli_request w (PublishTo topic payload) = Some (ipc_publish w topic (Owned payload) Processed)"
| "cli_request w (NotifyTo target payload) = Some (cli_zc w (rpc_notify target (Owned payload) Processed))"
| "cli_request w (Call0To target method payload) = Some (cli_zc w (rpc_call0 target method (Owned payload) Processed))"
| "cli_request w (ListenTo exclude topics) =
     Some (act_then (exclude_topics w exclude) (\<lambda>_. subscribe_topics w topics))"
| "cli_request w (RpcListenTo topics) = Some (subscribe_topics w topics)"
| "cli_request w _ = None"

text \<open>
  How such a request ends: the frame is sent and confirmed within the timeout, or the command panics.
\<close>

definition cli_ok :: "(error, ticket option) eff \<Rightarrow> confirm_outcome \<Rightarrow> cli_output list option" where
  "cli_ok sent c =
     (case sent of
        Done (Some _) \<Rightarrow> (case c of Confirmed (Inr _) \<Rightarrow> Some [OutLine ''OK''] | _ \<Rightarrow> None)
      | _ \<Rightarrow> None)"

text \<open>The end of \<open>rpc call\<close>: the result is printed, or the error with its text, and the exit code is 1.\<close>

definition cli_call_end :: "cli_codec \<Rightarrow> bool \<Rightarrow> rpc_error + rpc_event \<Rightarrow> (cli_output list \<times> int) option" where
  "cli_call_end C silent r =
     (case r of
        Inr event \<Rightarrow> map_option (\<lambda>p. (print_payload C p silent, 0)) (event_payload event)
      | Inl e \<Rightarrow>
          Some ([OutLine (''RPC Error '' @ show_int (sint (rx_code e)) @ '': '' @
             (case rx_data e of None \<Rightarrow> '''' | Some d \<Rightarrow> (case from_utf8 d of Some s \<Rightarrow> s | None \<Rightarrow> '''')))], 1))"

text \<open>\<open>broker client.list\<close>: the rows of the table, without the client itself.\<close>

definition client_rows :: "string \<Rightarrow> client_info list \<Rightarrow> client_info list" where
  "client_rows client_name clients = filter (\<lambda>c. ci_name c \<noteq> client_name) (sort_key client_info_cmp clients)"

section \<open>Lemmas\<close>

text \<open>
  The tables of the broker commands, one list of cells per row; \<open>fnum\<close> formats a number with separators.
\<close>

definition client_table :: "(nat \<Rightarrow> string) \<Rightarrow> string \<Rightarrow> client_info list \<Rightarrow> string list list" where
  "client_table fnum client_name clients =
     [''name'', ''type'', ''source'', ''port'', ''r_frames'', ''r_bytes'', ''w_frames'', ''w_bytes'', ''queue'', ''ins''] #
     map (\<lambda>c. [ci_name c, ci_kind c, case_option '''' id (ci_source c), case_option '''' id (ci_port c),
          fnum (unat (ci_r_frames c)), fnum (unat (ci_r_bytes c)), fnum (unat (ci_w_frames c)),
          fnum (unat (ci_w_bytes c)), fnum (ci_queue c), fnum (ci_instances c)])
       (client_rows client_name clients)"

definition stats_table :: "broker_stats \<Rightarrow> string list list" where
  "stats_table s =
     [[''field'', ''value''], [''r_frames'', show_nat (unat (bs_r_frames s))], [''r_bytes'', show_nat (unat (bs_r_bytes s))],
      [''w_frames'', show_nat (unat (bs_w_frames s))], [''w_bytes'', show_nat (unat (bs_w_bytes s))],
      [''uptime'', show_nat (unat (bs_uptime s))]]"

definition info_table :: "broker_info \<Rightarrow> string list list" where
  "info_table i = [[''field'', ''value''], [''author'', bi_author i], [''version'', bi_version i]]"

text \<open>What a FIFO command and an action of the command-line client have in common.\<close>

fun same_request :: "fifo_cmd \<Rightarrow> cli_action \<Rightarrow> bool" where
  "same_request (FifoPublish topic payload) a \<longleftrightarrow> a = PublishTo topic (as_bytes payload)"
| "same_request (FifoNotify target s) a \<longleftrightarrow> a = NotifyTo target (as_bytes s)"
| "same_request (FifoCall target method params) a \<longleftrightarrow> a = Call0To target method params"
| "same_request (FifoBroadcast target payload) a \<longleftrightarrow> a = BroadcastTo target (as_bytes payload)"
| "same_request (FifoSend target payload) a \<longleftrightarrow> a = SendTo target (as_bytes payload)"

text \<open>
  The call of the bus client each of them makes: the same one, but the FIFO wants no acknowledgement, and the
  command-line client does.
\<close>

datatype bus_call =
  SendCall string bytes QoS
| BroadcastCall string bytes QoS
| PublishCall string bytes QoS
| ZcCall zc_args

fun internal_call ::
  "('sm, 'bm, 'am, 'ch) ctx \<Rightarrow> client \<Rightarrow> bus_call \<Rightarrow> ('sm, 'bm, 'am, 'ch, confirm) bact" where
  "internal_call X k (SendCall target p qos) = client_send X k target (Borrowed p) qos"
| "internal_call X k (BroadcastCall target p qos) = client_send_broadcast X k target (Borrowed p) qos"
| "internal_call X k (PublishCall topic p qos) = client_publish X k topic (Borrowed p) qos"
| "internal_call X k (ZcCall z) = zc_client_send X k z"

fun ipc_call :: "write_outcome \<times> write_outcome \<Rightarrow> bus_call \<Rightarrow> (ipc_client, error, ticket option) act" where
  "ipc_call w (SendCall target p qos) = ipc_send w target (Owned p) qos"
| "ipc_call w (BroadcastCall target p qos) = ipc_send_broadcast w target (Owned p) qos"
| "ipc_call w (PublishCall topic p qos) = ipc_publish w topic (Owned p) qos"
| "ipc_call w (ZcCall z) = cli_zc w z"

fun bus_call_of :: "fifo_cmd \<Rightarrow> QoS \<Rightarrow> bus_call" where
  "bus_call_of (FifoPublish topic payload) qos = PublishCall topic (as_bytes payload) qos"
| "bus_call_of (FifoNotify target s) qos = ZcCall (rpc_notify target (Borrowed (as_bytes s)) qos)"
| "bus_call_of (FifoCall target method params) qos = ZcCall (rpc_call0 target method (Owned params) qos)"
| "bus_call_of (FifoBroadcast target payload) qos = BroadcastCall target (as_bytes payload) qos"
| "bus_call_of (FifoSend target payload) qos = SendCall target (as_bytes payload) qos"

lemma same_request_calls:
  "fifo_exec X k cmd = internal_call X k (bus_call_of cmd QosNo)"
  "same_request cmd a \<Longrightarrow> cli_request w a = Some (ipc_call w (bus_call_of cmd Processed))"
  by (cases cmd; simp add: rpc_notify_def rpc_call0_def)+

lemma fifo_words1:
  assumes "target_word w" and "CHR '' '' \<notin> set msg"
  shows "fifo_parse CC (w @ '' '' @ msg) = fifo_target CC [w, msg]"
  using fifo_parse_words [OF assms(1), of "[msg]" CC] assms(2) by simp

lemma fifo_send_same:
  assumes "target_word w" and "CHR '' '' \<notin> set msg" and "msg = [] \<or> hd msg \<notin> {CHR ''.'', CHR '':''}"
  shows "\<exists>cmd a. fifo_parse CC (w @ '' '' @ msg) = Inr cmd \<and>
    cli_action_of CC stdin (SendCmd \<lparr>tp_target = w, tp_payload = Some msg\<rparr>) = Some a \<and> same_request cmd a"
  unfolding fifo_words1 [OF assms(1,2)] using assms(3)
  by (cases msg) (auto simp: fifo_target_def get_payload_def Let_def)

lemma fifo_notify_same:
  assumes "target_word w" and "CHR '' '' \<notin> set msg"
  shows "\<exists>cmd a. fifo_parse CC (w @ '' .'' @ msg) = Inr cmd \<and>
    cli_action_of CC stdin (RpcCmd (RpcNotifyCmd \<lparr>tp_target = w, tp_payload = Some msg\<rparr>)) = Some a \<and> same_request cmd a"
  using fifo_words1 [OF assms(1), of "CHR ''.'' # msg" CC] assms(2) by (simp add: fifo_target_def get_payload_def)

lemma show_pair_no_dash: "show_pair p \<noteq> ''-''"
proof
  assume "show_pair p = ''-''"
  then have "CHR ''='' \<in> set ''-''" by (metis append_Cons in_set_conv_decomp show_pair_def)
  then show False by simp
qed

lemma fifo_call_same:
  assumes "target_word w" and "CHR '' '' \<notin> set method" and "\<forall>p \<in> set kvs. param_word p"
    and "enc_params CC (map_of (rev kvs)) = Inr payload"
  shows "fifo_parse CC (w @ '' :'' @ method @ concat (map (\<lambda>p. '' '' @ show_pair p) kvs)) = Inr (FifoCall w method payload) \<and>
    cli_action_of CC stdin (RpcCmd (RpcCall0Cmd \<lparr>rc_target = w, rc_method = method, rc_params = map show_pair kvs\<rparr>)) =
      Some (Call0To w method (if kvs = [] then [] else payload))"
proof -
  have "str_to_params_map (map show_pair kvs) = Inr (map_of (rev kvs))"
    using str_to_params_map_from_show [of kvs Map.empty] assms(3) by (force simp: str_to_params_map_def)
  then have "prepare_rpc_call CC stdin \<lparr>rc_target = w, rc_method = method, rc_params = map show_pair kvs\<rparr> =
      Some (if kvs = [] then [] else payload)"
    using assms(4) show_pair_no_dash by (cases kvs) (auto simp: prepare_rpc_call_def)
  then show ?thesis using fifo_parse_call [OF assms] by simp
qed

end
