(* ===== verification/Bus_Bench.thy ===== *)
theory Bus_Bench
  imports Bus_Cli
begin

text \<open>
  The benchmark of the command-line client, \<open>benchmark_rpc\<close> and \<open>benchmark_client\<close> of \<open>src/src/cli.rs\<close>: the
  clients it makes, the tasks of every stage with the operations each of them performs in order, and the
  number of iterations a stage reports.  Measuring time is left out.
\<close>

datatype bench_op =
  BenchSend string bytes QoS
| BenchRecv
| BenchCall string string bytes
| BenchCall0 string string bytes

text \<open>A task works with one client; the tasks of a stage run side by side.\<close>

record bench_stage =
  st_name :: string
  st_tasks :: "(string \<times> bench_op list) list"
  st_iters :: u32

definition bench_cname :: "string \<Rightarrow> nat \<Rightarrow> string" where
  "bench_cname client_name w = client_name @ ''-'' @ show_nat (w + 1)"

definition bench_null :: "string \<Rightarrow> nat \<Rightarrow> string" where
  "bench_null client_name w = client_name @ ''-'' @ show_nat (w + 1) @ ''-null''"

definition bench_tasks :: "u32 \<Rightarrow> (nat \<Rightarrow> (string \<times> bench_op list) list) \<Rightarrow> (string \<times> bench_op list) list" where
  "bench_tasks workers task = concat (map task [0..<unat workers])"

text \<open>\<open>iters / workers\<close> panics without workers: \<^const>\<open>None\<close>.\<close>

definition iters_worker :: "u32 \<Rightarrow> u32 \<Rightarrow> u32 option" where
  "iters_worker iters workers = (if workers = 0 then None else Some (iters div workers))"

text \<open>\<open>spawn_sender!\<close> and \<open>spawn_caller!\<close>: the operation is repeated.\<close>

definition spawn_op :: "u32 \<Rightarrow> string \<Rightarrow> bench_op \<Rightarrow> string \<times> bench_op list" where
  "spawn_op n cname f = (cname, replicate (unat n) f)"

definition benchmark_rpc :: "string \<Rightarrow> u32 \<Rightarrow> u32 \<Rightarrow> usize \<Rightarrow> bench_stage list option" where
  "benchmark_rpc client_name iters workers payload_size =
     map_option (\<lambda>n. let data = replicate payload_size 0xee;
         stage = (\<lambda>name f. \<lparr>st_name = name,
           st_tasks = bench_tasks workers (\<lambda>w. [spawn_op n (bench_cname client_name w) (f w)]), st_iters = iters\<rparr>)
       in [stage ''rpc.call'' (\<lambda>w. BenchCall ''.broker'' ''benchmark.test'' data),
           stage ''rpc.call+handle'' (\<lambda>w. BenchCall (bench_cname client_name w) ''benchmark.selftest'' data),
           stage ''rpc.call0'' (\<lambda>w. BenchCall0 (bench_null client_name w) ''test'' data)])
       (iters_worker iters workers)"

definition benchmark_client :: "string \<Rightarrow> u32 \<Rightarrow> u32 \<Rightarrow> usize \<Rightarrow> bench_stage list option" where
  "benchmark_client client_name iters workers payload_size =
     map_option (\<lambda>n. let data = replicate payload_size 0xee;
         qs = [(QosNo, ''no''), (RealtimeProcessed, ''processed'')];
         cname = bench_cname client_name
       in map (\<lambda>(qos, q). \<lparr>st_name = ''send.qos.'' @ q,
             st_tasks = bench_tasks workers (\<lambda>w. [spawn_op n (cname w) (BenchSend (bench_null client_name w) data qos)]),
             st_iters = iters\<rparr>) qs @
          map (\<lambda>(qos, q). \<lparr>st_name = ''send+recv.qos.'' @ q,
             st_tasks = bench_tasks workers (\<lambda>w. [spawn_op n (cname w) (BenchSend (cname w) data qos),
                                                 spawn_op n (cname w) BenchRecv]),
             st_iters = iters\<rparr>) qs)
       (iters_worker iters workers)"

text \<open>The operations of a stage that send something.\<close>

definition requests_of :: "bench_stage \<Rightarrow> bench_op list" where
  "requests_of st = filter (\<lambda>x. x \<noteq> BenchRecv) (concat (map snd (st_tasks st)))"

lemma requests_tasks:
  assumes "\<And>w. length (filter (\<lambda>x. x \<noteq> BenchRecv) (concat (map snd (task w)))) = k"
  shows "length (requests_of \<lparr>st_name = name, st_tasks = bench_tasks workers task, st_iters = iters\<rparr>) = unat workers * k"
proof -
  have "length (filter (\<lambda>x. x \<noteq> BenchRecv) (concat (map snd (concat (map task xs))))) = length xs * k" for xs
    by (induction xs) (simp_all add: assms)
  from this [of "[0..<unat workers]"] show ?thesis by (simp add: requests_of_def bench_tasks_def)
qed

lemmas bench_defs = benchmark_rpc_def benchmark_client_def iters_worker_def Let_def

text \<open>
  Every stage performs \<open>workers * (iters / workers)\<close> requests, which is what it reports only if the workers divide
  the iterations.
\<close>

lemma bench_requests:
  assumes "sts \<in> set_option (benchmark_rpc client_name iters workers payload_size) \<union>
      set_option (benchmark_client client_name iters workers payload_size)"
    and "st \<in> set sts"
  shows "length (requests_of st) = unat workers * (unat iters div unat workers)"
  using assms by (auto simp: bench_defs spawn_op_def unat_div intro!: requests_tasks split: if_splits)

lemma bench_reported:
  assumes "sts \<in> set_option (benchmark_rpc client_name iters workers payload_size) \<union>
      set_option (benchmark_client client_name iters workers payload_size)"
    and "st \<in> set sts"
  shows "st_iters st = iters \<and> length (requests_of st) + unat iters mod unat workers = unat iters"
proof
  show "st_iters st = iters" using assms by (auto simp: bench_defs split: if_splits)
qed (simp add: bench_requests [OF assms])

text \<open>The clients of the workers have names of their own, none of them a null target.\<close>

lemma bench_cname_inj: "bench_cname n v = bench_cname n w \<longleftrightarrow> v = w"
  by (simp add: bench_cname_def)

lemma bench_null_neq: "bench_null n v \<noteq> bench_cname n w"
proof
  assume "bench_null n v = bench_cname n w"
  then have "show_nat (v + 1) @ ''-null'' = show_nat (w + 1)" by (simp add: bench_null_def bench_cname_def)
  then have "CHR ''-'' \<in> set (show_nat (w + 1))" by (metis in_set_conv_decomp)
  then have "is_digit CHR ''-''" by (rule show_nat_plain)
  then show False by (simp add: is_digit_def)
qed

text \<open>The calls of the benchmark are echoed, by the broker and by the client itself, so that its assertion holds.\<close>

lemma bench_echo:
  assumes "event_payload event = Some p"
  shows "event_parse_method event = Some (Inr ''benchmark.test'') \<Longrightarrow>
      core_handle_call CC X uptime keys b event = Some (Inr (Some p))"
    and "event_parse_method event = Some (Inr ''benchmark.selftest'') \<Longrightarrow> benchmark_handle_call event = Some (Inr (Some p))"
  using assms by (simp_all add: core_handle_call_def core_method_def benchmark_handle_call_def Let_def)

end
