(* ===== verification/Bus_Listen.thy ===== *)
theory Bus_Listen
  imports Bus_Bench
begin

text \<open>
  The \<open>listen\<close> command of \<open>src/src/cli.rs\<close>: the exclusions and subscriptions it makes first, the task that prints
  the frames, and the loop that pings until the connection is lost.
\<close>

section \<open>The command\<close>

text \<open>
  A request that must be confirmed: \<open>sent\<close> is how it was sent and \<open>c\<close> its confirmation.  A panic of \<open>unwrap\<close> is
  \<^term>\<open>Bail ()\<close>.
\<close>

definition confirmed :: "(error, ticket option) eff \<times> ipc_client \<Rightarrow> confirm_outcome \<Rightarrow> (unit, ipc_client) eff" where
  "confirmed sent c =
     (case sent of
        (Done (Some _), cl) \<Rightarrow>
          (case c of Confirmed (Inr _) \<Rightarrow> Done cl | Confirmed (Inl _) \<Rightarrow> Bail () | ConfirmDropped \<Rightarrow> Bail () | ConfirmNever \<Rightarrow> Pending)
      | (Pending, _) \<Rightarrow> Pending
      | _ \<Rightarrow> Bail ())"

text \<open>\<open>li_printing\<close> says whether the printing task runs, \<open>li_running\<close> whether the command does.\<close>

record listen_session =
  li_client :: ipc_client
  li_printing :: bool
  li_running :: bool
  li_out :: "cli_output list"

definition listen_begin ::
  "write_outcome \<times> write_outcome \<Rightarrow> confirm_outcome \<Rightarrow> write_outcome \<times> write_outcome \<Rightarrow> confirm_outcome
     \<Rightarrow> string \<Rightarrow> listen_command \<Rightarrow> ipc_client \<Rightarrow> (unit, listen_session) eff" where
  "listen_begin w1 c1 w2 c2 client_name cmd cl =
     (case confirmed (exclude_topics w1 (lc_exclude_topics cmd) cl) c1 of
        Bail _ \<Rightarrow> Bail () | Pending \<Rightarrow> Pending
      | Done cl1 \<Rightarrow>
          (case confirmed (subscribe_topics w2 (lc_topics cmd) cl1) c2 of
             Bail _ \<Rightarrow> Bail () | Pending \<Rightarrow> Pending
           | Done cl2 \<Rightarrow>
               Done \<lparr>li_client = cl2, li_printing = True, li_running = True,
                 li_out = [OutLine ''----'', OutLine (''Listening to messages for '' @ client_name @ '' ...'')]\<rparr>))"

text \<open>
  A frame for the printing task, whose panic ends only this task; a turn of the loop, with the outcome of
  its ping; and a change of the connection by the reader of the client.
\<close>

datatype listen_event = PrintsFrame frame | LoopTurn write_outcome | ConnectionLost

definition print_turn :: "cli_codec \<Rightarrow> frame \<Rightarrow> listen_session \<Rightarrow> listen_session" where
  "print_turn C f l =
     (if li_running l \<and> li_printing l then
        (case print_frame C f of
           Some out \<Rightarrow> l\<lparr>li_out := li_out l @ out\<rparr>
         | None \<Rightarrow> l\<lparr>li_printing := False\<rparr>)
      else l)"

definition loop_turn :: "write_outcome \<Rightarrow> listen_session \<Rightarrow> listen_session" where
  "loop_turn w l =
     (if \<not> li_running l then l
      else if i_connected (li_client l) then l\<lparr>li_client := snd (ipc_ping w (li_client l))\<rparr>
      else l\<lparr>li_running := False, li_printing := False\<rparr>)"

fun listen_step :: "cli_codec \<Rightarrow> listen_event \<Rightarrow> listen_session \<Rightarrow> listen_session" where
  "listen_step C (PrintsFrame f) l = print_turn C f l"
| "listen_step C (LoopTurn w) l = loop_turn w l"
| "listen_step C ConnectionLost l = l\<lparr>li_client := (li_client l)\<lparr>i_connected := False\<rparr>\<rparr>"

definition listen_run :: "cli_codec \<Rightarrow> listen_event list \<Rightarrow> listen_session \<Rightarrow> listen_session" where
  "listen_run C evs l = fold (listen_step C) evs l"

section \<open>What it prints\<close>

fun printed_frames :: "listen_event list \<Rightarrow> frame list" where
  "printed_frames [] = []"
| "printed_frames (PrintsFrame f # evs) = f # printed_frames evs"
| "printed_frames (_ # evs) = printed_frames evs"

definition printable :: "frame \<Rightarrow> bool" where
  "printable f \<longleftrightarrow> f_sender f \<noteq> None \<and> f_payload_pos f \<le> length (f_buf f)"

lemma print_frame_total: "printable f \<Longrightarrow> \<exists>out. print_frame C f = Some out"
  by (auto simp: printable_def print_frame_def print_from_def frame_sender_def frame_primary_sender_def frame_payload_def)

text \<open>Every frame the reader of the client delivers can be printed.\<close>

lemma receive_printable:
  assumes "\<forall>f \<in> set fs. broker_frame f" and "\<forall>f \<in> set (rd_events rd). printable f"
  shows "\<forall>f \<in> set (rd_events (fold receive fs rd)). printable f"
  using assms
proof (induction fs arbitrary: rd)
  case (Cons f fs)
  have p: "printable (arrives f)" if "routed_frame f"
    using that by (auto simp: printable_def routed_frame_def arrives_def frame_new_def Let_def)
  have "\<forall>g \<in> set (rd_events (receive f rd)). printable g"
    using Cons.prems p
    by (auto simp: broker_frame_def receive_def new_nop_def ack_frame_def frame_new_def resolve_ack_def split: option.splits)
  with Cons show ?case by simp
qed simp

text \<open>
  As long as the connection holds and the frames can be printed, the command runs and has printed every frame,
  in order.
\<close>

lemma listen_run_prints:
  assumes "\<forall>f \<in> set (printed_frames evs). printable f" and "li_running l" and "li_printing l" and "i_connected (li_client l)"
    and "\<forall>ev \<in> set evs. case ev of LoopTurn w \<Rightarrow> w = Written | ConnectionLost \<Rightarrow> False | PrintsFrame _ \<Rightarrow> True"
  shows "li_running (listen_run C evs l) \<and>
    li_out (listen_run C evs l) = li_out l @ concat (map (\<lambda>f. the (print_frame C f)) (printed_frames evs))"
  using assms
proof (induction evs arbitrary: l)
  case (Cons ev evs)
  show ?case
  proof (cases ev)
    case (PrintsFrame f)
    then obtain out where "print_frame C f = Some out" using print_frame_total [of f C] Cons.prems(1) by auto
    with Cons PrintsFrame show ?thesis by (simp add: listen_run_def print_turn_def)
  next
    case (LoopTurn w)
    with Cons.prems(5) have w: "w = Written" by simp
    have "i_connected (snd (ipc_ping Written (li_client l)))"
      using Cons.prems(4) by (simp add: ipc_ping_def send_data_or_mark_disconnected_def)
    with Cons LoopTurn w show ?thesis by (simp add: listen_run_def loop_turn_def)
  next
    case ConnectionLost
    with Cons.prems(5) show ?thesis by simp
  qed
qed (simp add: listen_run_def)

text \<open>After the connection is lost the next turn of the loop ends the command.\<close>

lemma listen_ends:
  assumes "li_running l"
  shows "\<not> li_running (listen_run C [ConnectionLost, LoopTurn w] l)"
  using assms by (simp add: listen_run_def loop_turn_def)

text \<open>The frames the broker writes to the command are printed one after the other.\<close>

lemma listener_prints_broker_frames:
  assumes "\<forall>f \<in> set fs. broker_frame f" and "rd_events rd = []"
    and "printed_frames evs = rd_events (fold receive fs rd)"
    and "\<forall>ev \<in> set evs. case ev of LoopTurn w \<Rightarrow> w = Written | ConnectionLost \<Rightarrow> False | PrintsFrame _ \<Rightarrow> True"
    and "listen_begin w1 c1 w2 c2 name cmd cl = Done l" and "i_connected (li_client l)"
  shows "li_out (listen_run C evs l) =
    li_out l @ concat (map (\<lambda>f. the (print_frame C f)) (rd_events (fold receive fs rd)))"
proof -
  have l: "li_running l" "li_printing l"
    using assms(5) by (auto simp: listen_begin_def split: eff.splits)
  have "\<forall>f \<in> set (printed_frames evs). printable f" using receive_printable [OF assms(1), of rd] assms(2,3) by simp
  from listen_run_prints [OF this l assms(6,4)] assms(3) show ?thesis by simp
qed

end
