(* ===== verification/Bus_Examples.thy ===== *)
theory Bus_Examples
  imports Bus_Daemon "HOL-Library.Multiset"
begin

text \<open>
  Examples of the repository that configure or extend the bus: the access map of \<open>src/examples/broker_aaa.rs\<close>, the
  handler of \<open>src/examples/broker_custom_rpc.rs\<close>, and the counter service of \<open>src/examples/client_rpc_handler.rs\<close>
  with its client \<open>src/examples/client_rpc.rs\<close>.  The encodings of \<open>rmp_serde\<close> are an argument.
\<close>

section \<open>A broker with access control\<close>

definition aaa_test :: "('sm, 'bm, 'am, 'ch) ctx \<Rightarrow> 'am client_aaa" where
  "aaa_test X = set_hosts_allow [''127.0.0.0/8''] (client_aaa_default X)"

definition aaa_test2 :: "('sm, 'bm, 'am, 'ch) ctx \<Rightarrow> 'am client_aaa" where
  "aaa_test2 X =
     set_p2p_to X [''test'']
       (deny_broadcast X (deny_subscribe X (set_publish_to X [''news/#''] (client_aaa_default X))))"

definition demo_aaa_map :: "('sm, 'bm, 'am, 'ch) ctx \<Rightarrow> string \<rightharpoonup> 'am client_aaa" where
  "demo_aaa_map X = [''test'' \<mapsto> aaa_test X, ''test2'' \<mapsto> aaa_test2 X]"

context acl_map
begin

text \<open>The client \<open>test\<close> may do anything, from the hosts of its network.\<close>

lemma demo_test:
  "p2p_allowed X (demo_aaa_map X ''test'') t" "publish_allowed X (demo_aaa_map X ''test'') t"
  "subscribe_allowed X (demo_aaa_map X ''test'') t" "broadcast_allowed X (demo_aaa_map X ''test'') t"
  "connect_allowed X (the (demo_aaa_map X ''test'')) addr \<longleftrightarrow> net_contains X ''127.0.0.0/8'' addr"
  by (simp_all add: demo_aaa_map_def aaa_test_def set_hosts_allow_def client_aaa_default_def allowed_defs connect_allowed_def)

text \<open>The client \<open>test2\<close> may send to \<open>test\<close> and publish below \<open>news\<close>, and nothing else.\<close>

lemma demo_test2:
  "p2p_allowed X (demo_aaa_map X ''test2'') t \<longleftrightarrow> acl_match (am_new X CHR ''.'' ''?'' ''*'') ''test'' t"
  "publish_allowed X (demo_aaa_map X ''test2'') t \<longleftrightarrow> acl_match (am_new X CHR ''/'' ''+'' ''#'') ''news/#'' t"
  "\<not> subscribe_allowed X (demo_aaa_map X ''test2'') t" "\<not> broadcast_allowed X (demo_aaa_map X ''test2'') t"
  by (simp_all add: demo_aaa_map_def aaa_test2_def set_p2p_to_def set_publish_to_def deny_subscribe_def deny_broadcast_def
      client_aaa_default_def allowed_defs amv_matches amv_insert amv_new amv_default acl_match_insert)

end

lemma demo_test2_ref:
  "publish_allowed ref_ctx (demo_aaa_map ref_ctx ''test2'') ''news/today''"
  "\<not> publish_allowed ref_ctx (demo_aaa_map ref_ctx ''test2'') ''olds''"
  "p2p_allowed ref_ctx (demo_aaa_map ref_ctx ''test2'') ''test''"
  "\<not> p2p_allowed ref_ctx (demo_aaa_map ref_ctx ''test2'') ''test2''"
proof -
  have "mask_match CHR ''/'' ''+'' ''#'' ''news/#'' ''news/today''" "\<not> mask_match CHR ''/'' ''+'' ''#'' ''news/#'' ''olds''"
    "mask_match CHR ''.'' ''?'' ''*'' ''test'' ''test''" "\<not> mask_match CHR ''.'' ''?'' ''*'' ''test'' ''test2''" by code_simp+
  then show "publish_allowed ref_ctx (demo_aaa_map ref_ctx ''test2'') ''news/today''"
    "\<not> publish_allowed ref_ctx (demo_aaa_map ref_ctx ''test2'') ''olds''"
    "p2p_allowed ref_ctx (demo_aaa_map ref_ctx ''test2'') ''test''"
    "\<not> p2p_allowed ref_ctx (demo_aaa_map ref_ctx ''test2'') ''test2''"
    by (simp_all only: ref.demo_test2) (simp_all add: ref_acl_match_def ref_ctx_def)
qed

text \<open>\<open>main\<close>: the broker with its server, then every five seconds the end of the session of \<open>test2\<close>.\<close>

definition demo_aaa_start ::
  "('sm, 'bm, 'am, 'ch) ctx \<Rightarrow> io_kind option \<Rightarrow> string set
     \<Rightarrow> (error, unit) eff \<times> string set \<times> ('sm, 'bm, 'am, 'ch) broker_app" where
  "demo_aaa_start X bound fs =
     (let broker = broker_app_new X
      in case init_default_core_rpc X (ba_queue_size broker) (ba_db broker) of
           (Done _, db) \<Rightarrow>
             spawn_tcp_server bound ''0.0.0.0:7777'' (server_config_default\<lparr>sc_aaa_map := Some (demo_aaa_map X)\<rparr>)
               (fs, broker\<lparr>ba_db := db\<rparr>)
         | (Bail e, db) \<Rightarrow> (Bail e, fs, broker\<lparr>ba_db := db\<rparr>)
         | (Pending, db) \<Rightarrow> (Pending, fs, broker\<lparr>ba_db := db\<rparr>))"

definition demo_aaa_turn :: "('sm, 'bm, 'am, 'ch) broker_app \<Rightarrow> error option \<times> ('sm, 'bm, 'am, 'ch) broker_app" where
  "demo_aaa_turn broker =
     (case force_disconnect ''test2'' (ba_db broker) of
        (Inl e, db) \<Rightarrow> (Some e, broker\<lparr>ba_db := db\<rparr>)
      | (Inr _, db) \<Rightarrow> (None, broker\<lparr>ba_db := db\<rparr>))"

lemma demo_aaa_starts:
  "\<exists>broker. demo_aaa_start X None fs = (Done (), fs, broker) \<and>
     ba_services broker = [Listening \<lparr>l_path = ''0.0.0.0:7777'',
       l_config = server_config_default\<lparr>sc_aaa_map := Some (demo_aaa_map X)\<rparr>, l_queue_size = DEFAULT_QUEUE_SIZE,
       l_direct_alloc_limit = None, l_async_allocator = None, l_kind = Tcp, l_tls = False\<rparr>]"
proof -
  have "broker_db_default X = broker_create X False" by (simp add: broker_create_def broker_db_default_def)
  then obtain db where "init_default_core_rpc X DEFAULT_QUEUE_SIZE (broker_db_default X) = (Done (), db)"
    using init_default_core_rpc_fresh [of X DEFAULT_QUEUE_SIZE False] by auto
  then show ?thesis
    by (simp add: demo_aaa_start_def broker_app_new_def spawn_tcp_server_def spawn_server_def push_service_def)
qed

text \<open>A turn tells a connected \<open>test2\<close> to end its session, or prints that there is no such client.\<close>

lemma demo_aaa_turn_outcome:
  "b_clients (ba_db broker) ''test2'' = None \<Longrightarrow> demo_aaa_turn broker = (Some err_not_registered, broker)"
  "b_clients (ba_db broker) ''test2'' = Some c \<Longrightarrow> c_kind (obj (ba_db broker) c) \<noteq> Internal \<Longrightarrow>
     demo_aaa_turn broker = (None, broker\<lparr>ba_db := trigger c (ba_db broker)\<rparr>)"
  by (simp_all add: demo_aaa_turn_def force_disconnect_def trigger_disconnect_def)

section \<open>Custom methods of the broker\<close>

text \<open>\<open>dec_ping\<close> decodes \<open>PingParams\<close>.\<close>

definition custom_method :: "(bytes \<Rightarrow> string + string option) \<Rightarrow> string \<Rightarrow> bytes \<Rightarrow> rpc_result" where
  "custom_method dec_ping method payload =
     (if method = ''test'' then Inr (Some (as_bytes ''passed''))
      else if method = ''ping'' then
        (case dec_ping payload of
           Inl e \<Rightarrow> Inl (rpc_error_from_decode e)
         | Inr message \<Rightarrow> Inr (map_option as_bytes message))
      else Inl (rpc_error_method None))"

definition custom_handle_call :: "(bytes \<Rightarrow> string + string option) \<Rightarrow> rpc_event \<Rightarrow> rpc_result option" where
  "custom_handle_call dec_ping event =
     (case event_parse_method event of
        None \<Rightarrow> None
      | Some (Inl e) \<Rightarrow> Some (Inl (rpc_error_from e))
      | Some (Inr method) \<Rightarrow> map_option (custom_method dec_ping method) (event_payload event))"

definition custom_print_notification :: "rpc_event \<Rightarrow> string option" where
  "custom_print_notification event =
     (case (frame_sender (re_frame event), event_payload event) of
        (Some sender, Some payload) \<Rightarrow>
          Some (''Got RPC notification from '' @ sender @ '': '' @
            (case parse_str payload of Inr s \<Rightarrow> s | Inl _ \<Rightarrow> ''something unreadable''))
      | _ \<Rightarrow> None)"

section \<open>A counter\<close>

record counter_codec =
  enc_ok :: "string + bytes"
  enc_value :: "u64 \<Rightarrow> string + bytes"
  enc_add :: "u32 \<Rightarrow> string + bytes"
  dec_add :: "bytes \<Rightarrow> string + u64"
  dec_amount :: "bytes \<Rightarrow> string + u64"

definition some_encoded :: "string + bytes \<Rightarrow> rpc_result" where
  "some_encoded r = (case r of Inl e \<Rightarrow> Inl (rpc_error_from_encode e) | Inr v \<Rightarrow> Inr (Some v))"

text \<open>The counter is atomic: \<open>fetch_add\<close> wraps around.\<close>

definition counter_method :: "counter_codec \<Rightarrow> string \<Rightarrow> bytes \<Rightarrow> u64 \<Rightarrow> rpc_result \<times> u64" where
  "counter_method C method payload counter =
     (if method = ''test'' then (some_encoded (enc_ok C), counter)
      else if method = ''get'' then (some_encoded (enc_value C counter), counter)
      else if method = ''add'' then
        (case dec_add C payload of
           Inl e \<Rightarrow> (Inl (rpc_error_from_decode e), counter)
         | Inr value \<Rightarrow> (Inr None, counter + value))
      else (Inl (rpc_error_method None), counter))"

definition counter_handle_call :: "counter_codec \<Rightarrow> rpc_event \<Rightarrow> u64 \<Rightarrow> (rpc_result \<times> u64) option" where
  "counter_handle_call C event counter =
     (case event_parse_method event of
        None \<Rightarrow> None
      | Some (Inl e) \<Rightarrow> Some (Inl (rpc_error_from e), counter)
      | Some (Inr method) \<Rightarrow>
          map_option (\<lambda>payload. counter_method C method payload counter) (event_payload event))"

text \<open>The requests that other clients make meanwhile, in the order of their handlers.\<close>

definition counter_after :: "counter_codec \<Rightarrow> (string \<times> bytes) list \<Rightarrow> u64 \<Rightarrow> u64" where
  "counter_after C reqs counter = fold (\<lambda>(m, p) n. snd (counter_method C m p n)) reqs counter"

definition added_by :: "counter_codec \<Rightarrow> string \<times> bytes \<Rightarrow> u64" where
  "added_by C r = (case r of (m, p) \<Rightarrow> if m = ''add'' then (case dec_add C p of Inr v \<Rightarrow> v | Inl _ \<Rightarrow> 0) else 0)"

datatype counter_error = CounterCall rpc_error | CounterCodec string

text \<open>The client: \<open>others\<close> and \<open>others'\<close> are what happens after its first and its second request.\<close>

definition client_rpc ::
  "counter_codec \<Rightarrow> (string \<times> bytes) list \<Rightarrow> (string \<times> bytes) list \<Rightarrow> u64 \<Rightarrow> counter_error + u64" where
  "client_rpc C others others' counter =
     (let n1 = counter_after C others (snd (counter_method C ''test'' [] counter))
      in case enc_add C 10 of
        Inl e \<Rightarrow> Inl (CounterCodec e)
      | Inr payload \<Rightarrow>
          (case counter_method C ''add'' payload n1 of
             (Inl e, n2) \<Rightarrow> Inl (CounterCall e)
           | (Inr _, n2) \<Rightarrow>
               (case counter_method C ''get'' [] (counter_after C others' n2) of
                  (Inl e, n3) \<Rightarrow> Inl (CounterCall e)
                | (Inr result, n3) \<Rightarrow>
                    (case dec_amount C (case result of Some v \<Rightarrow> v | None \<Rightarrow> []) of
                       Inl e \<Rightarrow> Inl (CounterCodec e)
                     | Inr value \<Rightarrow> Inr value))))"

lemma counter_method_adds: "snd (counter_method C m p n) = n + added_by C (m, p)"
  by (simp add: counter_method_def added_by_def split: sum.splits)

lemma counter_after_sum: "counter_after C reqs n = n + sum_list (map (added_by C) reqs)"
  by (induction reqs arbitrary: n) (auto simp: counter_after_def counter_method_adds add.assoc split: prod.splits)

text \<open>The handlers run in any order: the counter is the same.\<close>

lemma counter_order:
  assumes "mset reqs = mset reqs'"
  shows "counter_after C reqs n = counter_after C reqs' n"
proof -
  have "sum_list (map (added_by C) reqs) = sum_list (map (added_by C) reqs')"
    using assms by (metis mset_map sum_mset_sum_list)
  then show ?thesis by (simp add: counter_after_sum)
qed

text \<open>The client reads the counter with its own addition and those of the others.\<close>

lemma client_rpc_reads:
  assumes "\<exists>v. enc_add C 10 = Inr v \<and> dec_add C v = Inr 10" and "\<And>n. \<exists>v. enc_value C n = Inr v \<and> dec_amount C v = Inr n"
  shows "client_rpc C others others' n = Inr (n + 10 + sum_list (map (added_by C) (others @ others')))"
proof -
  obtain v where v: "enc_add C 10 = Inr v" "dec_add C v = Inr 10" using assms(1) by blast
  let ?n = "counter_after C others' (counter_after C others (snd (counter_method C ''test'' [] n)) + 10)"
  obtain w where "enc_value C ?n = Inr w" "dec_amount C w = Inr ?n" using assms(2) by blast
  with v have "client_rpc C others others' n = Inr ?n"
    by (simp add: client_rpc_def counter_method_def some_encoded_def Let_def)
  then show ?thesis by (simp add: counter_after_sum counter_method_adds added_by_def algebra_simps)
qed

end
