(* ===== verification/Bus_InterThread.thy ===== *)
theory Bus_InterThread
  imports Bus_Spec
begin

text \<open>
  A program over the bus: \<open>src/examples/inter_thread.rs\<close>.  One task sends a message every second, another a
  broadcast, the main task prints what a third client receives.  Its correctness is derived from the
  abstract bus of \<open>Bus_Spec\<close>.
\<close>

section \<open>The program\<close>

datatype inter_turn = HelloTurn | BroadcastTurn | PrintTurn

datatype loop_state = Looping | LoopPanicked | LoopWaiting

record ('sm, 'bm, 'am, 'ch) inter_thread =
  it_broker :: "('sm, 'bm, 'am, 'ch) broker"
  it_hello :: loop_state
  it_cast :: loop_state
  it_main :: loop_state
  it_printed :: "string list"

text \<open>
  What \<open>main\<close> does before its tasks start; \<open>queue_size\<close> is the one of the broker.  Its Unix socket is left out:
  no external client connects.
\<close>

definition inter_setup :: "usize \<Rightarrow> bus_cmd list" where
  "inter_setup queue_size =
     [CmdJoin BROKER_NAME queue_size, CmdCore BROKER_NAME, CmdJoin ''worker.1'' queue_size,
      CmdJoin ''worker.2'' queue_size, CmdJoin ''worker.3'' queue_size]"

definition hello_cmd :: bus_cmd where
  "hello_cmd = CmdSend ''worker.1'' ''worker.2'' (Borrowed (as_bytes ''hello'')) QosNo"

definition broadcast_cmd :: bus_cmd where
  "broadcast_cmd = CmdBroadcast ''worker.3'' ''worker.*'' (Borrowed (as_bytes ''this is a broadcast message'')) QosNo"

text \<open>The \<open>unwrap\<close> of a loop.\<close>

fun loop_unwrap :: "bus_result \<Rightarrow> loop_state" where
  "loop_unwrap (Refused e) = LoopPanicked"
| "loop_unwrap Blocked = LoopWaiting"
| "loop_unwrap _ = Looping"

text \<open>The line printed for a frame; a frame without sender panics, as does a payload outside the buffer.\<close>

definition printed_line :: "frame \<Rightarrow> string option" where
  "printed_line f =
     (case (frame_sender f, frame_payload f) of
        (Some sender, Some payload) \<Rightarrow>
          Some (sender @ '': '' @ (case from_utf8 payload of Some s \<Rightarrow> s | None \<Rightarrow> ''something unreadable''))
      | _ \<Rightarrow> None)"

text \<open>One turn of a task, at a time and with a way for waiting sends to end.\<close>

fun inter_step ::
  "('sm, 'bm, 'am, 'ch) ctx \<Rightarrow> ('ch \<Rightarrow> frame list) \<Rightarrow> u64 \<times> (cid \<Rightarrow> waited) \<times> inter_turn
     \<Rightarrow> ('sm, 'bm, 'am, 'ch) inter_thread \<Rightarrow> ('sm, 'bm, 'am, 'ch) inter_thread" where
  "inter_step X chq (t, w, HelloTurn) s =
     (if it_hello s = Looping then
        (let (r, b) = timed_exec X chq (t, w, hello_cmd) (it_broker s)
         in s\<lparr>it_broker := b, it_hello := loop_unwrap r\<rparr>)
      else s)"
| "inter_step X chq (t, w, BroadcastTurn) s =
     (if it_cast s = Looping then
        (let (r, b) = timed_exec X chq (t, w, broadcast_cmd) (it_broker s)
         in s\<lparr>it_broker := b, it_cast := loop_unwrap r\<rparr>)
      else s)"
| "inter_step X chq (t, w, PrintTurn) s =
     (if it_main s = Looping then
        (case timed_exec X chq (t, w, CmdReceive ''worker.2'' 1) (it_broker s) of
           (Received (f # _), b) \<Rightarrow>
             (case printed_line f of
                Some line \<Rightarrow> s\<lparr>it_broker := b, it_printed := it_printed s @ [line]\<rparr>
              | None \<Rightarrow> s\<lparr>it_broker := b, it_main := LoopPanicked\<rparr>)
         | (_, b) \<Rightarrow> s\<lparr>it_broker := b\<rparr>)
      else s)"

definition inter_start ::
  "('sm, 'bm, 'am, 'ch) ctx \<Rightarrow> ('ch \<Rightarrow> frame list) \<Rightarrow> (bus_cmd \<Rightarrow> u64 \<times> (cid \<Rightarrow> waited) \<times> bus_cmd) \<Rightarrow> usize
     \<Rightarrow> ('sm, 'bm, 'am, 'ch) inter_thread" where
  "inter_start X chq at queue_size =
     \<lparr>it_broker = snd (run_cmds (timed_exec X chq) (map at (inter_setup queue_size)) (broker_create X False)),
      it_hello = Looping, it_cast = Looping, it_main = Looping, it_printed = []\<rparr>"

section \<open>On the abstract bus\<close>

definition inter_bus :: "usize \<Rightarrow> frame list \<Rightarrow> frame list \<Rightarrow> frame list \<Rightarrow> bus_state" where
  "inter_bus q m1 m2 m3 =
     (let mail = (\<lambda>m. (new_member q)\<lparr>mb_mail := m\<rparr>) in
      \<lparr>bs_members = [BROKER_NAME \<mapsto> mail [], ''worker.1'' \<mapsto> mail m1, ''worker.2'' \<mapsto> mail m2, ''worker.3'' \<mapsto> mail m3],
       bs_core = Some BROKER_NAME, bs_force = False\<rparr>)"

definition hello_frame :: frame where
  "hello_frame = frame_new KMessage (Some ''worker.1'') None None (as_bytes ''hello'') 0 False"

definition broadcast_frame :: frame where
  "broadcast_frame = frame_new KBroadcast (Some ''worker.3'') None None (as_bytes ''this is a broadcast message'') 0 False"

lemma printed_lines:
  "printed_line hello_frame = Some ''worker.1: hello''"
  "printed_line broadcast_frame = Some ''worker.3: this is a broadcast message''"
  by code_simp+

text \<open>Masks that mean what the example takes them for.\<close>

definition inter_rules :: "bus_rules \<Rightarrow> bool" where
  "inter_rules R \<longleftrightarrow> \<not> br_topic R BROKER_WARN_TOPIC BROKER_INFO_TOPIC \<and> \<not> br_name R ''worker.*'' BROKER_NAME \<and>
     br_name R ''worker.*'' ''worker.1'' \<and> br_name R ''worker.*'' ''worker.2'' \<and> br_name R ''worker.*'' ''worker.3''"

lemma inter_rules_ref:
  "inter_rules (rules_of ref_ctx (mask_match CHR ''/'' ''+'' ''#'') (mask_match CHR ''.'' ''?'' ''*'') ref_acl_match)"
proof -
  have "\<not> mask_match CHR ''/'' ''+'' ''#'' BROKER_WARN_TOPIC BROKER_INFO_TOPIC" "\<not> mask_match CHR ''.'' ''?'' ''*'' ''worker.*'' BROKER_NAME"
    "mask_match CHR ''.'' ''?'' ''*'' ''worker.*'' ''worker.1''" "mask_match CHR ''.'' ''?'' ''*'' ''worker.*'' ''worker.2''"
    "mask_match CHR ''.'' ''?'' ''*'' ''worker.*'' ''worker.3''" by code_simp+
  then show ?thesis by (simp add: inter_rules_def rules_of_def)
qed

text \<open>Nobody listens to what the broker announces.\<close>

definition quiet :: "bus_state \<Rightarrow> bool" where
  "quiet s \<longleftrightarrow> (\<forall>n m. bs_members s n = Some m \<longrightarrow> mb_topics m = {BROKER_WARN_TOPIC})"

lemma tell_quiet:
  assumes "inter_rules R" and "quiet s"
  shows "tell R t ev n s = s" and "tell_fits R t ev n s"
proof -
  have q: "\<not> wants R BROKER_INFO_TOPIC m" if "bs_members s k = Some m" for k m
    using assms that by (simp add: wants_def inter_rules_def quiet_def)
  have "put f (\<lambda>_. wants R BROKER_INFO_TOPIC) s = s" for f
    using q by (cases s) (auto simp: put_def fun_eq_iff map_option_case split: option.splits)
  then show "tell R t ev n s = s" by (simp add: tell_def split: option.splits)
  show "tell_fits R t ev n s" using q by (auto simp: tell_fits_def has_space_def)
qed

lemma join_quiet:
  assumes "inter_rules R" and "quiet s" and "bs_members s n = None" and "primary_of n = n" and "0 < sz" and "n \<in> N"
  shows "cmd_fits R N t (CmdJoin n sz) s" and "quiet (with_member n (new_member sz) s)"
    and "spec_step R t (CmdJoin n sz) s = (Granted, with_member n (new_member sz) s)"
proof -
  show q: "quiet (with_member n (new_member sz) s)"
    using assms(2) by (simp add: quiet_def with_member_def new_member_def)
  show "cmd_fits R N t (CmdJoin n sz) s" "spec_step R t (CmdJoin n sz) s = (Granted, with_member n (new_member sz) s)"
    using assms tell_quiet [OF assms(1) q] by (simp_all add: entered_def join_check_def)
qed

lemma inter_names:
  "primary_of BROKER_NAME = BROKER_NAME" "primary_of ''worker.1'' = ''worker.1''"
  "primary_of ''worker.2'' = ''worker.2''" "primary_of ''worker.3'' = ''worker.3''"
  "BROKER_NAME \<noteq> ''worker.1''" "BROKER_NAME \<noteq> ''worker.2''" "BROKER_NAME \<noteq> ''worker.3''"
  "''worker.1'' \<noteq> BROKER_NAME" "''worker.2'' \<noteq> BROKER_NAME" "''worker.3'' \<noteq> BROKER_NAME"
  by code_simp+

text \<open>The setup, and the commands of the tasks, as the abstract bus sees them.\<close>

definition workers_bus :: "usize \<Rightarrow> string list \<Rightarrow> string option \<Rightarrow> bus_state" where
  "workers_bus q ns core =
     fold (\<lambda>n. with_member n (new_member q)) ns \<lparr>bs_members = Map.empty, bs_core = core, bs_force = False\<rparr>"

lemma workers_bus:
  "quiet (workers_bus q ns core)" "bs_members (workers_bus q ns core) n = (if n \<in> set ns then Some (new_member q) else None)"
  "with_member n (new_member q) (workers_bus q ns core) = workers_bus q (ns @ [n]) core"
  "workers_bus q ns core\<lparr>bs_core := c\<rparr> = workers_bus q ns c"
proof -
  show m: "bs_members (workers_bus q ns core) n = (if n \<in> set ns then Some (new_member q) else None)" for n
    by (induction ns rule: rev_induct) (simp_all add: workers_bus_def with_member_def)
  show "quiet (workers_bus q ns core)" by (simp add: quiet_def m) (simp add: new_member_def)
  show "with_member n (new_member q) (workers_bus q ns core) = workers_bus q (ns @ [n]) core" by (simp add: workers_bus_def)
  have "fold (\<lambda>n. with_member n (new_member q)) ns s\<lparr>bs_core := c\<rparr> =
      fold (\<lambda>n. with_member n (new_member q)) ns (s\<lparr>bs_core := c\<rparr>)" for s
  proof -
    have "with_member n m s\<lparr>bs_core := c\<rparr> = with_member n m (s\<lparr>bs_core := c\<rparr>)" for n m and s :: bus_state
      by (cases s) (simp add: with_member_def)
    then show ?thesis by (induction ns arbitrary: s) simp_all
  qed
  then show "workers_bus q ns core\<lparr>bs_core := c\<rparr> = workers_bus q ns c" by (simp add: workers_bus_def)
qed

lemma inter_setup_spec:
  assumes R: "inter_rules R" and q: "0 < q"
    and N: "{BROKER_NAME, ''worker.1'', ''worker.2'', ''worker.3''} \<subseteq> N" and at: "\<And>c. \<exists>t w. at c = (t, w, c)"
  shows "fits_run (timed_spec R) (timed_fits R N) (map at (inter_setup q)) (empty_bus False) \<and>
    snd (run_cmds (timed_spec R) (map at (inter_setup q)) (empty_bus False)) = inter_bus q [] [] []"
proof -
  have s: "timed_spec R (at c) = spec_step R (fst (at c)) c" "timed_fits R N (at c) = cmd_fits R N (fst (at c)) c" for c
    using at [of c] by (auto simp: timed_spec_def timed_fits_def fun_eq_iff)
  have j: "cmd_fits R N t (CmdJoin n q) (workers_bus q ns core) \<and>
      spec_step R t (CmdJoin n q) (workers_bus q ns core) = (Granted, workers_bus q (ns @ [n]) core)"
    if "n \<notin> set ns" "primary_of n = n" "n \<in> N" for n ns core t
    using join_quiet(1,3) [OF R workers_bus(1) _ that(2) q that(3)] that(1) by (simp add: workers_bus)
  have e: "empty_bus False = workers_bus q [] None" by (simp add: empty_bus_def workers_bus_def)
  have f: "workers_bus q [BROKER_NAME, ''worker.1'', ''worker.2'', ''worker.3''] (Some BROKER_NAME) = inter_bus q [] [] []"
    by (simp add: workers_bus_def with_member_def inter_bus_def new_member_def)
  have n: "BROKER_NAME \<in> N" "''worker.1'' \<in> N" "''worker.2'' \<in> N" "''worker.3'' \<in> N" using N by simp_all
  show ?thesis
    unfolding inter_setup_def e f [symmetric]
    by (simp add: s j n inter_names workers_bus(2,4) del: cmd_fits.simps(1) spec_step.simps(1))
qed

lemma hello_spec:
  "length m2 < q \<Longrightarrow> cmd_fits R N t hello_cmd (inter_bus q m1 m2 m3)"
  "spec_step R t hello_cmd (inter_bus q m1 m2 m3) = (Answered None, inter_bus q m1 (m2 @ [hello_frame]) m3)"
  by (auto simp: hello_cmd_def inter_bus_def Let_def has_space_def put_def new_member_def note_of_def hello_frame_def
      make_confirm_channel_def fun_eq_iff inter_names split: if_splits)

lemma broadcast_spec:
  assumes "inter_rules R"
  shows "length m1 < q \<Longrightarrow> length m2 < q \<Longrightarrow> length m3 < q \<Longrightarrow> cmd_fits R N t broadcast_cmd (inter_bus q m1 m2 m3)"
    and "spec_step R t broadcast_cmd (inter_bus q m1 m2 m3) =
      (Answered None, inter_bus q (m1 @ [broadcast_frame]) (m2 @ [broadcast_frame]) (m3 @ [broadcast_frame]))"
  using assms
  by (auto simp: inter_rules_def broadcast_cmd_def inter_bus_def Let_def has_space_def put_def new_member_def note_of_def
      broadcast_frame_def make_confirm_channel_def fun_eq_iff inter_names split: if_splits)

lemma receive_spec:
  "cmd_fits R N t (CmdReceive ''worker.2'' 1) (inter_bus q m1 m2 m3)"
  "spec_step R t (CmdReceive ''worker.2'' 1) (inter_bus q m1 m2 m3) =
     (Received (take 1 m2), inter_bus q m1 (drop 1 m2) m3)"
  by (auto simp: inter_bus_def Let_def change_def new_member_def fun_eq_iff inter_names)

section \<open>The program over the broker\<close>

text \<open>What a turn sends, as it will be printed; how many frames wait for the main task afterwards.\<close>

fun sent_lines :: "inter_turn \<Rightarrow> string list" where
  "sent_lines HelloTurn = [''worker.1: hello'']"
| "sent_lines BroadcastTurn = [''worker.3: this is a broadcast message'']"
| "sent_lines PrintTurn = []"

fun backlog_after :: "nat \<Rightarrow> inter_turn list \<Rightarrow> nat" where
  "backlog_after n [] = n"
| "backlog_after n (PrintTurn # ts) = backlog_after (n - 1) ts"
| "backlog_after n (_ # ts) = backlog_after (Suc n) ts"

text \<open>
  The queues have room: that of \<open>worker.2\<close>, which is read, and those of \<open>worker.1\<close> and \<open>worker.3\<close>, which
  nobody reads, so that they hold every broadcast.
\<close>

fun inter_room :: "usize \<Rightarrow> nat \<Rightarrow> nat \<Rightarrow> inter_turn list \<Rightarrow> bool" where
  "inter_room q casts n [] = True"
| "inter_room q casts n (HelloTurn # ts) = (n < q \<and> inter_room q casts (Suc n) ts)"
| "inter_room q casts n (BroadcastTurn # ts) = (casts < q \<and> n < q \<and> inter_room q (Suc casts) (Suc n) ts)"
| "inter_room q casts n (PrintTurn # ts) = inter_room q casts (n - 1) ts"

definition inter_out :: "frame list \<Rightarrow> ('sm, 'bm, 'am, 'ch) inter_thread \<Rightarrow> string list" where
  "inter_out m2 s = it_printed s @ map (the \<circ> printed_line) m2"

context broker_libs
begin

definition inter_inv :: "string set \<Rightarrow> usize \<Rightarrow> nat \<Rightarrow> frame list \<Rightarrow> ('sm, 'bm, 'am, 'ch) inter_thread \<Rightarrow> bool" where
  "inter_inv N q casts m2 s \<longleftrightarrow>
     good N (it_broker s) \<and> it_hello s = Looping \<and> it_cast s = Looping \<and> it_main s = Looping \<and>
     set m2 \<subseteq> {hello_frame, broadcast_frame} \<and>
     (\<exists>m1 m3. view (it_broker s) = inter_bus q m1 m2 m3 \<and> length m1 = casts \<and> length m3 = casts)"

lemma inter_step_inv:
  assumes R: "inter_rules rules" and inv: "inter_inv N q casts m2 s"
  shows "length m2 < q \<Longrightarrow> inter_inv N q casts (m2 @ [hello_frame]) (inter_step X chq (t, w, HelloTurn) s) \<and>
      it_printed (inter_step X chq (t, w, HelloTurn) s) = it_printed s"
    and "casts < q \<Longrightarrow> length m2 < q \<Longrightarrow>
      inter_inv N q (Suc casts) (m2 @ [broadcast_frame]) (inter_step X chq (t, w, BroadcastTurn) s) \<and>
      it_printed (inter_step X chq (t, w, BroadcastTurn) s) = it_printed s"
    and "inter_inv N q casts (drop 1 m2) (inter_step X chq (t, w, PrintTurn) s) \<and>
      it_printed (inter_step X chq (t, w, PrintTurn) s) = it_printed s @ map (the \<circ> printed_line) (take 1 m2)"
proof -
  obtain m1 m3 where v: "view (it_broker s) = inter_bus q m1 m2 m3" "length m1 = casts" "length m3 = casts"
    using inv by (auto simp: inter_inv_def)
  have g: "good N (it_broker s)" and run: "it_hello s = Looping" "it_cast s = Looping" "it_main s = Looping"
    and fs: "set m2 \<subseteq> {hello_frame, broadcast_frame}" using inv by (simp_all add: inter_inv_def)
  have sim: "fst (timed_exec X chq (t, w, cmd) (it_broker s)) = fst (spec_step rules t cmd (inter_bus q m1 m2 m3)) \<and>
      view (snd (timed_exec X chq (t, w, cmd) (it_broker s))) = snd (spec_step rules t cmd (inter_bus q m1 m2 m3)) \<and>
      good N (snd (timed_exec X chq (t, w, cmd) (it_broker s)))"
    if "cmd_fits rules N t cmd (inter_bus q m1 m2 m3)" for cmd
    using bus.simulates [where N = N and s = "it_broker s" and c = "(t, w, cmd)"] g that
    by (simp add: v(1) timed_spec_def timed_fits_def)
  show "inter_inv N q casts (m2 @ [hello_frame]) (inter_step X chq (t, w, HelloTurn) s) \<and>
      it_printed (inter_step X chq (t, w, HelloTurn) s) = it_printed s" if "length m2 < q"
    using sim [OF hello_spec(1) [OF that]] run fs v(2,3)
    by (auto simp: inter_inv_def hello_spec(2) split_beta simp del: spec_step.simps)
  show "inter_inv N q (Suc casts) (m2 @ [broadcast_frame]) (inter_step X chq (t, w, BroadcastTurn) s) \<and>
      it_printed (inter_step X chq (t, w, BroadcastTurn) s) = it_printed s" if "casts < q" "length m2 < q"
    using sim [OF broadcast_spec(1) [OF R]] that run fs v(2,3)
    by (fastforce simp: inter_inv_def broadcast_spec(2) [OF R] split_beta simp del: spec_step.simps)
  show "inter_inv N q casts (drop 1 m2) (inter_step X chq (t, w, PrintTurn) s) \<and>
      it_printed (inter_step X chq (t, w, PrintTurn) s) = it_printed s @ map (the \<circ> printed_line) (take 1 m2)"
    using sim [OF receive_spec(1)] run fs v(2,3)
    by (cases m2; cases "timed_exec X chq (t, w, CmdReceive ''worker.2'' 1) (it_broker s)")
       (auto simp: inter_inv_def receive_spec(2) [unfolded One_nat_def] printed_lines simp del: spec_step.simps, blast+)
qed

text \<open>Both senders go on for ever, and the main task prints what they send, in order, up to what still waits.\<close>

lemma inter_run:
  assumes R: "inter_rules rules" and "inter_inv N q casts m2 s"
    and "inter_room q casts (length m2) (map (\<lambda>(t, w, e). e) evs)"
  shows "\<exists>casts' m2'. inter_inv N q casts' m2' (fold (inter_step X chq) evs s) \<and>
    length m2' = backlog_after (length m2) (map (\<lambda>(t, w, e). e) evs) \<and>
    inter_out m2' (fold (inter_step X chq) evs s) =
      inter_out m2 s @ concat (map (\<lambda>(t, w, e). sent_lines e) evs)"
  using assms(2,3)
proof (induction evs arbitrary: s casts m2)
  case (Cons ev evs)
  obtain t w e where ev: "ev = (t, w, e)" by (cases ev)
  note step = inter_step_inv [OF R Cons.prems(1), of t w]
  have pr: "the (printed_line hello_frame) = ''worker.1: hello''"
    "the (printed_line broadcast_frame) = ''worker.3: this is a broadcast message''" by (simp_all add: printed_lines)
  show ?case
  proof (cases e)
    case HelloTurn
    with Cons.prems(2) step(1) Cons.IH [of casts "m2 @ [hello_frame]" "inter_step X chq ev s"] show ?thesis
      by (simp add: ev inter_out_def pr del: inter_step.simps)
  next
    case BroadcastTurn
    with Cons.prems(2) step(2) Cons.IH [of "Suc casts" "m2 @ [broadcast_frame]" "inter_step X chq ev s"] show ?thesis
      by (simp add: ev inter_out_def pr del: inter_step.simps)
  next
    case PrintTurn
    with Cons.prems(2) step(3) Cons.IH [of casts "drop 1 m2" "inter_step X chq ev s"] show ?thesis
      by (cases m2) (simp_all add: ev inter_out_def del: inter_step.simps)
  qed
qed auto

lemma inter_program:
  assumes R: "inter_rules rules" and q: "0 < q" and inj: "inj_on (sha256 X) N"
    and N: "{BROKER_NAME, ''worker.1'', ''worker.2'', ''worker.3''} \<subseteq> N" and at: "\<And>c. \<exists>t w. at c = (t, w, c)"
    and room: "inter_room q 0 0 (map (\<lambda>(t, w, e). e) evs)"
  defines "s \<equiv> fold (inter_step X chq) evs (inter_start X chq at q)"
    and "sent \<equiv> concat (map (\<lambda>(t, w, e). sent_lines e) evs)"
  shows "it_hello s = Looping \<and> it_cast s = Looping \<and> it_main s = Looping \<and>
    it_printed s = take (length sent - backlog_after 0 (map (\<lambda>(t, w, e). e) evs)) sent"
proof -
  have "inter_inv N q 0 [] (inter_start X chq at q)"
    using bus.runs_agree [where N = N and s = "broker_create X False" and cs = "map at (inter_setup q)"]
      create_view [OF inj, of False] inter_setup_spec [OF R q N at]
    by (simp add: inter_inv_def inter_start_def)
  from inter_run [OF R this, of evs] room obtain casts m2 where
    i: "inter_inv N q casts m2 s" and l: "length m2 = backlog_after 0 (map (\<lambda>(t, w, e). e) evs)"
    and o: "inter_out m2 s = inter_out [] (inter_start X chq at q) @ sent"
    unfolding s_def sent_def list.size by blast
  then have o: "inter_out m2 s = sent" by (simp add: inter_out_def inter_start_def)
  from o have "it_printed s = take (length sent - length m2) sent" by (auto simp: inter_out_def)
  with i l show ?thesis by (simp add: inter_inv_def)
qed

text \<open>Once a queue nobody reads is full, the broadcaster waits, whichever client it comes to first.\<close>

lemma deliver_waits:
  assumes "\<forall>s \<in> snd ` set subs. c_kind (obj b s) = Internal" and "c \<in> snd ` set subs"
    and "ch_is_full X (c_tx (obj b c))" and "\<not> chclosed (c_tx (obj b c))" and "waits X c = Elapsed"
  shows "fst (deliver X ann None len f subs b) = Pending"
  using assms(1-4)
proof (induction subs arbitrary: b)
  case (Cons sub subs)
  define b1 where "b1 = client_w (snd sub) len b"
  obtain r b2 where r: "channel_send X (snd sub) f b1 = (r, b2)" by fastforce
  have same: "c_kind (obj b2 k) = c_kind (obj b k)" "k \<noteq> snd sub \<Longrightarrow> c_tx (obj b2 k) = c_tx (obj b k)" for k
    using r by (auto simp: channel_send_def b1_def obj_upd_tx split: send_poll.splits waited.splits)
  have "r = None" if "snd sub = c"
    using r that Cons.prems(3,4) assms(5) ch_send_full [of "c_tx (obj b c)" f]
    by (auto simp: channel_send_def b1_def ch_is_full)
  moreover have "fst (deliver X ann None len f subs b2) = Pending" if "snd sub \<noteq> c"
    using that Cons.prems by (intro Cons.IH) (auto simp: same)
  moreover have "c_kind (obj b1 (snd sub)) = Internal" using Cons.prems(1) by (simp add: b1_def)
  ultimately show ?case
    by (cases r) (auto simp: act_then_def safe_send_frame_def r b1_def [symmetric])
qed simp

lemma broadcaster_waits:
  fixes s :: "('sm, 'bm, 'am, 'ch) inter_thread"
  defines "subs \<equiv> bm_get_clients_by_mask X ''worker.*'' (b_broadcasts (it_broker s))"
  assumes "it_cast s = Looping" and "\<forall>j \<in> snd ` set subs. c_kind (obj (it_broker s) j) = Internal"
    and "c \<in> snd ` set subs" and "ch_is_full X (c_tx (obj (it_broker s) c))"
    and "\<not> chclosed (c_tx (obj (it_broker s) c))" and "w c = Elapsed"
  shows "it_cast (inter_step X chq (t, w, BroadcastTurn) s) = LoopWaiting"
proof -
  have "fst (deliver (at_time t w X) (announce (at_time t w X)) None len f subs b) = Pending"
    if "\<And>k. c_kind (obj b k) = c_kind (obj (it_broker s) k)" "\<And>k. c_tx (obj b k) = c_tx (obj (it_broker s) k)" for len f b
    using assms that by (intro broker_libs.deliver_waits [OF at_time_libs [OF broker_libs_axioms], of subs b c]) (auto simp: at_time_def)
  moreover have "subs \<noteq> []" using assms(4) by auto
  moreover have "bm_get_clients_by_mask (at_time t w X) ''worker.*'' (b_broadcasts (count_r k len (it_broker s))) = subs" for k len
    by (simp add: subs_def at_time_def)
  ultimately have p: "fst (send_broadcast (at_time t w X) (announce (at_time t w X)) k ''worker.*'' None buf 0 len rt None
      (it_broker s)) = Pending" for k buf len rt
    by (simp add: send_broadcast_def)
  show ?thesis
    using p [of "k_bus (handle_of (it_broker s) ''worker.3'')" "cow_to_vec (Borrowed (as_bytes ''this is a broadcast message''))"
        "word_of_nat (cow_len (Borrowed (as_bytes ''this is a broadcast message'')))" "is_realtime QosNo"]
    by (auto simp: assms(2) timed_exec_def broadcast_cmd_def client_send_broadcast_def act_then_def split_beta
        split: eff.splits prod.splits)
qed

end

lemma broadcaster_stays_waiting:
  "it_cast s = LoopWaiting \<Longrightarrow> it_cast (fold (inter_step X chq) evs s) = LoopWaiting"
proof (induction evs arbitrary: s)
  case (Cons ev evs)
  have "it_cast (inter_step X chq ev s) = LoopWaiting" using Cons.prems
    by (induction X chq ev s rule: inter_step.induct)
       (auto simp: split_beta split: bus_result.splits list.splits option.splits prod.splits)
  then show ?case using Cons.IH by simp
qed simp

end
