(* ===== verification/Bus_Values.thy ===== *)
theory Bus_Values
  imports Bus_RpcLife Bus_SyncIpc Bus_Pubsub Bus_CursorDemo Bus_Server
begin

text \<open>
  The values of the crate that other code is built with: default parameters, conversions, and the accessors of
  clients, events and publications, with what holds of them for the values the components produce.  Also the
  life of a cursor map, whose cleaner runs until the map is dropped.
\<close>

section \<open>Defaults\<close>

definition DEFAULT_TIMEOUT :: duration where "DEFAULT_TIMEOUT = 1 * 10 ^ 9"
definition DEFAULT_BUF_TTL :: duration where "DEFAULT_BUF_TTL = 10 * 10 ^ 3"
definition DEFAULT_BUF_SIZE :: usize where "DEFAULT_BUF_SIZE = 8192"

text \<open>Clients and servers start from the same parameters.\<close>

lemma default_parameters:
  "cfg_timeout (ipc_config_new path name) = DEFAULT_TIMEOUT" "ycfg_timeout (sync_config_new path name) = DEFAULT_TIMEOUT"
  "sc_timeout server_config_default = DEFAULT_TIMEOUT" "cfg_buf_ttl (ipc_config_new path name) = DEFAULT_BUF_TTL"
  "sc_buf_ttl server_config_default = DEFAULT_BUF_TTL" "cfg_buf_size (ipc_config_new path name) = DEFAULT_BUF_SIZE"
  "ycfg_buf_size (sync_config_new path name) = DEFAULT_BUF_SIZE" "sc_buf_size server_config_default = DEFAULT_BUF_SIZE"
  "cfg_queue_size (ipc_config_new path name) = DEFAULT_QUEUE_SIZE"
  "ycfg_queue_size (sync_config_new path name) = DEFAULT_QUEUE_SIZE"
  by (simp_all add: ipc_config_new_def sync_config_new_def server_config_default_def DEFAULT_TIMEOUT_def
      DEFAULT_BUF_TTL_def DEFAULT_BUF_SIZE_def DEFAULT_QUEUE_SIZE_def)

section \<open>Conversions\<close>

definition err_from_elapsed :: error where "err_from_elapsed = err_timeout"

definition err_from_io_ref :: "io_kind \<Rightarrow> error" where
  "err_from_io_ref k =
     (if k = UnexpectedEof \<or> k = BrokenPipe \<or> k = ConnectionReset
      then \<lparr>e_kind = Eof, e_message = None\<rparr>
      else err_io [Shown (IoError k)])"

definition err_from_slice :: error where "err_from_slice = err_data [Shown TryFromSliceError]"

text \<open>A reference to an I/O error converts like the error itself, to the end of the connection or an I/O error.\<close>

lemma err_from_io_ref_eq: "err_from_io_ref = err_from_io"
  by (rule ext) (auto simp: err_from_io_ref_def err_from_io_def err_defs)

lemma err_from_io_kinds:
  "e_kind (err_from_io k) = (case k of OtherIo _ \<Rightarrow> Io | _ \<Rightarrow> Eof)"
  by (cases k) (simp_all add: err_from_io_def err_defs)

definition cow_from_vec :: "bytes \<Rightarrow> cow" where "cow_from_vec src = Owned src"
definition cow_from_arc :: "bytes \<Rightarrow> cow" where "cow_from_arc src = Referenced src"
definition cow_from_slice :: "bytes \<Rightarrow> cow" where "cow_from_slice src = Borrowed src"
definition empty_payload :: cow where "empty_payload = Borrowed []"

lemma cow_from_slices:
  "cow_slice (cow_from_vec v) = v" "cow_slice (cow_from_arc v) = v" "cow_slice (cow_from_slice v) = v"
  "cow_is_empty empty_payload"
  by (simp_all add: cow_from_vec_def cow_from_arc_def cow_from_slice_def empty_payload_def)

definition rpc_err_str :: "string \<Rightarrow> bytes option" where "rpc_err_str v = Some (as_bytes v)"

section \<open>Events and publications\<close>

fun event_kind_display :: "rpc_event_kind \<Rightarrow> string" where
  "event_kind_display RpcNotification = ''notifcation''"
| "event_kind_display RpcRequest = ''request''"
| "event_kind_display RpcReply = ''reply''"
| "event_kind_display RpcErrorReply = ''error reply''"

definition event_sender :: "rpc_event \<Rightarrow> string option" where
  "event_sender e = frame_sender (re_frame e)"
definition event_primary_sender :: "rpc_event \<Rightarrow> string option" where
  "event_primary_sender e = frame_primary_sender (re_frame e)"

definition pub_sender :: "publication \<Rightarrow> string option" where
  "pub_sender p = frame_sender (p_frame p)"
definition pub_primary_sender :: "publication \<Rightarrow> string option" where
  "pub_primary_sender p = frame_primary_sender (p_frame p)"
definition pub_payload :: "publication \<Rightarrow> bytes option" where
  "pub_payload p = frame_payload (p_frame p)"
definition pub_header :: "publication \<Rightarrow> bytes option" where
  "pub_header p = f_header (p_frame p)"
definition pub_is_realtime :: "publication \<Rightarrow> bool" where
  "pub_is_realtime p = f_realtime (p_frame p)"

text \<open>The accessors of an event that was parsed from a frame with a sender do not panic.\<close>

lemma event_sender_total:
  assumes "rpc_try_from f = Some (Inr e)" and "f_sender f = Some s"
  shows "event_sender e = Some s \<and> event_primary_sender e = Some (primary_of s)"
proof -
  have "re_frame e = f"
    using assms(1) by (auto simp: rpc_try_from_def Let_def split: option.splits if_splits list.splits prod.splits)
  with assms(2) show ?thesis by (simp add: event_sender_def event_primary_sender_def frame_sender_def frame_primary_sender_def)
qed

section \<open>Clients\<close>

text \<open>A client inside the broker process is always connected and has no timeout and no beacon.\<close>

definition client_is_connected :: bool where "client_is_connected = True"
definition client_get_timeout :: "duration option" where "client_get_timeout = None"
definition client_get_connected_beacon :: "bool option" where "client_get_connected_beacon = None"

definition ipc_is_connected :: "ipc_client \<Rightarrow> bool" where "ipc_is_connected cl = i_connected cl"
definition ipc_get_timeout :: "ipc_client \<Rightarrow> duration option" where
  "ipc_get_timeout cl = Some (cfg_timeout (i_config cl))"
definition ipc_get_connected_beacon :: "ipc_client \<Rightarrow> bool option" where
  "ipc_get_connected_beacon cl = Some (i_connected cl)"

definition sync_is_connected :: "sync_client \<Rightarrow> bool" where "sync_is_connected cl = y_connected cl"
definition sync_get_timeout :: "sync_client \<Rightarrow> duration option" where
  "sync_get_timeout cl = Some (ycfg_timeout (y_config cl))"
definition sync_get_connected_beacon :: "sync_client \<Rightarrow> bool option" where
  "sync_get_connected_beacon cl = Some (y_connected cl)"

text \<open>
  So an RPC client has a pinger over a socket and none inside the broker, is connected as long as its bus client,
  and inside the broker always; a call there that is not answered waits without limit.
\<close>

lemma rpc_over_clients:
  "\<exists>l. rpc_init client_get_timeout True client_get_connected_beacon opts = Some l \<and> rpc_is_connected l = client_is_connected \<and>
     \<not> rl_pinger l \<and> fst (call_send i ZcElapsed (rl_client l)) = Pending"
  "\<exists>l. rpc_init (ipc_get_timeout cl) True (ipc_get_connected_beacon cl) opts = Some l \<and> rpc_is_connected l = ipc_is_connected cl \<and>
     rl_pinger l \<and> fst (call_send i ZcElapsed (rl_client l)) = Bail (rpc_error_from err_timeout)"
  "\<exists>l. sync_rpc_init (sync_get_timeout ycl) True (sync_get_connected_beacon ycl) = Some l \<and>
     rpc_is_connected l = sync_is_connected ycl \<and>
     fst (sync_call_wait i ReplyElapsed (rl_client l)) = Bail (rpc_error_from err_timeout)"
  by (simp_all add: rpc_init_def sync_rpc_init_def rpc_is_connected_def client_get_timeout_def client_get_connected_beacon_def
      client_is_connected_def ipc_get_timeout_def ipc_get_connected_beacon_def ipc_is_connected_def sync_get_timeout_def
      sync_get_connected_beacon_def sync_is_connected_def rpc_client_new_def call_send_def sync_call_wait_def)

section \<open>The life of a cursor map\<close>

record 'c cursor_store =
  st_data :: "'c cursor_map"
  st_cleaner :: bool

definition cursor_store_new :: "'c cursor_store" where
  "cursor_store_new = \<lparr>st_data = Map.empty, st_cleaner = True\<rparr>"
definition cursor_store_drop :: "'c cursor_store \<Rightarrow> 'c cursor_store" where
  "cursor_store_drop s = s\<lparr>st_cleaner := False\<rparr>"

text \<open>One turn of the cleaner task at time \<open>now\<close>.\<close>

definition cleaner_turn :: "nat \<Rightarrow> 'c cursor_store \<Rightarrow> 'c cursor_store" where
  "cleaner_turn now s = (if st_cleaner s then s\<lparr>st_data := cleaner_tick now (st_data s)\<rparr> else s)"

text \<open>After a turn only living cursors are left, and the living ones are all left.\<close>

lemma cleaner_turn_exact:
  "st_cleaner s \<Longrightarrow> st_data (cleaner_turn now s) u = Some c \<longleftrightarrow> st_data s u = Some c \<and> is_alive now (cu_meta c)"
  "cleaner_turn now (cursor_store_drop s) = cursor_store_drop s"
  by (simp_all add: cleaner_turn_def cursor_store_drop_def cleaner_tick_Some)

end
