(* ===== verification/Spec2Isabelle.thy ===== *)
theory Spec2Isabelle
  imports Bus_Runs Bus_RpcTasks Bus_SyncRpc Bus_SyncIpc Bus_Pubsub Bus_CursorDemo Bus_Comm Bus_DaemonRun Bus_Listen Bus_Examples Bus_InterThread Bus_Values
begin

text \<open>
  \<^bold>\<open>A verification development for BUS/RT\<close>, the inter-process message bus of the crate \<open>busrt\<close> (sources
  under \<open>src/src\<close>).

  \<^bold>\<open>The program.\<close>  A broker process keeps a registry of clients.  Clients live in the broker process
  (\<open>broker.rs\<close>, struct \<open>Client\<close>) or connect over a socket (\<open>ipc.rs\<close> asynchronous, \<open>sync/ipc.rs\<close> blocking).
  A client sends frames: one-to-one messages, broadcasts to a mask of client names, and publications to
  topics, which go to the clients whose subscriptions match.  Every client has a bounded queue; for a
  socket client the broker runs a reader task (\<open>handle_reader\<close>), which parses the bytes of the client
  and routes its frames, a writer task (\<open>handle_writer\<close>), which empties the queue into the socket, and a
  pinger.  On top of the bus, \<open>rpc/\<close> and \<open>sync/rpc.rs\<close> implement calls and notifications as messages,
  \<open>tools/pubsub.rs\<close> dispatches publications to handlers, and \<open>cursors.rs\<close> keeps data cursors.  The broker
  answers calls itself (statistics, the list of clients) and executes commands from a FIFO; \<open>server.rs\<close> is the
  daemon around it and \<open>cli.rs\<close> a client for the command line.

  \<^bold>\<open>Theories.\<close>
  \<^item> \<open>Bus_Prelude\<close>: machine integers, Rust strings as byte strings with the UTF-8 decoder, little-endian
    integers, \<open>split\<close> and \<open>splitn\<close>, byte streams with \<open>read_exact\<close>, the outcome \<^typ>\<open>('e, 'a) eff\<close> of an
    asynchronous operation (done, left with an error, or waiting for ever), and \<^const>\<open>act_then\<close>, the
    sequencing of state-passing operations by \<open>?\<close>.
  \<^item> \<open>Bus_Core\<close>: \<open>lib.rs\<close>, \<open>borrow.rs\<close>, \<open>Flush\<close> of \<open>comm.rs\<close>: constants, errors, operations, QoS, frames.
  \<^item> \<open>Bus_Ids\<close>: the locale \<open>id_source\<close> of counters that skip 0; interpreted for the frame ids of both IPC
    clients and the call ids of the RPC clients.
  \<^item> \<open>Bus_Ipc\<close>: \<open>ipc.rs\<close>.  The record \<^typ>\<open>ipc_client\<close> is the struct \<open>Client\<close>; the macros that build and
    write frames, \<open>FrameWriteGuard\<close>, the \<open>AsyncClient\<close> methods, \<open>handle_read\<close>, \<open>chat\<close>.
  \<^item> \<open>Bus_SyncIpc\<close>: \<open>sync/ipc.rs\<close> likewise, and its relation to \<open>Bus_Ipc\<close>.
  \<^item> \<open>Bus_Comm\<close>: \<open>TtlBufWriter\<close> of \<open>comm.rs\<close>, with its flusher task and the flush on drop as events in any
    order; the locale \<open>buf_writer\<close> states what it relies on of the \<open>BufWriter\<close> of \<open>tokio\<close>.
  \<^item> \<open>Bus_Connect\<close>: \<open>connect\<close> and \<open>connect_stream\<close> of both IPC clients, the choice of the transport, the drop.
  \<^item> \<open>Bus_Libs\<close>: the crates \<open>submap\<close>, \<open>async_channel\<close>, \<open>rmp_serde\<close>, \<open>ipnetwork\<close> as the record \<^typ>\<open>('sm, 'bm, 'am, 'ch) ctx\<close>
    of their operations, an argument of all broker definitions; one locale per structure states what the
    broker relies on, \<open>broker_libs\<close> puts them together, and \<^const>\<open>ref_ctx\<close> is an executable instance that
    satisfies them and evaluates the concrete runs.
  \<^item> \<open>Bus_Registry\<close>, \<open>Bus_Registry_Inv\<close>: \<open>BusRtClient\<close> and \<open>BrokerDb\<close>.  Clients are objects at addresses
    (\<open>Arc\<close>), so that a client that was replaced or dropped but is still referenced is the same object
    everywhere.  \<open>insert_client\<close>, \<open>drop_client\<close>, \<open>trigger_disconnect\<close>, and the registry invariant \<^const>\<open>db_inv\<close>.
  \<^item> \<open>Bus_Routing\<close>, \<open>Bus_Routing_Inv\<close>, \<open>Bus_Delivery\<close>: the macros \<open>safe_send_frame!\<close>, \<open>send!\<close>,
    \<open>send_broadcast!\<close>, \<open>publish!\<close>, announcements of the core RPC client, registration, the internal client,
    the methods of \<open>Broker\<close>.  The locale \<open>routing_invariant\<close> proves once that routing keeps every predicate
    that dropping clients and changing queues keep; it is used for \<^const>\<open>db_inv\<close> and for "this client is
    not registered".  \<open>Bus_Delivery\<close> says who receives what.
  \<^item> \<open>Bus_Writer\<close>: \<open>handle_writer\<close>, and that the reader of the client recovers what it writes.
  \<^item> \<open>Bus_Aaa\<close>: \<open>ServerConfig\<close>, \<open>ClientAaa\<close>.
  \<^item> \<open>Bus_Reader\<close>, \<open>Bus_Reader_Inv\<close>: \<open>handle_reader\<close>, \<open>handle_pinger\<close>.
  \<^item> \<open>Bus_Peer\<close>: \<open>handle_peer\<close> from the greeting to the unregistration.  \<open>Bus_Session\<close>: the session between, as steps
    of its reader, writer and pinger among those of all other tasks (\<^const>\<open>session_step\<close>).
  \<^item> \<open>Bus_Rpc\<close>, \<open>Bus_RpcClient\<close>: \<open>rpc/mod.rs\<close>, \<open>rpc/async_client.rs\<close>, \<open>sync/rpc.rs\<close>.  \<open>Bus_RpcLife\<close>: their
    creation, the tasks of the asynchronous client as events in any order, the wait for a reply, the drop.
    \<open>Bus_RpcTasks\<close>: the processor of the asynchronous client with the tasks it starts for its handlers, in any
    interleaving (\<^const>\<open>task_step\<close>), and their task pool.
    \<open>Bus_SyncRpc\<close>: the threads of the blocking client and the mutex they share.
  \<^item> \<open>Bus_Common\<close>: \<open>common.rs\<close>, with the parsing of numbers \<open>str_to_params_map\<close> uses.
  \<^item> \<open>Bus_CoreRpc\<close>: \<open>BrokerRpcHandlers\<close>, the list of clients, \<open>send_fifo_cmd\<close>.
  \<^item> \<open>Bus_Server\<close>: \<open>Options\<close>, the struct \<open>Broker\<close> with its services, \<open>handle_connection\<close>, one turn of a listener,
    the \<open>spawn_\<close> methods.  \<open>Bus_Daemon\<close>: \<open>server.rs\<close>.  \<open>Bus_DaemonRun\<close>: its \<open>main\<close> and
    its signal handlers in any interleaving (\<^const>\<open>daemon_step\<close>).
  \<^item> \<open>Bus_Cli\<close>, \<open>Bus_Listen\<close>, \<open>Bus_Bench\<close>: \<open>cli.rs\<close>; its commands, the loop of \<open>listen\<close>, the benchmark.
  \<^item> \<open>Bus_Pubsub\<close>, \<open>Bus_Cursors\<close>: \<open>tools/pubsub.rs\<close>, \<open>cursors.rs\<close>.  \<open>Bus_CursorDemo\<close>: the server and the client of
    \<open>examples/server_cursor.rs\<close> and \<open>examples/client_cursor.rs\<close>; the locale \<open>cursor_transfer\<close> states what they rely on
    of the encodings.  \<open>Bus_Examples\<close>: the access map, the handlers and the client of four other
    examples.  \<open>Bus_InterThread\<close>: the tasks of \<open>examples/inter_thread.rs\<close>, as a program over the abstract bus.
  \<^item> \<open>Bus_Values\<close>: defaults, conversions and accessors of all components, and the life of a cursor map.
  \<^item> \<open>Bus_System\<close>: the broker as a transition system (\<^const>\<open>broker_step\<close>, \<^const>\<open>broker_reachable\<close>) whose steps
    are the operations of all tasks.  \<open>Bus_Traffic\<close>: the invariants of its queues and counters.  \<open>Bus_Spec\<close>: an
    abstract bus (members, their masks and topics, their inboxes), its operations, and the locale
    \<open>functional_simulation\<close>, by which the broker implements it.  \<open>Bus_Interleave\<close>: the operations that route,
    announce, register and unregister, cut at their awaits into small steps (\<^const>\<open>work_step\<close>) that the tasks
    interleave, with the mutex of the core RPC client.  \<open>Bus_Runs\<close>: concrete reachable brokers.

  \<^bold>\<open>What is shown.\<close>  The broker refines an abstract bus: on every sequence of commands that fits, it gives the
  answers and the deliveries of the specification, and never blocks.  The registry: its invariant in every reachable state, registration on every branch,
  forced registration, what dropping a client removes, the list of clients; the same invariant holds
  when the operations interleave at their awaits, also with cancelled tasks, and a task that runs alone does what the one-step operation
  does.  Traffic: every queued frame can
  be written, and the counters of the broker are the sums of those of its clients.  Routing: every recipient with room gets a frame
  once and nobody else gets it, slow consumers are unregistered.
  Wire protocol: writer and reader are inverse on every sequence of frames whose names are without NUL (the
  broker accepts others, and their frames are misread), a message between such names survives the whole
  way from client to client, subscriptions, handshake, flags and error codes round-trip, and no frame stays
  behind in the buffer of a writer.  Connections: who is admitted over which transport, the reader keeps the invariant on every input, a session writes
  what was queued, once and in order, and its end unregisters the client, denied operations only answer.  RPC: which accessors of a parsed event panic, a call returns the result of its
  handler in each combination of internal and IPC clients, and where it waits for ever: after a lost ping, when two blocking clients call each
  other, and when handlers that call their own client fill its task pool; with the default options it gets its reply.  A stream goes through a cursor completely.  The blocking clients do what the asynchronous
  ones do, from the connection on (a peer that takes no bytes of the handshake ends the one with the error of its write timeout
  and the other with the timeout of the connection), and a FIFO command makes the call of the same command of the
  command-line client, with another acknowledgement level.
  The daemon starts a service for every path, leaves no files unless a signal comes before they are made, and
  terminates unless an announcement locks itself out, which is characterised.

  \<^bold>\<open>Conventions.\<close>  The cargo features \<open>broker-rpc\<close> and \<open>rpc\<close> are on.  What the environment decides (how
  a write ends, when a stream closes, whether a queue is drained in time, the clock, the order of tasks)
  is an argument, and the theorems hold for all its values unless they say otherwise.  In most theories an operation
  of the broker is one step, between two steps of other tasks; \<open>handle_reader\<close> takes what the others did between two frames, and the
  steps of a session and of the daemon interleave with all others.  \<open>Bus_Interleave\<close> cuts the operations on the registry at
  every await and shows that a task which is not interrupted does the one step; what is proved over
  all interleavings at this grain is the registry invariant and the lock-out of announcements.  Log output is left out.  A string is its UTF-8 bytes.
  The documentation of \<open>submap\<close> does not say which of two equal clients a topic keeps when a client that was replaced by
  a forced registration goes on subscribing with its old handle; the laws in \<open>Bus_Libs\<close> credit such a
  subscription to the registered client.  Only programs that use a replaced handle depend on it.

  \<^bold>\<open>Termination and bounds.\<close>  \<open>drop_client\<close> recurses over the secondaries of a client; the number of
  registered clients decreases.  The readers recurse on the stream, which gets shorter with every frame.
  An announcement can reach itself through the unregistration of a slow subscriber; \<^const>\<open>announce\<close> is
  \<^const>\<open>announce_fuel\<close> with fuel 1, and any larger fuel gives the same, since the inner announcement waits
  for a mutex the outer one holds.  Counters and lengths keep their Rust widths (\<^typ>\<open>u16\<close>, \<^typ>\<open>u32\<close>,
  \<^typ>\<open>u64\<close>) where they are stored or sent; \<open>usize\<close> is \<^typ>\<open>nat\<close>.

  \<^bold>\<open>Not modelled.\<close>  The TLS and web socket protocols and the sockets themselves (crates and system calls:
  their outcomes are arguments), the encodings of \<open>rmp_serde\<close> and \<open>serde_json\<close> and the regular expressions
  (arguments too), the parsing of command lines, the
  fork of the daemon, log output and colours, the time a benchmark measures, the examples that only send and print frames over a socket, and
  the bindings for other languages.
\<close>
section \<open>The registry\<close>

text \<open>
  C1. Whatever the tasks of the broker and its clients do, in whatever order, the registry is
  consistent: the client table, the subscription map and the broadcast map hold exactly the registered
  clients, and secondaries have a registered primary that lists them.  Each operation is one step.
  \<open>Client::unregister\<close> is not among the steps, since it clears the flag and leaves the entries behind.
  Two client names are assumed not to have the same digest.
\<close>

theorem reachable_registry_inv:
  assumes "broker_libs X smv topic_match bmv name_match amv acl_match chq chcap chclosed"
    and "inj_on (sha256 X) N" and "broker_reachable X N b"
  shows "db_inv X smv bmv N b"
  using reachable_db_inv [OF assms] .

theorem reachable_registry_inv_witness:
  "db_inv ref_ctx ref_smv map_of run_names
     (snd (broker_register_client (at_time 0 (\<lambda>_. Elapsed) ref_ctx) 2 ''a'' (broker_create ref_ctx False)))"
  by (rule reachable_registry_inv [OF ref.broker_libs_axioms inj_run_names
        reach_step [OF reach_init step_register]]) (simp_all add: run_names_def)

text \<open>
  C2. The registry stays consistent also when tasks are interleaved at the awaits inside their operations: in
  the loop over the recipients of a frame, in a send that waits for room, between the removal of a slow
  client and its announcement, at the locks of an announcement, and when a task is cancelled or timed
  out at any of them.
\<close>

theorem interleaved_registry_inv:
  assumes "broker_libs X smv topic_match bmv name_match amv acl_match chq chcap chclosed"
    and "inj_on (sha256 X) N" and "fine_run X N A (fine_start X force) s"
  shows "db_inv X smv bmv N (fi_broker s)"
  using fine_run_inv [OF assms(1,3)] broker_libs.broker_create_inv [OF assms(1,2)] by (simp add: fine_start_def)

theorem interleaved_registry_inv_witness:
  "let (ws, b) = register_begin ref_ctx 0
     (snd (alloc (bus_client_new ref_ctx ''a'' (primary_of ''a'') 2 LocalIpc None None) (broker_create ref_ctx False)))
   in ws = [LockCore (event_reg ''a'')] \<and> db_inv ref_ctx ref_smv map_of run_names b"
proof -
  let ?b = "snd (alloc (bus_client_new ref_ctx ''a'' (primary_of ''a'') 2 LocalIpc None None) (broker_create ref_ctx False))"
  obtain ws b where r: "register_begin ref_ctx 0 ?b = (ws, b)" by force
  have "fst (register_begin ref_ctx 0 ?b) = [LockCore (event_reg ''a'')]" by code_simp
  moreover have "length (b_objs (broker_create ref_ctx False)) = 0" by code_simp
  then have "op_begin ref_ctx run_names (broker_create ref_ctx False) ws b"
    using begin_register [of "''a''" run_names 2 ref_ctx "broker_create ref_ctx False" LocalIpc None None ws b] r
    by (simp add: run_names_def)
  then have "fine_run ref_ctx run_names (\<lambda>_. True) (fine_start ref_ctx False)
      \<lparr>fi_broker = b, fi_tasks = fi_tasks (fine_start ref_ctx False) @ [ws]\<rparr>"
    by (intro run_next [OF run_start _ fine_begin]) (simp_all add: fine_start_def)
  from interleaved_registry_inv [OF ref.broker_libs_axioms inj_run_names this] calculation r show ?thesis by simp
qed

text \<open>
  C3. Taking an operation as one step is justified: a task that runs alone, from one await to the next, does
  what the operation does in one step.  It comes to its end in the same state if the operation returns, it
  waits in the same state if the operation waits for ever, and it sits in the send whose timeout ends it if the operation
  fails with a timeout.  This holds for messages, broadcasts, publications of both kinds, unregistration and
  announcements, with whatever slow clients are unregistered and announced on the way.
\<close>

theorem task_alone_is_operation:
  assumes "\<forall>c. waits X c = Elapsed"
  shows "ends_as X (send_msg X (announce X) client target header buf pos len rt timeout b)
      (message_begin client target header buf pos len rt timeout b) \<and>
    ends_as X (send_broadcast X (announce X) client target header buf pos len rt timeout b)
      (broadcast_begin X client target header buf pos len rt timeout b) \<and>
    ends_as X (publish_where keep X (announce X) client topic header buf pos len rt timeout b)
      (publish_begin keep X client topic header buf pos len rt timeout b) \<and>
    ends_as X (unregister_client X c b) (unregister_begin X c b) \<and>
    ends_as X (log_err (announce X ev) b) ([LockCore ev], b)"
  using message_ends [OF assms] broadcast_ends [OF assms] publish_ends [OF assms announces_all [OF assms] TrueI]
    unregister_ends [OF announces_all [OF assms] TrueI] announce_ends [OF assms]
  by (auto simp: unregister_client_def)

theorem task_alone_is_operation_witness:
  "fst (unregister_client ref_ctx 1 run_core) = Done () \<and>
   alone ref_ctx (unregister_begin ref_ctx 1 run_core) ([], snd (unregister_client ref_ctx 1 run_core))"
proof -
  have d: "case fst (unregister_client ref_ctx 1 run_core) of Done _ \<Rightarrow> True | _ \<Rightarrow> False" by code_simp
  have "\<forall>c. waits ref_ctx c = Elapsed" by (simp add: ref_ctx_def)
  then have "ends_as ref_ctx (unregister_client ref_ctx 1 run_core) (unregister_begin ref_ctx 1 run_core)"
    using task_alone_is_operation by blast
  with d show ?thesis by (auto simp: ends_as_def split: prod.splits eff.splits)
qed

text \<open>
  C4. An announcement that has to unregister a slow primary client waits for the lock it holds itself, and
  nothing another task does ends that: as long as the task is not cancelled it stays where it is, the lock is
  never free again, and every other announcement waits for it, so that no primary client can finish its
  registration or unregistration.
\<close>

theorem announcement_locks_itself_out:
  assumes "fine_run X N (\<lambda>l. l \<noteq> TaskCancelled i) s s'" and "locks_ok s"
    and "i < length (fi_tasks s)" and "fi_tasks s ! i = LockCore ev # ws" and "holds_rpc ws"
  shows "fi_tasks s' ! i = LockCore ev # ws \<and> b_rpc_locked (fi_broker s') \<and>
    (\<forall>t wt ev'. work_step (at_time t wt X) (LockCore ev') (fi_broker s') = None)"
proof -
  have "locked_out i s" using assms(3-5) by (simp add: locked_out_def)
  from locked_out_run [OF assms(1,2) this] locked_out_flag assms(4) show ?thesis by auto
qed

theorem announcement_locks_itself_out_witness:
  "let s = \<lparr>fi_broker = snd lockout_run, fi_tasks = [fst lockout_run]\<rparr>;
       s' = \<lparr>fi_broker = fi_broker s, fi_tasks = fi_tasks s @ [[LockCore event_shutdown]]\<rparr>
   in hd (fi_tasks s' ! 0) = LockCore (event_unreg ''c'') \<and> work_step (at_time 7 (\<lambda>_. Elapsed) ref_ctx) (LockCore event_shutdown) (fi_broker s') = None"
proof -
  let ?s = "\<lparr>fi_broker = snd lockout_run, fi_tasks = [fst lockout_run]\<rparr>"
  let ?s' = "\<lparr>fi_broker = fi_broker ?s, fi_tasks = fi_tasks ?s @ [[LockCore event_shutdown]]\<rparr>"
  obtain ws where ws: "fi_tasks ?s ! 0 = LockCore (event_unreg ''c'') # ws" "holds_rpc ws"
    using lockout_run_facts(1) by (auto split: list.splits work.splits)
  have "fine_run ref_ctx run_names (\<lambda>l. l \<noteq> TaskCancelled 0) ?s ?s'"
    by (rule run_next [OF run_start _ fine_begin [OF begin_announce]]) simp
  from announcement_locks_itself_out [OF this lockout_locks_ok _ ws] show ?thesis by simp
qed

text \<open>
  C5. The broker refines a bus of named members with topics, exclusions and mailboxes.  Whatever calls its
  internal clients make, from the creation of the broker on, in whatever order and at whatever times, every
  call returns what the specification of the bus says, in particular it returns, and leaves the members,
  their topics, their exclusions and their mailboxes as the specification says, as long as the mailboxes
  of the recipients of each call have room.  This covers joining with and without force, secondary members, leaving, the announcements of
  both, (un)subscribing, (un)excluding, messages, broadcasts, publications to all and to one receiver, and
  taking frames out of a mailbox.
\<close>

theorem broker_refines_bus:
  assumes libs: "broker_libs X smv topic_match bmv name_match amv acl_match chq chcap chclosed"
    and inj: "inj_on (sha256 X) N"
    and fits: "fits_run (timed_spec (rules_of X topic_match name_match acl_match))
      (timed_fits (rules_of X topic_match name_match acl_match) N) qs (empty_bus force)"
  shows "fst (run_cmds (timed_exec X chq) qs (broker_create X force)) =
      fst (run_cmds (timed_spec (rules_of X topic_match name_match acl_match)) qs (empty_bus force)) \<and>
    bus_view smv amv chq chcap (snd (run_cmds (timed_exec X chq) qs (broker_create X force))) =
      snd (run_cmds (timed_spec (rules_of X topic_match name_match acl_match)) qs (empty_bus force)) \<and>
    Blocked \<notin> set (fst (run_cmds (timed_exec X chq) qs (broker_create X force)))"
  using broker_libs.runs_from_create [OF libs inj fits] spec_never_blocks by simp

theorem broker_refines_bus_witness:
  "fst (run_cmds (timed_exec ref_ctx (\<lambda>ch. snd (snd ch))) demo_cmds (broker_create ref_ctx False)) =
     [Granted, Granted, Answered (Some (Inr ())), Granted, Answered None, Refused NotRegistered,
      Received [frame_new KPublish (Some ''a'') (Some BROKER_INFO_TOPIC) None (as_bytes ''reg'') 0 False,
        frame_new KPublish (Some ''b'') (Some ''t/x'') None [7] 0 False]]"
  using broker_refines_bus [OF ref.broker_libs_axioms inj_run_names demo_fits [unfolded ref_rules_def]]
    demo_results [unfolded ref_rules_def] by simp

text \<open>
  C6. Every frame in a queue of the broker is one the writer can send: a ping, an acknowledgement, or a
  routed frame that has the name of a client as its sender, a topic exactly if it is a publication, and
  a payload inside its buffer.  So no writer task panics.
\<close>

theorem queued_frames_sound:
  assumes "bounded_channel X chq chcap chclosed" and "broker_reachable X N b" and "c < length (b_objs b)"
  shows "(\<forall>f \<in> set (chq (c_tx (obj b c))). sound_frame N f) \<and>
    (\<forall>wres out. (\<forall>k. wres k \<noteq> WriteCancelled) \<longrightarrow> fst (handle_writer wres (chq (c_tx (obj b c))) out) \<noteq> Pending)"
proof -
  have f: "\<forall>f \<in> set (chq (c_tx (obj b c))). sound_frame N f"
    using reachable_queues_sound [OF assms(1,2)] assms(3) by (simp add: queues_sound_def)
  then have "\<forall>f \<in> set (chq (c_tx (obj b c))). \<not> snd (frame_writes f)" using sound_frame_writes by blast
  with f show ?thesis using handle_writer_no_panic by blast
qed

theorem queued_frames_sound_witness:
  "(\<forall>out. fst (handle_writer (\<lambda>_. Written) (snd (snd (c_tx (obj run_full 2)))) out) \<noteq> Pending) \<and>
   snd (snd (c_tx (obj run_full 2))) \<noteq> []"
proof -
  have "2 < length (b_objs run_full)" "snd (snd (c_tx (obj run_full 2))) \<noteq> []" by code_simp+
  with queued_frames_sound [OF ref.bounded_channel_axioms run_full_reachable, of 2] show ?thesis by auto
qed

text \<open>
  C7. What the broker counts as received, frames and bytes, is the sum of what it counts for its clients,
  whatever happens and also after the counters have wrapped around; no frame is counted for nobody.
\<close>

theorem received_counters_conserved:
  assumes "broker_reachable X N b"
  shows "b_r_frames b = sum_list (map c_r_frames (b_objs b)) \<and> b_r_bytes b = sum_list (map c_r_bytes (b_objs b))"
  using reachable_counters_ok [OF assms] by (simp add: counters_ok_def)

theorem received_counters_conserved_witness:
  "b_r_frames run_full = sum_list (map c_r_frames (b_objs run_full)) \<and> b_r_frames run_full = 1"
proof -
  have "b_r_frames run_full = 1" by code_simp
  with received_counters_conserved [OF run_full_reachable] show ?thesis by blast
qed



text \<open>
  C9. A forced registration succeeds: the new client has the name, the previous one is not registered
  any more and its connection is told to end.
\<close>

theorem force_register_replaces:
  assumes libs: "broker_libs X smv topic_match bmv name_match amv acl_match chq chcap chclosed"
    and inv: "db_inv X smv bmv N b"
    and c: "c < length (b_objs b)" "\<not> c_registered (obj b c)" "c_primary (obj b c)"
    and force: "b_force_register b" and prev: "b_clients b (c_name (obj b c)) = Some prev"
  shows "\<exists>b'. register_entry X c b = (Inr (), b') \<and> b_clients b' (c_name (obj b c)) = Some c \<and>
    \<not> live b' prev \<and> c_disconnect_trig (obj b' prev)"
  using broker_libs.forced_entry [OF libs inv c force prev] .

theorem force_register_replaces_witness:
  "\<exists>b'. register_entry ref_ctx 2
       ((snd (alloc (bus_client_new ref_ctx ''a'' ''a'' 2 Internal None None) run_ab))\<lparr>b_force_register := True\<rparr>) =
     (Inr (), b') \<and> b_clients b' ''a'' = Some 2 \<and> \<not> live b' 0 \<and> c_disconnect_trig (obj b' 0)"
proof -
  let ?n = "bus_client_new ref_ctx ''a'' ''a'' 2 Internal None None"
  let ?b = "(snd (alloc ?n run_ab))\<lparr>b_force_register := True\<rparr>"
  have "primary_of ''a'' = ''a''" by code_simp
  then have wf: "obj_wf ref_ctx ?n" using ref.bus_client_new_wf [of "''a''"] by metis
  have "db_inv ref_ctx ref_smv map_of run_names (snd (alloc ?n run_ab))"
    by (rule ref.alloc_inv [OF run_inv(1) wf]) (simp_all add: bus_client_new_def run_names_def)
  moreover have "same_registry (snd (alloc ?n run_ab)) ?b" by (simp add: same_registry_def list_all2_refl)
  ultimately have i: "db_inv ref_ctx ref_smv map_of run_names ?b" using same_registry_inv by blast
  have f: "2 < length (b_objs ?b)" "\<not> c_registered (obj ?b 2)" "c_primary (obj ?b 2)" "c_name (obj ?b 2) = ''a''"
    "b_force_register ?b" "b_clients ?b ''a'' = Some 0"
    by code_simp+
  show ?thesis
    using force_register_replaces [OF ref.broker_libs_axioms i f(1-3) f(5)] f(4,6) by simp
qed

text \<open>
  C10. Dropping a registered client removes its name from the client table, and if it is a primary
  client the names of all its secondaries, and no other name.
\<close>

theorem drop_client_removes:
  assumes "broker_libs X smv topic_match bmv name_match amv acl_match chq chcap chclosed"
    and "db_inv X smv bmv N b" and "live b c"
  shows "b_clients (drop_client X c b) =
    (\<lambda>n. if n = c_name (obj b c) \<or> c_primary (obj b c) \<and> primary_of n = c_name (obj b c)
         then None else b_clients b n)"
  using broker_libs.drop_client_clients [OF assms] unfolding removed_by_def by simp

theorem drop_client_removes_witness:
  "b_clients (drop_client ref_ctx 0 run_ab) = (\<lambda>n. if n = ''a'' \<or> primary_of n = ''a'' then None else b_clients run_ab n)"
proof -
  have "live run_ab 0" "c_name (obj run_ab 0) = ''a''" "c_primary (obj run_ab 0)" by code_simp+
  then show ?thesis using drop_client_removes [OF ref.broker_libs_axioms run_inv(1), of 0] by simp
qed

section \<open>Routing\<close>

text \<open>
  C11. A published frame is appended once to the queue of every registered client with a matching
  subscription and no matching exclusion that has room, and to no other queue; a recipient whose queue is
  full gets its channel closed.  This holds when no recipient is an internal client with a full queue and
  no announcement has to be made for a recipient that is dropped.
\<close>

theorem publish_exactly_once:
  assumes libs: "broker_libs X smv topic_match bmv name_match amv acl_match chq chcap chclosed"
    and inv: "db_inv X smv bmv N b"
    and full: "\<forall>c \<in> recipients smv topic_match (not_excluded X topic) topic b.
      ch_is_full X (c_tx (obj b c)) \<longrightarrow> c_kind (obj b c) \<noteq> Internal \<and> no_core b"
  shows "\<exists>b'. publish X (announce X) client topic header buf pos len rt timeout b = (Done (), b') \<and>
    (\<forall>c. if c \<in> recipients smv topic_match (not_excluded X topic) topic b
         then offered chq chcap chclosed
                (frame_new KPublish (Some (c_name (obj b client))) (Some topic) header buf pos rt)
                (c_tx (obj b c)) (c_tx (obj b' c))
         else c_tx (obj b' c) = c_tx (obj b c))"
  unfolding publish_def
  by (rule broker_libs.publish_where_offered [OF libs inv]) (use full in \<open>simp_all add: not_excluded_def\<close>)

theorem publish_exactly_once_witness:
  "\<exists>b'. publish ref_ctx (announce ref_ctx) 0 ''t'' None [9] 0 1 False None run_sub = (Done (), b') \<and>
     snd (snd (c_tx (obj b' 1))) = [frame_new KPublish (Some (c_name (obj run_sub 0))) (Some ''t'') None [9] 0 False] \<and>
     c_tx (obj b' 0) = c_tx (obj run_sub 0)"
proof -
  let ?R = "recipients ref_smv (mask_match CHR ''/'' ''+'' ''#'') (not_excluded ref_ctx ''t'') ''t'' run_sub"
  have full: "\<forall>c \<in> ?R. ch_is_full ref_ctx (c_tx (obj run_sub c)) \<longrightarrow> c_kind (obj run_sub c) \<noteq> Internal \<and> no_core run_sub"
    by (simp add: run_sub_recipients run_sub_room)
  obtain b' where "publish ref_ctx (announce ref_ctx) 0 ''t'' None [9] 0 1 False None run_sub = (Done (), b')"
    and q: "\<forall>c. if c \<in> {1} then offered (\<lambda>ch. snd (snd ch)) fst (\<lambda>ch. fst (snd ch))
        (frame_new KPublish (Some (c_name (obj run_sub 0))) (Some ''t'') None [9] 0 False)
        (c_tx (obj run_sub c)) (c_tx (obj b' c)) else c_tx (obj b' c) = c_tx (obj run_sub c)"
    using publish_exactly_once [OF ref.broker_libs_axioms run_inv(2) full, of 0 None "[9]" 0 1 False None]
    unfolding run_sub_recipients by blast
  with q [rule_format, of 1] q [rule_format, of 0] show ?thesis
    by (auto simp: offered_def has_room_def run_sub_tx)
qed

text \<open>
  A frame published for a receiver goes, in the same way, to those subscribers only whose primary
  name is the receiver.
\<close>

theorem publish_for_exactly_once:
  assumes libs: "broker_libs X smv topic_match bmv name_match amv acl_match chq chcap chclosed"
    and inv: "db_inv X smv bmv N b"
    and full: "\<forall>c \<in> recipients smv topic_match (\<lambda>sub. c_primary_name sub = receiver \<and> not_excluded X topic sub) topic b.
      ch_is_full X (c_tx (obj b c)) \<longrightarrow> c_kind (obj b c) \<noteq> Internal \<and> no_core b"
  shows "\<exists>b'. publish_for X (announce X) client topic receiver header buf pos len rt timeout b = (Done (), b') \<and>
    (\<forall>c. if c \<in> recipients smv topic_match (not_excluded X topic) topic b \<and> c_primary_name (obj b c) = receiver
         then offered chq chcap chclosed
                (frame_new KPublish (Some (c_name (obj b client))) (Some topic) header buf pos rt)
                (c_tx (obj b c)) (c_tx (obj b' c))
         else c_tx (obj b' c) = c_tx (obj b c))"
proof -
  have r: "c \<in> recipients smv topic_match (\<lambda>sub. c_primary_name sub = receiver \<and> not_excluded X topic sub) topic b \<longleftrightarrow>
      c \<in> recipients smv topic_match (not_excluded X topic) topic b \<and> c_primary_name (obj b c) = receiver" for c
    by (auto simp: recipients_def)
  let ?K = "\<lambda>sub. c_primary_name sub = receiver \<and> not_excluded X topic sub"
  have "\<exists>b'. publish_where ?K X (announce X) client topic header buf pos len rt timeout b = (Done (), b') \<and>
    (\<forall>c. if c \<in> recipients smv topic_match ?K topic b
         then offered chq chcap chclosed
                (frame_new KPublish (Some (c_name (obj b client))) (Some topic) header buf pos rt)
                (c_tx (obj b c)) (c_tx (obj b' c))
         else c_tx (obj b' c) = c_tx (obj b c))"
    by (rule broker_libs.publish_where_offered [OF libs inv]) (use full in \<open>simp_all add: not_excluded_def\<close>)
  then show ?thesis unfolding publish_for_def r .
qed

theorem publish_for_exactly_once_witness:
  "\<exists>b'. publish_for ref_ctx (announce ref_ctx) 0 ''t'' ''b'' None [9] 0 1 False None run_sub = (Done (), b') \<and>
     snd (snd (c_tx (obj b' 1))) = [frame_new KPublish (Some (c_name (obj run_sub 0))) (Some ''t'') None [9] 0 False] \<and>
     c_tx (obj b' 0) = c_tx (obj run_sub 0)"
proof -
  let ?R = "recipients ref_smv (mask_match CHR ''/'' ''+'' ''#'')
    (\<lambda>sub. c_primary_name sub = ''b'' \<and> not_excluded ref_ctx ''t'' sub) ''t'' run_sub"
  have b: "c_primary_name (obj run_sub 1) = ''b''" by code_simp
  have "?R \<subseteq> {1}" unfolding run_sub_recipients [symmetric] by (auto simp: recipients_def)
  then have full: "\<forall>c \<in> ?R. ch_is_full ref_ctx (c_tx (obj run_sub c)) \<longrightarrow> c_kind (obj run_sub c) \<noteq> Internal \<and> no_core run_sub"
    using run_sub_room [of 1] by auto
  obtain b' where "publish_for ref_ctx (announce ref_ctx) 0 ''t'' ''b'' None [9] 0 1 False None run_sub = (Done (), b')"
    and q: "\<forall>c. if c \<in> {1} \<and> c_primary_name (obj run_sub c) = ''b'' then offered (\<lambda>ch. snd (snd ch)) fst (\<lambda>ch. fst (snd ch))
        (frame_new KPublish (Some (c_name (obj run_sub 0))) (Some ''t'') None [9] 0 False)
        (c_tx (obj run_sub c)) (c_tx (obj b' c)) else c_tx (obj b' c) = c_tx (obj run_sub c)"
    using publish_for_exactly_once [OF ref.broker_libs_axioms run_inv(2) full, of 0 None "[9]" 0 1 False None]
    unfolding run_sub_recipients by blast
  with q [rule_format, of 1] q [rule_format, of 0] b show ?thesis
    by (auto simp: offered_def has_room_def run_sub_tx)
qed

text \<open>
  C12. A broadcast is appended once to the queue of every registered client whose name matches the mask
  and that has room, and to no other queue, under the same condition.
\<close>

theorem broadcast_exactly_once:
  assumes libs: "broker_libs X smv topic_match bmv name_match amv acl_match chq chcap chclosed"
    and inv: "db_inv X smv bmv N b"
    and full: "\<forall>c \<in> mask_recipients name_match target b.
      ch_is_full X (c_tx (obj b c)) \<longrightarrow> c_kind (obj b c) \<noteq> Internal \<and> no_core b"
  shows "\<exists>b'. send_broadcast X (announce X) client target header buf pos len rt timeout b = (Done (), b') \<and>
    (\<forall>c. if c \<in> mask_recipients name_match target b
         then offered chq chcap chclosed
                (frame_new KBroadcast (Some (c_name (obj b client))) None header buf pos rt)
                (c_tx (obj b c)) (c_tx (obj b' c))
         else c_tx (obj b' c) = c_tx (obj b c))"
  by (rule broker_libs.send_broadcast_offered [OF libs inv]) (use full in simp_all)

theorem broadcast_exactly_once_witness:
  "\<exists>b'. send_broadcast ref_ctx (announce ref_ctx) 0 ''?'' None [9] 0 1 False None run_full = (Done (), b') \<and>
     fst (snd (c_tx (obj b' 2)))"
proof -
  let ?R = "mask_recipients (mask_match CHR ''.'' ''?'' ''*'') ''?'' run_full"
  have k: "c_kind (obj run_full 2) \<noteq> Internal" "live run_full 2" "mask_match CHR ''.'' ''?'' ''*'' ''?'' (c_name (obj run_full 2))"
    by code_simp+
  have f01: "\<not> ch_is_full ref_ctx (c_tx (obj run_full 0))" "\<not> ch_is_full ref_ctx (c_tx (obj run_full 1))"
    and f2: "fst (c_tx (obj run_full 2)) \<le> length (snd (snd (c_tx (obj run_full 2))))" by code_simp+
  have nc: "no_core run_full" by (simp add: no_core_def run_full_facts)
  have full: "\<forall>c \<in> ?R. ch_is_full ref_ctx (c_tx (obj run_full c)) \<longrightarrow> c_kind (obj run_full c) \<noteq> Internal \<and> no_core run_full"
  proof
    fix c assume "c \<in> ?R"
    then have "c = 0 \<or> c = 1 \<or> c = 2" using run_full_facts(1) by (auto simp: mask_recipients_def live_def)
    then show "ch_is_full ref_ctx (c_tx (obj run_full c)) \<longrightarrow> c_kind (obj run_full c) \<noteq> Internal \<and> no_core run_full"
      using f01 k nc by auto
  qed
  have 2: "2 \<in> ?R" using k by (simp add: mask_recipients_def)
  obtain b' where p: "send_broadcast ref_ctx (announce ref_ctx) 0 ''?'' None [9] 0 1 False None run_full = (Done (), b')"
    and q: "\<forall>c. if c \<in> ?R then offered (\<lambda>ch. snd (snd ch)) fst (\<lambda>ch. fst (snd ch))
        (frame_new KBroadcast (Some (c_name (obj run_full 0))) None None [9] 0 False)
        (c_tx (obj run_full c)) (c_tx (obj b' c)) else c_tx (obj b' c) = c_tx (obj run_full c)"
    using broadcast_exactly_once [OF ref.broker_libs_axioms run_inv(4) full, of 0 None "[9]" 0 1 False None] by blast
  from q [rule_format, of 2] 2 f2 p show ?thesis by (simp add: offered_def)
qed

text \<open>
  C13. A message goes to the queue of its target only, and its sender learns what became of it, in every
  case: a name that is not registered is reported as such; with room in the queue of the target the message is
  appended, once, and the sender is told so; a target that is closed is the end of file.  If the queue of an internal
  target is full, the sender waits: for its turn, if the queue is drained in time; for the end of file, if the
  receiver goes; for the timeout, if it has one; for ever, otherwise; and only in the first case the message is
  queued.  If the queue of an IPC target is full, closed or not, the message is not delivered and the queue is closed; this
  last case is for a broker without a core RPC client, which would be told about it.
\<close>

theorem message_only_to_target:
  assumes libs: "broker_libs X smv topic_match bmv name_match amv acl_match chq chcap chclosed"
    and inv: "db_inv X smv bmv N b"
    and full: "\<forall>c. b_clients b target = Some c \<and> ch_is_full X (c_tx (obj b c)) \<longrightarrow> c_kind (obj b c) = Internal \<or> no_core b"
  shows "\<exists>r b'. send_msg X (announce X) client target header buf pos len rt timeout b = (r, b') \<and>
    (case b_clients b target of
       None \<Rightarrow> r = Done (Inl err_not_registered) \<and> (\<forall>k. c_tx (obj b' k) = c_tx (obj b k))
     | Some c \<Rightarrow>
         let q = chq (c_tx (obj b c)); q' = chq (c_tx (obj b' c)); room = chcap (c_tx (obj b c));
           f = frame_new KMessage (Some (c_name (obj b client))) None header buf pos rt;
           given_up = (r = (if timeout = None then Pending else Bail err_timeout) \<and> q' = q)
         in (\<forall>k. k \<noteq> c \<longrightarrow> c_tx (obj b' k) = c_tx (obj b k)) \<and>
           (if has_room chq chcap chclosed (c_tx (obj b c)) then r = Done (Inr ()) \<and> q' = q @ [f]
            else if ch_is_full X (c_tx (obj b c)) \<and> c_kind (obj b c) \<noteq> Internal
            then r = Done (Inl err_not_delivered) \<and> q' = q \<and> chclosed (c_tx (obj b' c))
            else if chclosed (c_tx (obj b c)) then r = Done (Inl err_eof) \<and> q' = q
            else (case waits X c of
                ReceiverGone \<Rightarrow> r = Done (Inl err_eof) \<and> q' = q
              | Drained n \<Rightarrow> if length (drop n q) < room then r = Done (Inr ()) \<and> q' = drop n q @ [f] else given_up
              | Elapsed \<Rightarrow> given_up)))"
proof (cases "b_clients b target")
  case None
  then show ?thesis by (simp add: send_msg_def Let_def)
next
  case (Some c)
  have ch: "ch_is_full X (c_tx (obj b c)) \<longleftrightarrow> chcap (c_tx (obj b c)) \<le> length (chq (c_tx (obj b c)))"
    by (rule bounded_channel.ch_is_full [OF broker_libs.axioms(4) [OF libs]])
  have "clients_ok b" using inv by (simp add: db_inv_def db_inv_ex_def)
  then have len: "c < length (b_objs b)" using Some clients_okD live_less by blast
  let ?tx = "c_tx (obj b c)"
  consider (sent) "\<not> chclosed ?tx \<and> \<not> ch_is_full X ?tx \<or> ch_is_full X ?tx \<and> c_kind (obj b c) \<noteq> Internal"
    | (closed) "chclosed ?tx" "ch_is_full X ?tx \<Longrightarrow> c_kind (obj b c) = Internal"
    | (waiting) "\<not> chclosed ?tx" "ch_is_full X ?tx" "c_kind (obj b c) = Internal" by blast
  then show ?thesis
  proof cases
    case sent
    with full Some have "ch_is_full X ?tx \<Longrightarrow> c_kind (obj b c) \<noteq> Internal \<and> no_core b" by auto
    from broker_libs.send_msg_offered [OF libs inv Some this, of client header buf pos len rt timeout]
    obtain b' where b': "send_msg X (announce X) client target header buf pos len rt timeout b =
        (Done (send_result chq chcap chclosed ?tx), b')"
      "offered chq chcap chclosed (frame_new KMessage (Some (c_name (obj b client))) None header buf pos rt) ?tx
        (c_tx (obj b' c))"
      "\<forall>k. k \<noteq> c \<longrightarrow> c_tx (obj b' k) = c_tx (obj b k)" by blast
    show ?thesis
      by (intro exI [of _ "Done (send_result chq chcap chclosed ?tx)"] exI [of _ b'] conjI b'(1))
        (use sent ch b'(2,3) in \<open>auto simp: Some offered_def send_result_def has_room_def Let_def\<close>)
  next
    case closed
    then show ?thesis
      using broker_libs.send_msg_closed [OF libs Some closed, of client header buf pos len rt timeout] Some
      by (auto simp: has_room_def Let_def)
  next
    case waiting
    then show ?thesis
      using broker_libs.send_msg_internal_full [OF libs Some len waiting(3,2,1) refl refl,
          of client header buf pos len rt timeout] Some ch
      by (auto simp: has_room_def Let_def)
  qed
qed

theorem message_only_to_target_witness:
  "\<exists>b'. send_msg ref_ctx (announce ref_ctx) 0 ''b'' None [9] 0 1 False None run_ab = (Done (Inr ()), b') \<and>
     snd (snd (c_tx (obj b' 1))) = [frame_new KMessage (Some (c_name (obj run_ab 0))) None None [9] 0 False]"
proof -
  have tx: "c_tx (obj run_ab 1) = (2, False, [])" by code_simp
  then have "\<forall>c. b_clients run_ab ''b'' = Some c \<and> ch_is_full ref_ctx (c_tx (obj run_ab c)) \<longrightarrow>
      c_kind (obj run_ab c) = Internal \<or> no_core run_ab"
    by (simp add: run_ab_facts ref_ctx_def)
  from message_only_to_target [OF ref.broker_libs_axioms run_inv(1) this, of 0 None "[9]" 0 1 False None]
  show ?thesis by (auto simp: run_ab_facts tx has_room_def Let_def simp del: One_nat_def)
qed

text \<open>
  C14. A message to an IPC client whose queue is full unregisters that client: its name is free and it is not
  registered any more.  Without a core RPC client the message is reported as not delivered and the queue is closed.
  With one, the broker first announces the unregistration; if the announcement comes to an end, the message is
  reported and the queue closed as well, and otherwise the sender waits with it, but the client is gone all the
  same.
\<close>

theorem slow_consumer_unregistered:
  assumes libs: "broker_libs X smv topic_match bmv name_match amv acl_match chq chcap chclosed"
    and inv: "db_inv X smv bmv N b"
    and t: "b_clients b target = Some c" and ipc: "c_kind (obj b c) \<noteq> Internal"
    and full: "ch_is_full X (c_tx (obj b c))"
  shows "\<exists>r b'. send_msg X (announce X) client target header buf pos len rt timeout b = (r, b') \<and>
    db_inv X smv bmv N b' \<and> \<not> live b' c \<and> b_clients b' target = None \<and>
    (r = Done (Inl err_not_delivered) \<and> chclosed (c_tx (obj b' c)) \<or> r = Pending \<and> \<not> no_core b)"
  using broker_libs.send_msg_full [OF libs inv t ipc full] .

theorem slow_consumer_unregistered_witness:
  "\<exists>b'. send_msg ref_ctx (announce ref_ctx) 0 ''c'' None [9] 0 1 False None run_full =
     (Done (Inl err_not_delivered), b') \<and> b_clients b' ''c'' = None"
proof -
  have "no_core run_full" by (simp add: no_core_def run_full_facts)
  moreover have "c_kind (obj run_full 2) \<noteq> Internal" "ch_is_full ref_ctx (c_tx (obj run_full 2))" by code_simp+
  ultimately show ?thesis
    using slow_consumer_unregistered [OF ref.broker_libs_axioms run_inv(4) run_full_facts(2),
        of 0 None "[9]" 0 1 False None] by blast
qed

text \<open>
  C15. One level of recursion is enough for an announcement: with more fuel it does the same, because the
  announcements made while it runs wait for its mutex.
\<close>

theorem announce_fuel_suffices: "announce_fuel X (Suc n) ev b = announce X ev b"
  by (rule announce_fuel_enough)

section \<open>The wire\<close>

text \<open>
  C16. Writer and reader are inverse on every sequence of pings, acknowledgements and routed frames whose
  sender and topic are UTF-8 without NUL bytes and which are shorter than 4 GiB, as long as the writes succeed
  and the client takes events: messages, broadcasts and publications arrive once each, in order, with their
  kind, sender, topic, real-time flag and payload (the header in front of it), acknowledgements resolve their
  operation, and nothing is left over.  The condition on names is needed: the broker accepts names with NUL,
  and their frames are misread.
\<close>

theorem writer_reader_round_trip:
  assumes "\<forall>f \<in> set fs. broker_frame f" and "\<forall>k. alive k" and "\<forall>k. wres k = Written"
  shows "\<exists>ws. handle_writer wres fs [] = (Done (), ws) \<and>
    handle_read alive (feed (wire_bytes ws) s) rd = handle_read alive s (fold receive fs rd)"
  using handle_writer_all [of wres fs "[]"] handle_read_frames [of fs alive s rd] assms by simp

theorem writer_reader_round_trip_witness:
  "\<exists>ws. handle_writer (\<lambda>_. Written) [new_nop, ack_frame (le32 5) 1 False,
       frame_new KPublish (Some ''a'') (Some ''t'') None [1, 0, 2] 1 True] [] = (Done (), ws) \<and>
     handle_read (\<lambda>_. True) (feed (wire_bytes ws) \<lparr>s_bytes = [], s_end = Closed\<rparr>)
       \<lparr>rd_responses = [5 \<mapsto> 3], rd_results = Map.empty, rd_events = []\<rparr> =
     handle_read (\<lambda>_. True) \<lparr>s_bytes = [], s_end = Closed\<rparr>
       \<lparr>rd_responses = Map.empty, rd_results = [3 \<mapsto> Inr ()],
        rd_events = [frame_new KPublish (Some ''a'') (Some ''t'') None (as_bytes ''a'' @ 0 # as_bytes ''t'' @ [0, 0, 2]) 4 True]\<rparr>"
proof -
  let ?f = "frame_new KPublish (Some ''a'') (Some ''t'') None [1, 0, 2] 1 True"
  let ?fs = "[new_nop, ack_frame (le32 5) 1 False, ?f]"
  have "str_ok ''a''" "nul_free ''a''" "str_ok ''t''" "nul_free ''t''" by code_simp+
  then have "routed_frame ?f" by (simp add: routed_frame_def frame_new_def extra_len_def)
  then have "\<forall>f \<in> set ?fs. broker_frame f" by (auto simp: broker_frame_def)
  from writer_reader_round_trip [OF this, of "\<lambda>_. True" "\<lambda>_. Written"
      "\<lparr>s_bytes = [], s_end = Closed\<rparr>" "\<lparr>rd_responses = [5 \<mapsto> 3], rd_results = Map.empty, rd_events = []\<rparr>"]
  have *: "\<exists>ws. handle_writer (\<lambda>_. Written) ?fs [] = (Done (), ws) \<and>
      handle_read (\<lambda>_. True) (feed (wire_bytes ws) \<lparr>s_bytes = [], s_end = Closed\<rparr>)
        \<lparr>rd_responses = [5 \<mapsto> 3], rd_results = Map.empty, rd_events = []\<rparr> =
      handle_read (\<lambda>_. True) \<lparr>s_bytes = [], s_end = Closed\<rparr>
        (fold receive ?fs \<lparr>rd_responses = [5 \<mapsto> 3], rd_results = Map.empty, rd_events = []\<rparr>)"
    by blast
  have "take 4 (drop (Suc 0) (254 # le32 5 @ [1])) = le32 5" "(254 # le32 5 @ [1]) ! 5 = 1" by code_simp+
  then have "fold receive ?fs \<lparr>rd_responses = [5 \<mapsto> 3], rd_results = Map.empty, rd_events = []\<rparr> =
      \<lparr>rd_responses = Map.empty, rd_results = [3 \<mapsto> Inr ()],
        rd_events = [frame_new KPublish (Some ''a'') (Some ''t'') None (as_bytes ''a'' @ 0 # as_bytes ''t'' @ [0, 0, 2]) 4 True]\<rparr>"
    by (simp add: receive_def new_nop_def frame_new_def ack_frame_def ack_bytes_def resolve_ack_def
        to_busrt_result_def arrives_def numeral_eq_Suc)
  with * show ?thesis by simp
qed

text \<open>
  C17. Nothing stays behind in the buffer of a writer: whenever the writes of a sequence of frames have gone
  into the buffered writer without error, in whatever interleaving with its flusher task, one more turn of
  the flusher brings every byte of them to the socket, in order, and so does dropping the writer.
\<close>

theorem frames_flushed:
  assumes "buf_writer ops out pend" and "\<forall>w. fst (bw_flush ops w) = None"
    and "pend w = []" and "\<forall>f \<in> set fs. broker_frame f"
    and "handle_writer (\<lambda>_. Written) fs [] = (Done (), writes_of evs)"
    and "ttl_run ops evs (ttl_new w) = ([], s)" and "EvDrop \<notin> set evs"
  shows "out (tw_writer (snd (ttl_run ops [EvRecv, EvFlush True] s))) = out w @ wire_bytes (writes_of evs) \<and>
    out (tw_writer (snd (ttl_run ops [EvDrop, EvDropFlush] s))) = out w @ wire_bytes (writes_of evs)"
proof -
  note bw = assms(1)
  have total: "out (tw_writer s) @ pend (tw_writer s) = out w @ wire_bytes (writes_of evs)"
    using buf_writer.ttl_run_total [OF bw assms(6)] assms(3) by (simp add: ttl_new_def written_writes)
  have ws: "writes_of evs = concat (map (fst \<circ> frame_writes) fs)"
    using handle_writer_all [of "\<lambda>_. Written" fs "[]"] assms(4,5) by (simp add: comp_def)
  have due: "flush_due s \<or> out (tw_writer s) = out (tw_writer s) @ pend (tw_writer s)"
  proof (cases "fs = []")
    case True
    then have "out (tw_writer s) @ pend (tw_writer s) = out w" using total ws by (simp add: wire_bytes_def)
    moreover have "prefix (out w) (out (tw_writer s))"
      using buf_writer.ttl_run_prefix [OF bw assms(6)] by (simp add: ttl_new_def)
    ultimately show ?thesis by (auto simp: prefix_def)
  next
    case False
    then have "writes_of evs \<noteq> []" "snd (last (writes_of evs)) \<noteq> FlushNo"
      using frames_writes_last [of fs] frame_writes_safe assms(4) unfolding ws by blast+
    then show ?thesis
      using buf_writer.ttl_run_last_write [OF bw assms(6) _ _ assms(7)] by (simp add: ttl_new_def)
  qed
  have "tw_drop s = DropWaiting"
    using ttl_run_no_drop [OF assms(7), of "ttl_new w" ops] assms(6) by (simp add: ttl_new_def)
  from buf_writer.flusher_turn [OF bw _ this due] buf_writer.drop_turn [OF bw] total assms(2)
  show ?thesis by auto
qed

theorem frames_flushed_witness:
  "\<exists>evs s. ttl_run ref_buf evs (ttl_new (4096, [], [])) = ([], s) \<and>
     tw_writer s = (4096, [], f_buf (ack_frame (le32 5) 1 False) @ f_buf (ack_frame (le32 6) 1 False)) \<and>
     tw_flusher s = FlusherSleeping \<and>
     fst (snd (tw_writer (snd (ttl_run ref_buf [EvRecv, EvFlush True] s)))) =
       f_buf (ack_frame (le32 5) 1 False) @ f_buf (ack_frame (le32 6) 1 False)"
proof -
  let ?f = "ack_frame (le32 5) 1 False" and ?g = "ack_frame (le32 6) 1 False"
  let ?evs = "[EvWrite (f_buf ?f) FlushScheduled, EvRecv, EvWrite (f_buf ?g) FlushScheduled]"
  define s where "s = snd (ttl_run ref_buf ?evs (ttl_new (4096, [], [])))"
  have run: "ttl_run ref_buf ?evs (ttl_new (4096, [], [])) = ([], s)"
      "tw_writer s = (4096, [], f_buf ?f @ f_buf ?g) \<and> tw_flusher s = FlusherSleeping"
    by (simp_all add: s_def ttl_write_def flusher_recv_def ttl_new_def ref_buf_def ack_frame_def ack_bytes_def
        frame_new_def)
  have "\<forall>w. fst (bw_flush ref_buf w) = None" by (simp add: ref_buf_def split: prod.split)
  moreover have "\<forall>h \<in> set [?f, ?g]. broker_frame h" by (auto simp: broker_frame_def)
  moreover have "handle_writer (\<lambda>_. Written) [?f, ?g] [] = (Done (), writes_of ?evs)"
    by (simp add: frame_writes_def ack_frame_def frame_new_def writes_of_def flush_from_def act_then_def)
  ultimately have "fst (snd (tw_writer (snd (ttl_run ref_buf [EvRecv, EvFlush True] s)))) = wire_bytes (writes_of ?evs)"
    using frames_flushed [OF ref_bw.buf_writer_axioms, of "(4096, [], [])" "[?f, ?g]" ?evs s] run(1)
    by (simp add: split_beta)
  with run show ?thesis by (intro exI [of _ ?evs] exI [of _ s]) (simp add: wire_bytes_def writes_of_def)
qed

text \<open>
  C18. A message from one IPC client to another, end to end.  The sender may send to the target, the message
  is within the size limit of the broker and shorter than 4 GiB, neither name contains NUL, the target is
  registered and takes its events, and its queue has room.  Then the bytes the sending client writes are read by
  the broker as one message frame; the broker queues it for the target and answers with success; and the bytes it then writes to
  the target are read there as a message from the sender with the payload that was sent.
\<close>

theorem message_end_to_end:
  assumes libs: "broker_libs X smv topic_match bmv name_match amv acl_match chq chcap chclosed"
    and inv: "db_inv X smv bmv N b"
    and sent: "ipc_send (Written, Written) target p qos cl = (Done r, cl')" and fresh: "i_written cl = []"
    and names: "str_ok target" "nul_free target" "str_ok (c_name (obj b a))" "nul_free (c_name (obj b a))"
    and size: "accepts P name (length target + 1 + length (cow_slice p))"
      "length (c_name (obj b a)) + 1 + length (cow_slice p) < 2 ^ 32"
    and allowed: "p2p_allowed X (rp_aaa P) target"
    and t: "b_clients b target = Some c" and room: "has_room chq chcap chclosed (c_tx (obj b c))"
  shows "\<exists>len buf f b'.
    read_client_frame P name (feed (i_written cl') s) =
      InFrame (le32 (i_frame_id cl')) OpMessage qos len buf s \<and>
    handle_frame X P a (le32 (i_frame_id cl')) OpMessage qos len buf b =
      ack_if_needed X a (le32 (i_frame_id cl')) qos RESPONSE_OK b' \<and>
    chq (c_tx (obj b' c)) = chq (c_tx (obj b c)) @ [f] \<and>
    (\<forall>alive rd u. alive (length (rd_events rd)) \<longrightarrow>
      (\<exists>g. handle_read_step alive (feed (wire_bytes (fst (frame_writes f))) u) rd =
          (Done u, rd\<lparr>rd_events := rd_events rd @ [g]\<rparr>) \<and>
        f_kind g = KMessage \<and> f_sender g = Some (c_name (obj b a)) \<and>
        frame_payload g = Some (cow_slice p) \<and> f_realtime g = is_realtime qos))"
proof -
  let ?body = "as_bytes target @ [0] @ cow_slice p"
  let ?pos = "length target + 1"
  let ?f = "frame_new KMessage (Some (c_name (obj b a))) None None ?body ?pos (is_realtime qos)"
  have w: "i_written cl' = client_frame (i_frame_id cl') OpMessage qos ?body"
    using sendsD(2) [OF sends_simps(1)] sent fresh unfolding ipc_send_def by fastforce
  have "accepts P name (length ?body)" using size(1) by simp
  then have read: "read_client_frame P name (feed (i_written cl') s) =
      InFrame (le32 (i_frame_id cl')) OpMessage qos (word_of_nat (length ?body)) ?body s"
    unfolding w by (intro read_client_frame_client_frame) simp_all
  have "\<not> ch_is_full X (c_tx (obj b c))"
    using room bounded_channel.ch_is_full [OF broker_libs.axioms(4) [OF libs]] by (simp add: has_room_def)
  then obtain b' where b': "send_msg X (announce X) a target None ?body ?pos (word_of_nat (length ?body))
        (is_realtime qos) (Some (rp_timeout P)) b = (Done (Inr ()), b')"
      "chq (c_tx (obj b' c)) = chq (c_tx (obj b c)) @ [?f]"
    using broker_libs.send_msg_offered [OF libs inv t, of a None ?body ?pos "word_of_nat (length ?body)"
        "is_realtime qos" "Some (rp_timeout P)"] room
    by (auto simp: send_result_def offered_def)
  have "parse_target ?body = Inr (target, ?pos)" using parse_target_ok [OF names(1,2)] by simp
  then have "handle_frame X P a (le32 (i_frame_id cl')) OpMessage qos (word_of_nat (length ?body)) ?body b =
      ack_if_needed X a (le32 (i_frame_id cl')) qos RESPONSE_OK b'"
    using allowed b'(1) by (simp add: handle_frame_def handle_targeted_def act_then_def Let_def)
  moreover have rf: "routed_frame ?f"
    using names(3,4) size(2) by (simp add: routed_frame_def frame_new_def extra_len_def)
  have "\<exists>g. handle_read_step alive (feed (wire_bytes (fst (frame_writes ?f))) u) rd =
          (Done u, rd\<lparr>rd_events := rd_events rd @ [g]\<rparr>) \<and>
        f_kind g = KMessage \<and> f_sender g = Some (c_name (obj b a)) \<and>
        frame_payload g = Some (cow_slice p) \<and> f_realtime g = is_realtime qos"
    if "alive (length (rd_events rd))" for alive rd u
  proof -
    have "frame_payload (arrives ?f) = Some (cow_slice p)" by (simp add: arrives_payload frame_new_def)
    with handle_read_step_routed [of ?f alive rd u, OF rf that] show ?thesis
      by (intro exI [of _ "arrives ?f"]) (simp add: receive_def arrives_def frame_new_def Let_def)
  qed
  ultimately show ?thesis using read b'(2) by blast
qed

theorem message_end_to_end_witness:
  "\<exists>len buf f b'.
    read_client_frame plain_reader ''a''
      (feed (i_written (snd (ipc_send (Written, Written) ''b'' (Borrowed [9]) QosNo (ipc_client_new (ipc_config_new ''x'' ''a''))))) \<lparr>s_bytes = [], s_end = Closed\<rparr>) =
      InFrame (le32 1) OpMessage QosNo len buf \<lparr>s_bytes = [], s_end = Closed\<rparr> \<and>
    handle_frame ref_ctx plain_reader 0 (le32 1) OpMessage QosNo len buf run_ab =
      ack_if_needed ref_ctx 0 (le32 1) QosNo RESPONSE_OK b' \<and>
    snd (snd (c_tx (obj b' 1))) = snd (snd (c_tx (obj run_ab 1))) @ [f]"
proof -
  let ?cl = "ipc_client_new (ipc_config_new ''x'' ''a'')"
  obtain r cl' where s: "ipc_send (Written, Written) ''b'' (Borrowed [9]) QosNo ?cl = (Done r, cl')" "i_frame_id cl' = 1"
    using sendsD [OF sends_simps(1) [of OpMessage QosNo "''b''" "[9]"], of ?cl]
    by (auto simp: ipc_send_def ipc_client_new_def increment_frame_id_def)
  have f: "i_written ?cl = []" by (simp add: ipc_client_new_def)
  have n: "str_ok ''b''" "nul_free ''b''" "str_ok (c_name (obj run_ab 0))" "nul_free (c_name (obj run_ab 0))"
    by code_simp+
  have l: "length (c_name (obj run_ab 0)) = 1" by code_simp
  have a: "accepts plain_reader ''a'' (length ''b'' + 1 + length (cow_slice (Borrowed [9])))"
    by (simp add: accepts_def plain_reader_def)
  have p: "p2p_allowed ref_ctx (rp_aaa plain_reader) ''b''" by (simp add: p2p_allowed_def plain_reader_def)
  have tx: "c_tx (obj run_ab 1) = (2, False, [])" by code_simp
  have h: "has_room (\<lambda>ch. snd (snd ch)) fst (\<lambda>ch. fst (snd ch)) (c_tx (obj run_ab 1))"
    unfolding tx by (simp add: has_room_def)
  have l2: "length (c_name (obj run_ab 0)) + 1 + length (cow_slice (Borrowed [9])) < 2 ^ 32"
    unfolding l by simp
  show ?thesis
    using message_end_to_end [OF ref.broker_libs_axioms run_inv(1) s(1) f n a l2 p run_ab_facts(2) h,
        of "\<lparr>s_bytes = [], s_end = Closed\<rparr>"] unfolding s by (metis snd_conv)
qed

text \<open>
  A subscription to several topics reaches the broker as those topics, in order, whatever the
  acknowledgement level: the first topic must not be empty, and no topic may contain NUL.
\<close>

lemma bulk_subscription_topics:
  assumes topics: "topics \<noteq> []" "hd topics \<noteq> []" "\<forall>t \<in> set topics. str_ok t \<and> nul_free t"
    and sent: "ipc_subscribe_bulk (Written, Written) topics qos cl = (Done r, cl')" and fresh: "i_written cl = []"
    and size: "accepts P name (length (bulk_payload [] topics))"
  shows "\<exists>len buf. read_client_frame P name (feed (i_written cl') s) =
      InFrame (le32 (i_frame_id cl')) OpSubscribeTopic qos len buf s \<and>
    collect_topics X None c op_id qos' (split0 buf) [] b = (Done topics, b)"
proof -
  let ?body = "bulk_payload [] topics"
  obtain u us where u: "topics = u # us" "u \<noteq> []" using topics(1,2) by (cases topics) auto
  have w: "i_written cl' = client_frame (i_frame_id cl') OpSubscribeTopic qos ?body"
    using sendsD(2) [OF sends_simps(4)] sent fresh unfolding ipc_subscribe_bulk_def by fastforce
  have read: "read_client_frame P name (feed (i_written cl') s) =
      InFrame (le32 (i_frame_id cl')) OpSubscribeTopic qos (word_of_nat (length ?body)) ?body s"
    unfolding w using size by (intro read_client_frame_client_frame) simp_all
  have sp: "split0 ?body = map as_bytes topics"
    using split0_bulk_payload [of u us] u topics(3) by auto
  have "collect_topics X None c op_id qos' (map as_bytes ts) acc b = (Done (acc @ ts), b)"
    if "\<forall>t \<in> set ts. str_ok t" for ts acc
    using that by (induction ts arbitrary: acc) (simp_all add: parse_str_as_bytes subscribe_allowed_def)
  then have "collect_topics X None c op_id qos' (split0 ?body) [] b = (Done topics, b)"
    using topics(3) sp by simp
  with read show ?thesis by blast
qed

text \<open>
  C19. A client and the broker agree on the greeting: the client writes what the broker expects, the
  broker learns the name, and the client accepts the answers, for every name of at most 65535 bytes that
  is not empty and does not start with a dot.
\<close>

theorem handshake_agreement:
  assumes "str_ok name" and "name \<noteq> []" and "hd name \<noteq> CHR ''.''" and "length name \<le> 65535"
    and "\<forall>k. wres k = Written"
  shows "\<exists>hello out. chat (\<lambda>_. None) name (feed (concat out @ [RESPONSE_OK]) u) = (Inr u, hello) \<and>
    peer_hello wres (feed hello s) [] = (Done (name, s), out)"
proof -
  let ?out = "[GREETINGS @ le16 PROTOCOL_VERSION, [RESPONSE_OK]]"
  let ?hello = "GREETINGS @ le16 PROTOCOL_VERSION @ le16 (word_of_nat (length name)) @ as_bytes name"
  have "chat (\<lambda>_. None) name (feed (concat ?out @ [RESPONSE_OK]) u) = (Inr u, ?hello)"
    using chat_accepts [OF assms(4), of u] by simp
  moreover have "peer_hello wres (feed ?hello s) [] = (Done (name, s), ?out)"
    using peer_hello_accepts [OF assms(1-4)] assms(5) by blast
  ultimately show ?thesis by blast
qed

theorem handshake_agreement_witness:
  "\<exists>hello out. chat (\<lambda>_. None) ''a'' (feed (concat out @ [RESPONSE_OK]) \<lparr>s_bytes = [7], s_end = Silent\<rparr>) =
      (Inr \<lparr>s_bytes = [7], s_end = Silent\<rparr>, hello) \<and>
    peer_hello (\<lambda>_. Written) (feed hello \<lparr>s_bytes = [], s_end = Closed\<rparr>) [] =
      (Done (''a'', \<lparr>s_bytes = [], s_end = Closed\<rparr>), out)"
proof -
  have "str_ok ''a''" by code_simp
  then show ?thesis using handshake_agreement [of "''a''"] by simp
qed

text \<open>
  A client name that contains NUL breaks the frames its owner sends: the receiver takes the part
  before the NUL for the sender, and the rest of the name for the beginning of the payload.  The broker
  does not refuse such names.
\<close>

theorem nul_name_misread:
  assumes "str_ok v" and "nul_free v" and "length v + length u + 2 + length pl < 2 ^ 32"
    and "alive (length (rd_events rd))"
  shows "\<exists>g. handle_read_step alive
      (feed (wire_bytes (fst (frame_writes (frame_new KMessage (Some (v @ CHR 0x00 # u)) None None pl 0 rt)))) s) rd =
      (Done s, rd\<lparr>rd_events := rd_events rd @ [g]\<rparr>) \<and>
    f_sender g = Some v \<and> frame_payload g = Some (as_bytes u @ 0 # pl)"
proof -
  let ?f = "frame_new KMessage (Some (v @ CHR 0x00 # u)) None None pl 0 rt"
  let ?g = "frame_new KMessage (Some v) None None (as_bytes u @ 0 # pl) 0 rt"
  have z: "byte_of_char (CHR 0x00) = 0" by code_simp
  have "wire_bytes (fst (frame_writes ?f)) = wire_bytes (fst (frame_writes ?g))"
    by (simp add: wire_bytes_def frame_writes_def frame_head_def frame_payload_def frame_new_def extra_len_def z)
  moreover have "routed_frame ?g"
    using assms by (simp add: routed_frame_def frame_new_def extra_len_def)
  ultimately have "handle_read_step alive (feed (wire_bytes (fst (frame_writes ?f))) s) rd = (Done s, receive ?g rd)"
    using handle_read_step_routed assms(4) by metis
  then show ?thesis
    by (intro exI [of _ "arrives ?g"])
       (simp add: receive_def frame_new_def arrives_def frame_payload_def)
qed

theorem nul_name_misread_witness:
  "\<exists>g. handle_read_step (\<lambda>_. True)
      (feed (wire_bytes (fst (frame_writes (frame_new KMessage (Some (''a'' @ CHR 0x00 # ''b'')) None None [9] 0 False))))
        \<lparr>s_bytes = [], s_end = Closed\<rparr>) \<lparr>rd_responses = Map.empty, rd_results = Map.empty, rd_events = []\<rparr> =
      (Done \<lparr>s_bytes = [], s_end = Closed\<rparr>, \<lparr>rd_responses = Map.empty, rd_results = Map.empty, rd_events = [g]\<rparr>) \<and>
    f_sender g = Some ''a'' \<and> frame_payload g = Some (as_bytes ''b'' @ [0, 9])"
proof -
  have "str_ok ''a''" "nul_free ''a''" by code_simp+
  with nul_name_misread [of "''a''" "''b''" "[9]" "\<lambda>_. True"
      "\<lparr>rd_responses = Map.empty, rd_results = Map.empty, rd_events = []\<rparr>" False "\<lparr>s_bytes = [], s_end = Closed\<rparr>"]
  show ?thesis by simp
qed

section \<open>The IPC client\<close>

text \<open>
  C20. A frame that is not written completely (an error, the timeout, or a cancelled call) never leaves
  the client connected: the broken stream is not used again.  This is so for every method that sends a
  frame with an operation; a cancelled \<open>ping\<close> is not covered by the write guard.
\<close>

theorem incomplete_frame_disconnects:
  assumes "w \<noteq> (Written, Written)"
    and "m \<in> {ipc_send w target p qos, ipc_zc_send w target h p qos, ipc_send_broadcast w target p qos,
              ipc_publish w target p qos, ipc_publish_for w target receiver p qos,
              ipc_subscribe w topic qos, ipc_unsubscribe w topic qos, ipc_exclude w topic qos,
              ipc_unexclude w topic qos, ipc_subscribe_bulk w topics qos, ipc_unsubscribe_bulk w topics qos,
              ipc_exclude_bulk w topics qos, ipc_unexclude_bulk w topics qos}"
  shows "\<exists>r cl'. m cl = (r, cl') \<and> \<not> i_connected cl' \<and> \<not> i_reader_alive cl' \<and> (\<forall>x. r \<noteq> Done x)"
  using assms send_frame_and_confirm_disconnects [OF assms(1)]
  by (auto simp: ipc_method_defs send_frame_def send_zc_frame_def send_frame_receiver_def send_frame_plain_def
      Let_def split: prod.splits)

theorem incomplete_frame_disconnects_witness:
  "\<exists>r cl'. ipc_send (Written, WriteCancelled) ''b'' (Borrowed [9]) Processed (ipc_client_new (ipc_config_new ''x'' ''a'')) =
     (r, cl') \<and> \<not> i_connected cl' \<and> \<not> i_reader_alive cl' \<and> (\<forall>x. r \<noteq> Done x)"
  by (rule incomplete_frame_disconnects [where w = "(Written, WriteCancelled)" and target = "''b''"
        and p = "Borrowed [9]" and qos = Processed]) simp_all

text \<open>
  An acknowledgement resolves the operation it names, with the result its code stands for, and
  leaves every other pending operation alone; an acknowledgement nobody waits for changes nothing.
\<close>

lemma ack_resolves_its_operation:
  "handle_read_step alive (feed (wire_bytes (fst (frame_writes (ack_frame (le32 i) code rt)))) s) rd =
     (Done s, case rd_responses rd i of
        Some t \<Rightarrow> rd\<lparr>rd_responses := (rd_responses rd)(i := None),
                     rd_results := (rd_results rd)(t \<mapsto> to_busrt_result code)\<rparr>
      | None \<Rightarrow> rd)"
proof -
  have "of_le32 (take 4 (drop 1 (f_buf (ack_frame (le32 i) code rt)))) = i"
    by (simp add: ack_frame_def ack_bytes_def frame_new_def)
  moreover have "f_buf (ack_frame (le32 i) code rt) ! 5 = code"
    by (simp add: ack_frame_def ack_bytes_def frame_new_def nth_append)
  moreover have "f_kind (ack_frame (le32 i) code rt) = KPrepared" by (simp add: ack_frame_def frame_new_def)
  ultimately show ?thesis by (simp add: handle_read_step_other receive_def resolve_ack_def)
qed

text \<open>
  C21. The ids of frames, in both clients, and of RPC calls are never 0, and an id is used again only after
  all the other 4294967294 ids, so that two pending operations of a client never share one.
\<close>

theorem issued_ids_distinct:
  assumes "i < j" and "j < i + id_period"
  shows "next_id \<in> {increment_frame_id, sync_increment_frame_id, next_call_id} \<longrightarrow>
    (next_id ^^ Suc i) w \<noteq> (next_id ^^ Suc j) w \<and> (next_id ^^ Suc i) w \<noteq> 0"
  using frame_ids.issued_distinct [OF assms] frame_ids.issued_nonzero sync_frame_ids.issued_distinct [OF assms]
    sync_frame_ids.issued_nonzero call_ids.issued_distinct [OF assms] call_ids.issued_nonzero
  by blast

theorem issued_ids_distinct_witness:
  "(next_call_id ^^ Suc 0) (- 1) \<noteq> (next_call_id ^^ Suc 7) (- 1) \<and> (next_call_id ^^ Suc 0) (- 1) \<noteq> 0"
  using issued_ids_distinct [of 0 7 next_call_id "- 1"] by (simp add: id_period_def del: funpow.simps)

text \<open>
  The code of an error kind is decoded as that kind, except for two kinds: a timeout, and end of
  file, are decoded as an unspecified error.
\<close>

lemma error_kind_round_trip:
  "kind_from (kind_code k) = (if k = Timeout \<or> k = Eof then Other else k)"
  by (cases k) (simp_all add: kind_from_def)

text \<open>
  The flags byte of a frame holds the operation and the acknowledgement level without loss, and is
  the ping byte 0 for no operation a client sends.
\<close>

lemma frame_flags_round_trip:
  "flags_op (frame_flags op qos) = Inr op \<and> flags_qos (frame_flags op qos) = Inr qos \<and>
     (frame_flags op qos = 0 \<longleftrightarrow> op = OpNop \<and> qos = QosNo)"
  by (simp add: flags_op_frame_flags flags_qos_frame_flags frame_flags_zero)

section \<open>Connections\<close>

text \<open>
  C22. A connected client gets its frames in the order they were queued, whatever its reader, writer and
  pinger and the other tasks of the broker do in between: the session never panics, what the writer has
  written is an initial part of all the frames ever queued for the client, and as long as the session runs
  the rest can still be written.  If, while it runs, the frames written have no NUL in their senders and topics and
  are shorter than 4 GiB, and the client takes events, its reader recovers exactly these frames from the bytes.
\<close>

theorem session_delivers_in_order:
  assumes ch: "bounded_channel X chq chcap chclosed" and b: "broker_reachable X N b" "c < length (b_objs b)"
    and run: "session_run X chq chclosed N P c (session_start chq c str b) s"
  shows "ss_state s \<noteq> Panicked \<and> (\<exists>rest. ss_queued s = written_frames s @ rest) \<and>
    (ss_state s = Running \<longrightarrow>
      ((\<forall>f \<in> set (written_frames s). broker_frame f) \<and> (\<forall>k. alive k) \<longrightarrow>
        handle_read alive (feed (wire_bytes (ss_out s)) cs) rd = handle_read alive cs (fold receive (written_frames s) rd)) \<and>
      (\<exists>s'. session_run X chq chclosed N P c s s' \<and> ss_state s' = Running \<and> ss_queued s' = ss_queued s \<and>
        written_frames s' = ss_queued s'))"
proof -
  have inv: "session_inv chq N c s" by (rule session_run_inv [OF ch run session_start_inv [OF ch b]])
  then have "ss_queued s = written_frames s @ drop (ss_written s) (ss_taken s) @ chq (c_tx (obj (ss_broker s) c))"
    by (simp add: session_inv_def written_frames_def append.assoc [symmetric])
  moreover have "ss_state s \<noteq> Panicked" using inv by (simp add: session_inv_def)
  ultimately show ?thesis
    using session_invD(6) [OF inv] session_can_write [OF ch inv] handle_read_frames [of "written_frames s" alive cs rd]
    by auto
qed

theorem session_delivers_in_order_witness:
  "written_frames run_session = [run_message] \<and>
     handle_read (\<lambda>_. True) (feed (wire_bytes (ss_out run_session)) \<lparr>s_bytes = [], s_end = Closed\<rparr>)
       \<lparr>rd_responses = Map.empty, rd_results = Map.empty, rd_events = []\<rparr> =
     handle_read (\<lambda>_. True) \<lparr>s_bytes = [], s_end = Closed\<rparr>
       (receive run_message \<lparr>rd_responses = Map.empty, rd_results = Map.empty, rd_events = []\<rparr>)"
proof -
  have len: "2 < length (b_objs run_full)" by code_simp
  have w: "written_frames run_session = [run_message]" "ss_state run_session = Running"
    by (simp_all add: run_session_def written_frames_def session_start_def)
  with session_delivers_in_order [OF ref_channel run_full_reachable len run_session_run, of "\<lambda>_. True"]
  show ?thesis by (simp add: run_message_writes)
qed

text \<open>
  C23. When a session ends, whichever of its tasks ended it and whatever happened before, the result of that
  task is the result of the connection, its client is not registered any more, even if the announcement of
  that waits, and the registry is consistent.
\<close>

theorem session_end_unregisters:
  assumes libs: "broker_libs X smv topic_match bmv name_match amv acl_match chq chcap chclosed"
    and names: "inj_on (sha256 X) N" and b: "broker_reachable X N b" "c < length (b_objs b)"
    and run: "session_run X chq chclosed N P c (session_start chq c str b) s" "ss_state s = Ended e"
    and fin: "finish_peer X c name e (ss_broker s) = (r, b')"
  shows "db_inv X smv bmv N b' \<and> \<not> live b' c \<and>
    (r = Pending \<or> r = (case session_result name e of Inl err \<Rightarrow> Bail err | Inr u \<Rightarrow> Done u))"
proof -
  have ch: "bounded_channel X chq chcap chclosed" using libs by (simp add: broker_libs_def)
  have "broker_reachable X N (ss_broker s)"
    by (rule session_run_reachable [OF ch run(1) session_start_inv [OF ch b]]) (simp add: session_start_def b(1))
  from broker_libs.finish_peer_not_live [OF libs reachable_db_inv [OF libs names this]]
  show ?thesis using fin finish_peer_result [of X c name e "ss_broker s"] by (metis fst_conv snd_conv)
qed

theorem session_end_unregisters_witness:
  "\<exists>r b'. read_client_frame plain_reader ''c'' \<lparr>s_bytes = [], s_end = Closed\<rparr> = InEnd r \<and>
     snd (finish_peer ref_ctx 2 ''c'' (ReaderEnd r) run_full) = b' \<and> \<not> live b' 2 \<and> db_inv ref_ctx ref_smv map_of run_names b'"
proof -
  let ?str = "\<lparr>s_bytes = [], s_end = Closed\<rparr>"
  let ?s = "session_start (\<lambda>ch. snd (snd ch)) 2 ?str run_full"
  have len: "2 < length (b_objs run_full)" "c_name (obj run_full 2) = ''c''" by code_simp+
  obtain r where r: "read_client_frame plain_reader ''c'' ?str = InEnd r"
    by (auto simp: read_client_frame_def read_exact_def)
  have "session_step ref_ctx (\<lambda>ch. snd (snd ch)) (\<lambda>ch. fst (snd ch)) run_names plain_reader 2 ?s
      (?s\<lparr>ss_state := Ended (ReaderEnd r)\<rparr>)"
    by (rule session_step.s_read_end) (simp_all add: session_start_def len r)
  from session_end_unregisters [OF ref.broker_libs_axioms inj_run_names run_full_reachable len(1)
      session_run.run_step [OF session_run.run_refl this], of "ReaderEnd r" "''c''"]
  show ?thesis using r by (simp add: session_start_def) (metis prod.collapse)
qed

text \<open>
  A connection that breaks just after its client is registered leaves the client behind: the task
  ends with the error of the write, and the name stays taken although nothing serves it.
\<close>

theorem broken_registration_stays:
  assumes new: "b_clients b name = None" and pri: "primary_of name = name" and nc: "no_core b"
    and brk: "wres (length out) = WriteErr k"
  shows "\<exists>c b'. peer_register X wres PP name (b, out) = (Bail (err_from_io k), (b', out)) \<and>
    b_clients b' name = Some c \<and> live b' c \<and> c_name (obj b' c) = name"
proof -
  let ?cl = "bus_client_new X name (primary_of name) (pp_queue_size PP) (pp_kind PP) (pp_source PP) (pp_source_port PP)"
  let ?b = "snd (alloc ?cl b)"
  let ?c = "length (b_objs b)"
  let ?i = "inserted X ?c ?b"
  have cl: "c_name (obj ?b ?c) = name" "c_primary (obj ?b ?c)" "b_clients ?b name = None" "?c < length (b_objs ?b)"
    using new pri by (simp_all add: alloc_simps bus_client_new_def)
  have "insert_client X ?c ?b = (Inr (), ?i)" using cl by (simp add: insert_client_cases Let_def)
  then have e: "register_entry X ?c ?b = (Inr (), ?i)" by (simp add: register_entry_def Let_def)
  have "no_core ?i" using nc cl by (simp add: no_core_def inserted_def insert_client_def Let_def alloc_def)
  then have "register_client X ?c ?b = (Done (), ?i)"
    using e cl(2) by (simp add: register_client_def log_err_def announce_no_core no_core_def)
  then have "peer_register X wres PP name (b, out) = (Bail (err_from_io k), (?i, out))"
    using brk by (simp add: peer_register_def alloc_simps prod.case_eq_if Let_def act_then_def on_out_def
        write_and_flush_def)
  moreover have "b_clients ?i name = Some ?c" using inserted_simps(1) [of ?b ?c X] cl by simp
  moreover have "live ?i ?c" "c_name (obj ?i ?c) = name"
    using cl inserted_simps(4) [of ?b ?c X] obj_inserted(1,5) [of ?b ?c 0 X ?c] by (simp_all add: live_def)
  ultimately show ?thesis by blast
qed

theorem broken_registration_stays_witness:
  "\<exists>c b'. peer_register ref_ctx (\<lambda>_. WriteErr BrokenPipe) (ipc_peer 1) ''c'' (run_ab, []) = (Bail (err_from_io BrokenPipe), (b', [])) \<and>
     b_clients b' ''c'' = Some c \<and> live b' c \<and> c_name (obj b' c) = ''c''"
proof -
  have "b_clients run_ab ''c'' = None" "primary_of ''c'' = ''c''" "no_core run_ab" by code_simp+
  then show ?thesis by (intro broken_registration_stays) simp_all
qed

text \<open>
  \<open>Client::unregister\<close> clears the registration flag before it asks the broker to unregister, so the
  broker does nothing: the client stays in the client table and in the maps, and nothing is announced.
\<close>

theorem client_unregister_without_effect:
  assumes "k_bus k < length (b_objs b)"
  shows "client_unregister X k b = (Done (), upd_obj (k_bus k) (\<lambda>cl. cl\<lparr>c_registered := False\<rparr>) b) \<and>
    b_clients (snd (client_unregister X k b)) = b_clients b \<and>
    b_subscriptions (snd (client_unregister X k b)) = b_subscriptions b \<and>
    b_broadcasts (snd (client_unregister X k b)) = b_broadcasts b"
proof -
  let ?b = "upd_obj (k_bus k) (\<lambda>cl. cl\<lparr>c_registered := False\<rparr>) b"
  have "\<not> c_registered (obj ?b (k_bus k))" using assms by (simp add: upd_obj_def)
  then have "client_unregister X k b = (Done (), ?b)"
    by (simp add: client_unregister_def unregister_client_def unregister_client_with_def Let_def)
  then show ?thesis by simp
qed

theorem client_unregister_without_effect_witness:
  "b_clients (snd (client_unregister ref_ctx (bus_of 0) run_ab)) ''a'' = Some 0"
proof -
  have "k_bus (bus_of 0) < length (b_objs run_ab)" by (simp add: bus_of_def run_ab_facts)
  then show ?thesis using client_unregister_without_effect [of "bus_of 0" run_ab ref_ctx] by (simp add: run_ab_facts)
qed

section \<open>The reader of the broker\<close>

text \<open>
  Whatever bytes a client sends, its reader task keeps the registry consistent, as long as the other
  tasks do.
\<close>

theorem reader_keeps_registry:
  assumes libs: "\<forall>k. broker_libs (env k) smv topic_match bmv name_match amv acl_match chq chcap chclosed"
    and same: "\<forall>k b. db_inv (env k) smv bmv N b \<longleftrightarrow> db_inv X smv bmv N b"
    and others: "\<forall>k b. db_inv X smv bmv N b \<longrightarrow> db_inv X smv bmv N (others k b)"
    and inv: "db_inv X smv bmv N b"
  shows "db_inv X smv bmv N (snd (handle_reader env others P c name k s b))"
proof -
  have f: "db_inv X smv bmv N (snd (handle_frame (env k) P c op_id op qos len buf (others k b)))"
    if "db_inv X smv bmv N b" for k b op_id op qos len buf
    using broker_libs.handle_frame_inv [of "env k"] libs same others that by metis
  show ?thesis
    using inv f others
  proof (induction env others P c name k s b rule: handle_reader.induct)
    case (1 env others P c name k s b)
    show ?case
    proof (cases "read_client_frame P name s")
      case (InFrame i op qos len buf s')
      obtain r b' where h: "handle_frame (env k) P c i op qos len buf (others k b) = (r, b')" by force
      then have "db_inv X smv bmv N b'" using "1.prems"(1,2) by (metis snd_conv)
      with 1 InFrame h show ?thesis by (cases r) (auto simp: handle_reader.simps [of env others P c name k s b])
    next
      case (InEnd e)
      with 1 show ?thesis by (cases e) (auto simp: handle_reader.simps [of env others P c name k s b])
    next
      case (InPing s')
      with 1 show ?thesis by (simp add: handle_reader.simps [of env others P c name k s b])
    qed
  qed
qed

theorem reader_keeps_registry_witness:
  "db_inv ref_ctx ref_smv map_of run_names
     (snd (handle_reader (\<lambda>_. ref_ctx) (\<lambda>_ b. b) plain_reader 0 ''a'' 0 \<lparr>s_bytes = [1, 2, 3], s_end = Closed\<rparr> run_ab))"
  by (rule reader_keeps_registry [where env = "\<lambda>_. ref_ctx", OF allI [OF ref.broker_libs_axioms] _ _ run_inv(1)])
     simp_all

text \<open>
  C24. A message, a broadcast or a publication the access control denies does nothing but answer: the
  registry and the queues of all other clients stay as they are, and the sender gets one acknowledgement,
  access denied, if it asked for one.
\<close>

theorem denied_operation_only_answers:
  assumes "bounded_channel X chq chcap chclosed"
    and "parse_target buf = Inr (target, pos)"
    and "op = OpMessage \<and> \<not> p2p_allowed X (rp_aaa P) target \<or>
      op = OpBroadcast \<and> \<not> broadcast_allowed X (rp_aaa P) target \<or>
      op = OpPublishTopic \<and> \<not> publish_allowed X (rp_aaa P) target \<or>
      op = OpPublishTopicFor \<and> \<not> publish_allowed X (rp_aaa P) target \<and>
        (\<exists>receiver n. parse_target (drop pos buf) = Inr (receiver, n))"
    and "c < length (b_objs b)" and "has_room chq chcap chclosed (c_tx (obj b c))"
  shows "\<exists>b'. handle_frame X P c op_id op qos len buf b = (Done (), b') \<and> same_registry b b' \<and>
    chq (c_tx (obj b' c)) = chq (c_tx (obj b c)) @
      (if needs_ack qos then [ack_frame op_id ERR_ACCESS (is_realtime qos)] else []) \<and>
    (\<forall>k. k \<noteq> c \<longrightarrow> c_tx (obj b' k) = c_tx (obj b k))"
  unfolding handle_frame_denied [OF assms(2,3)]
  by (rule bounded_channel.ack_if_needed_room [OF assms(1,4,5)])

theorem denied_operation_only_answers_witness:
  "\<exists>b'. handle_frame ref_ctx (plain_reader\<lparr>rp_aaa := Some (deny_p2p ref_ctx (client_aaa_default ref_ctx))\<rparr>) 0 (le32 1)
     OpMessage Processed 3 (as_bytes ''b'' @ 0 # [9]) run_ab = (Done (), b') \<and> same_registry run_ab b' \<and>
   snd (snd (c_tx (obj b' 0))) = snd (snd (c_tx (obj run_ab 0))) @ [ack_frame (le32 1) ERR_ACCESS False]"
proof -
  let ?P = "plain_reader\<lparr>rp_aaa := Some (deny_p2p ref_ctx (client_aaa_default ref_ctx))\<rparr>"
  have "str_ok ''b''" "nul_free ''b''" by code_simp+
  then have t: "parse_target (as_bytes ''b'' @ 0 # [9]) = Inr (''b'', length ''b'' + 1)" by (rule parse_target_ok)
  have d: "\<not> p2p_allowed ref_ctx (rp_aaa ?P) ''b''" by (simp add: ref.p2p_denied)
  have r: "0 < length (b_objs run_ab)"
    "has_room (\<lambda>ch. snd (snd ch)) fst (\<lambda>ch. fst (snd ch)) (c_tx (obj run_ab 0))" by code_simp+
  show ?thesis
    using denied_operation_only_answers [OF ref.bounded_channel_axioms t _ r, of OpMessage ?P "le32 1" Processed 3] d
    by (auto simp: needs_ack_def is_realtime_def)
qed

text \<open>
  After \<open>allow_p2p_to\<close> a client may send to exactly the targets that one of the masks matches, those
  given now and those given before, and to everyone if one of the masks given now is the wildcard.
\<close>

lemma p2p_masks_decide:
  assumes "acl_map X amv acl_match"
  shows "p2p_allowed X (Some (set_p2p_to X masks a)) target \<longleftrightarrow>
     ''*'' \<in> set masks \<or> (\<exists>k \<in> set masks \<union> amv (allow_p2p_to a). acl_match (allow_p2p_to a) k target)"
  by (rule acl_map.p2p_allowed_masks [OF assms])

text \<open>
  A subscription with an acknowledgement level is answered more than once when topics are denied: one
  access-denied acknowledgement for each of them and then a success, all with the id of the operation.
\<close>

theorem subscription_acks:
  assumes libs: "broker_libs X smv topic_match bmv name_match amv acl_match chq chcap chclosed"
    and topics: "\<forall>t \<in> set ts. str_ok t" and buf: "split0 buf = map as_bytes ts" and ack: "needs_ack qos"
    and c: "c < length (b_objs b)" "\<not> chclosed (c_tx (obj b c))"
    and room: "length (chq (c_tx (obj b c))) + length (filter (\<lambda>t. \<not> subscribe_allowed X aaa t) ts) < chcap (c_tx (obj b c))"
  shows "\<exists>b'. handle_subscribe X aaa c op_id qos len buf b = (Done (), b') \<and>
    chq (c_tx (obj b' c)) = chq (c_tx (obj b c)) @
      replicate (length (filter (\<lambda>t. \<not> subscribe_allowed X aaa t) ts)) (ack_frame op_id ERR_ACCESS (is_realtime qos)) @
      [ack_frame op_id RESPONSE_OK (is_realtime qos)]"
proof -
  note ch = broker_libs.axioms(4) [OF libs]
  let ?b = "count_r c (ucast len) b"
  have c': "c < length (b_objs ?b)" "\<not> chclosed (c_tx (obj ?b c))"
    "length (chq (c_tx (obj ?b c))) + length (filter (\<lambda>t. \<not> subscribe_allowed X aaa t) ts) < chcap (c_tx (obj ?b c))"
    using c room by simp_all
  from bounded_channel.collect_topics_acks [OF ch topics ack c', where acc = "[]" and op_id = op_id] obtain b1 where
    b1: "collect_topics X aaa c op_id qos (map as_bytes ts) [] ?b = (Done (filter (subscribe_allowed X aaa) ts), b1)"
      "chq (c_tx (obj b1 c)) = chq (c_tx (obj b c)) @
        replicate (length (filter (\<lambda>t. \<not> subscribe_allowed X aaa t) ts)) (ack_frame op_id ERR_ACCESS (is_realtime qos))"
      "chcap (c_tx (obj b1 c)) = chcap (c_tx (obj b c))" "\<not> chclosed (c_tx (obj b1 c))"
      "length (b_objs b1) = length (b_objs b)"
    by (auto simp del: ERR_ACCESS_def)
  let ?b2 = "subscribe_all X c (filter (subscribe_allowed X aaa) ts) b1"
  have "c < length (b_objs ?b2)" "has_room chq chcap chclosed (c_tx (obj ?b2 c))"
    using b1 c room by (simp_all add: subscribe_all_def has_room_def)
  from bounded_channel.send_ack_room [OF ch this, of op_id RESPONSE_OK "is_realtime qos"] obtain b3 where
    "send_ack X c op_id RESPONSE_OK (is_realtime qos) ?b2 = (Done (), b3)"
    "chq (c_tx (obj b3 c)) = chq (c_tx (obj ?b2 c)) @ [ack_frame op_id RESPONSE_OK (is_realtime qos)]" by blast
  moreover have "chq (c_tx (obj ?b2 c)) = chq (c_tx (obj b1 c))" by (simp add: subscribe_all_def)
  ultimately show ?thesis
    using b1(1,2) buf ack
    by (intro exI [of _ b3]) (simp add: handle_subscribe_def act_then_def ack_if_needed_def
        del: ERR_ACCESS_def RESPONSE_OK_def)
qed

theorem subscription_acks_witness:
  "\<exists>b'. handle_subscribe ref_ctx (Some (deny_subscribe ref_ctx (client_aaa_default ref_ctx))) 0 (le32 1) Processed 1
      (as_bytes ''t'') run_ab = (Done (), b') \<and>
    snd (snd (c_tx (obj b' 0))) = [ack_frame (le32 1) ERR_ACCESS False, ack_frame (le32 1) RESPONSE_OK False]"
proof -
  let ?a = "Some (deny_subscribe ref_ctx (client_aaa_default ref_ctx))"
  have d: "\<not> subscribe_allowed ref_ctx ?a ''t''" by code_simp
  have tx: "c_tx (obj run_ab 0) = (2, False, [])" by code_simp
  have t: "\<forall>t \<in> set [''t'']. str_ok t" "split0 (as_bytes ''t'') = map as_bytes [''t'']" by code_simp+
  from subscription_acks [OF ref.broker_libs_axioms t, of Processed 0 run_ab ?a "le32 1" 1] d
  show ?thesis by (simp add: tx run_ab_facts replicate_Suc del: ERR_ACCESS_def RESPONSE_OK_def)
qed

section \<open>RPC\<close>

text \<open>
  C25. Which accessors of a parsed event panic.  The payload and the code can be read of every event, and
  the id of everything but a notification.  The id of a notification can be read exactly if its frame has the
  five bytes of a call header.  The method can be read of requests, and of error replies, where it is a part
  of the code; of a notification never, and of a reply only if its header is longer than the one the clients send.
\<close>

theorem rpc_accessors_total:
  assumes "rpc_try_from f = Some (Inr e)" and "f_payload_pos f \<le> length (f_buf f)"
  shows "event_payload e \<noteq> None \<and> event_code e \<noteq> None \<and>
    (event_id e = None \<longleftrightarrow> re_kind e = RpcNotification \<and> length (f_buf f) < f_payload_pos f + 5) \<and>
    (event_method e = None \<longleftrightarrow> re_kind e = RpcNotification \<or>
      re_kind e = RpcReply \<and> (case f_header f of Some h \<Rightarrow> length h = 5 | None \<Rightarrow> True))"
  using rpc_accessors [OF assms] rpc_notification_id [OF assms] rpc_method_panics [OF assms] by blast

theorem rpc_accessors_total_witness:
  "\<exists>e. rpc_try_from (frame_new KMessage (Some ''a'') None None (prepare_call_payload ''m'' (le32 1) @ [9]) 0 False) = Some (Inr e) \<and>
     event_method e \<noteq> None \<and> (\<exists>n. rpc_try_from (frame_new KMessage (Some ''a'') None None [RPC_NOTIFICATION, 7] 0 False) = Some (Inr n) \<and>
       event_id n = None)"
proof -
  let ?f = "frame_new KMessage (Some ''a'') None None (prepare_call_payload ''m'' (le32 1) @ [9]) 0 False"
  have "nul_free ''m''" by code_simp
  moreover have "carries (prepare_call_payload ''m'' (le32 1)) [9] ?f"
    by (simp add: carries_def frame_payload_def frame_new_def)
  ultimately obtain e where "rpc_try_from ?f = Some (Inr e)" "re_kind e = RpcRequest"
    using parsesD [OF rpc_parse_request] by blast
  moreover obtain n where "rpc_try_from (frame_new KMessage (Some ''a'') None None [RPC_NOTIFICATION, 7] 0 False) = Some (Inr n)"
      "re_kind n = RpcNotification"
    by (simp add: rpc_try_from_def frame_payload_def frame_new_def)
  ultimately show ?thesis
    using rpc_accessors_total [of ?f e] rpc_accessors_total [of "frame_new KMessage (Some ''a'') None None [RPC_NOTIFICATION, 7] 0 False" n]
    by (auto simp: frame_new_def)
qed

text \<open>
  C26. A call and its answer, whatever the two clients are: internal ones, which take frames from their
  queues, or IPC clients, which send and read them over their sockets, in each of the four combinations.  For
  a method without NUL the handler sees the method and the parameters of the call, its result is sent back to the
  caller, and once that frame is delivered the call has that result, or that error, and is no longer pending; no
  other call is touched.  Delivered means that the frame is the one the other client takes from its queue, or reads
  without error from its socket, which needs names without NUL.
\<close>

theorem rpc_call_round_trip:
  assumes call: "call_begin target m params qos cl = ((i, t, z), cl1)" and m: "nul_free m"
    and req: "delivered_as caller z f"
    and reply: "delivered_as target z' g"
    and handled: "\<And>e. processor_step opts f srv = Some (act_on (HandleRequest e (Some (i, caller))) srv) \<Longrightarrow>
      handle_request h e (Some (i, caller)) = Some z'"
  shows "\<exists>e. processor_step opts f srv = Some (act_on (HandleRequest e (Some (i, caller))) srv) \<and>
    event_method e = Some (as_bytes m) \<and> event_payload e = Some (cow_slice params) \<and>
    z_target z' = caller \<and>
    (\<exists>ev cl2. processor_step opts' g cl1 = Some cl2 \<and> r_results cl2 = (r_results cl)(t \<mapsto> ev) \<and>
      r_calls cl2 = (r_calls cl)(i := None) \<and>
      (case h e of
         Inr v \<Rightarrow> call_result ev = Some (Inr ev) \<and> event_payload ev = Some (case v of Some r \<Rightarrow> r | None \<Rightarrow> [])
       | Inl x \<Rightarrow> call_result ev = Some (Inl (rpc_error_new (rx_code x) (Some (case rx_data x of Some r \<Rightarrow> r | None \<Rightarrow> []))))))"
proof -
  have i: "i \<noteq> 0" and cl1: "r_calls cl1 = (r_calls cl)(i \<mapsto> t)" "r_results cl1 = r_results cl"
    and z: "z_header z = prepare_call_payload m (le32 i)" "z_payload z = cow_slice params"
    using call call_ids.next_nonzero by (auto simp: call_begin_def Let_def)
  from processor_step_request [OF req z(1) m i, of opts srv] obtain e where
    e: "processor_step opts f srv = Some (act_on (HandleRequest e (Some (i, caller))) srv)"
      "event_method e = Some (as_bytes m)" "event_payload e = Some (cow_slice params)" using z(2) by auto
  have z': "handle_request h e (Some (i, caller)) = Some z'" using handled [OF e(1)] .
  then have tgt: "z_target z' = caller" by (auto simp: handle_request_def Let_def split: sum.splits)
  have t1: "r_calls cl1 i = Some t" using cl1 by simp
  show ?thesis
  proof (cases "h e")
    case (Inl x)
    then have "z_header z' = error_header i (rx_code x) \<and>
        Inl (rpc_error_new (rx_code x) (Some (z_payload z'))) = Inl (rpc_error_new (rx_code x) (Some (z_payload z')))"
      and p: "z_payload z' = (case rx_data x of Some r \<Rightarrow> r | None \<Rightarrow> [])"
      using z' by (auto simp: handle_request_def Let_def error_header_def reply_header_def)
    with processor_step_reply [OF reply _ t1, of "Inl (rpc_error_new (rx_code x) (Some (z_payload z')))" opts']
    obtain ev cl2 where "processor_step opts' g cl1 = Some cl2" "r_results cl2 = (r_results cl)(t \<mapsto> ev)"
        "r_calls cl2 = (r_calls cl)(i := None)" "call_result ev = Some (Inl (rpc_error_new (rx_code x) (Some (z_payload z'))))"
      using cl1 by fastforce
    with e tgt Inl p show ?thesis
      by (intro exI [of _ e] conjI exI [of _ ev] exI [of _ cl2]) simp_all
  next
    case (Inr v)
    then have hd: "z_header z' = reply_header i" and p: "z_payload z' = (case v of Some r \<Rightarrow> r | None \<Rightarrow> [])"
      using z' by (auto simp: handle_request_def Let_def error_header_def reply_header_def)
    with processor_step_reply [OF reply _ t1, of "Inr (z_payload z')" opts']
    obtain ev cl2 where "processor_step opts' g cl1 = Some cl2" "r_results cl2 = (r_results cl)(t \<mapsto> ev)"
        "r_calls cl2 = (r_calls cl)(i := None)" "call_result ev = Some (Inr ev)" "event_payload ev = Some (z_payload z')"
      using cl1 by fastforce
    with e tgt Inr p show ?thesis
      by (intro exI [of _ e] conjI exI [of _ ev] exI [of _ cl2]) simp_all
  qed
qed

theorem rpc_call_round_trip_witness:
  "\<exists>e ev cl2. processor_step \<lparr>ro_blocking_notifications = False, ro_blocking_frames = False\<rparr>
       (zc_frame ''a'' (snd (snd (fst (call_begin ''b'' ''m'' (Borrowed [9]) QosNo (rpc_client_new None)))))) (rpc_client_new None) =
     Some (act_on (HandleRequest e (Some (1, ''a''))) (rpc_client_new None)) \<and>
     processor_step \<lparr>ro_blocking_notifications = False, ro_blocking_frames = False\<rparr>
       (arrives (zc_frame ''b'' \<lparr>z_target = ''a'', z_header = [RPC_REPLY] @ le32 1, z_payload = [4], z_qos = Processed\<rparr>))
       (snd (call_begin ''b'' ''m'' (Borrowed [9]) QosNo (rpc_client_new None))) = Some cl2 \<and>
     r_results cl2 = [0 \<mapsto> ev] \<and> event_payload ev = Some [4]"
proof -
  let ?o = "\<lparr>ro_blocking_notifications = False, ro_blocking_frames = False\<rparr>"
  let ?c = "call_begin ''b'' ''m'' (Borrowed [9]) QosNo (rpc_client_new None)"
  let ?z' = "\<lparr>z_target = ''a'', z_header = [RPC_REPLY] @ le32 1, z_payload = [4], z_qos = Processed\<rparr>"
  let ?f = "zc_frame ''a'' (snd (snd (fst ?c)))"
  have c: "?c = ((1, 0, snd (snd (fst ?c))), snd ?c)" by (simp add: call_begin_def rpc_client_new_def next_call_id_def Let_def)
  have n: "nul_free ''m''" by code_simp
  have d: "delivered_as ''a'' (snd (snd (fst ?c))) ?f" "delivered_as ''b'' ?z' (arrives (zc_frame ''b'' ?z'))"
    by (simp_all add: delivered_as_def)
  have rt: "f_realtime ?f = False" by (simp add: zc_frame_def frame_new_def call_begin_def Let_def)
  have hr: "handle_request (\<lambda>_. Inr (Some [4])) e (Some (1, ''a'')) = Some ?z'"
    if p: "processor_step ?o ?f (rpc_client_new None) = Some (act_on (HandleRequest e (Some (1, ''a''))) (rpc_client_new None))" for e
  proof -
    have "f_payload_pos ?f \<le> length (f_buf ?f)" "f_kind ?f = KMessage" by (simp_all add: zc_frame_def frame_new_def)
    with p have "re_frame e = ?f"
      using rpc_try_from_header [of ?f] by (fastforce simp: processor_step_def act_on_def rpc_client_new_def zc_frame_def
          frame_new_def resolve_call_def split: option.splits sum.splits rpc_event_kind.splits if_splits)
    with rt show ?thesis by (simp add: handle_request_def)
  qed
  have r0: "r_results (rpc_client_new None) = Map.empty" by (simp add: rpc_client_new_def)
  obtain e ev cl2 where
    "processor_step ?o ?f (rpc_client_new None) = Some (act_on (HandleRequest e (Some (1, ''a''))) (rpc_client_new None))"
    "processor_step ?o (arrives (zc_frame ''b'' ?z')) (snd ?c) = Some cl2"
    "r_results cl2 = (r_results (rpc_client_new None))(0 \<mapsto> ev)" "event_payload ev = Some [4]"
    using rpc_call_round_trip [OF c n d hr, where opts' = ?o] by force
  then show ?thesis unfolding r0 by blast
qed

text \<open>
  The synchronous processor does with every frame what the asynchronous one does in blocking mode.
\<close>

lemma sync_processor_equivalent:
  "processor_run fs cl = processor \<lparr>ro_blocking_notifications = True, ro_blocking_frames = True\<rparr> fs cl"
  by (induction fs arbitrary: cl) (simp_all add: sync_processor_step_eq split: option.splits)

text \<open>
  A failed send cancels an asynchronous call; a synchronous one returns the error too, but stays in the table
  of pending calls.
\<close>

lemma failed_send_pending_call:
  assumes "call_begin target m params qos cl = ((i, t, z), cl1)"
  shows "r_calls (snd (call_send i (ZcErr e) cl1)) i = None \<and>
    r_calls (snd (sync_call_send i (ZcErr e) cl1)) i = Some t"
  using assms by (auto simp: call_begin_def call_send_def sync_call_send_def cancel_call_def Let_def)

text \<open>
  C27. An asynchronous call that waits for its reply when a ping fails waits for ever: the pinger ends the
  task that processes replies, the call has no timeout of its own for the reply, and its entry stays in the
  table of calls, whatever frames, pings and other calls follow.  The synchronous call gives up after its timeout.
\<close>

theorem lost_reply_waits:
  assumes "rl_pinger l" and "r_calls (rl_client l) i = Some t" and "r_results (rl_client l) t = None"
    and "spared i evs (rpc_life_step (Pinged (Some e)) l)" and "r_timeout (rl_client l) = Some d"
  shows "call_wait t (rl_client (fold rpc_life_step (Pinged (Some e) # evs) l)) = Pending \<and>
    fst (sync_call_wait i ReplyElapsed (rl_client l)) = Bail (rpc_error_from err_timeout)"
proof -
  let ?l = "rpc_life_step (Pinged (Some e)) l"
  have "\<not> rl_processor ?l" "r_calls (rl_client ?l) i = Some t" "r_results (rl_client ?l) t = None"
    using assms(1-3) by (simp_all add: rpc_pinger_turn_def)
  from lost_run [OF this assms(4)] assms(5) show ?thesis by (simp add: sync_call_wait_def)
qed

theorem lost_reply_waits_witness:
  "let l = rpc_life_step (CallBegins ''b'' ''m'' (Borrowed [9]) QosNo) (the (rpc_init (Some 5) True (Some True) rpc_options_default));
       reply = frame_new KMessage (Some ''b'') None (Some (reply_header 1)) [7] 0 False
   in call_wait 0 (rl_client (rpc_life_step (FrameIn reply) l)) \<noteq> Pending \<and>
      call_wait 0 (rl_client (fold rpc_life_step [Pinged (Some err_eof), FrameIn reply] l)) = Pending"
proof -
  let ?l = "rpc_life_step (CallBegins ''b'' ''m'' (Borrowed [9]) QosNo) (the (rpc_init (Some 5) True (Some True) rpc_options_default))"
  let ?f = "frame_new KMessage (Some ''b'') None (Some (reply_header 1)) [7] 0 False"
  have l: "rl_pinger ?l" "r_calls (rl_client ?l) 1 = Some 0" "r_results (rl_client ?l) 0 = None"
    "r_timeout (rl_client ?l) = Some 5"
    by (simp_all add: rpc_init_def rpc_client_new_def call_begin_def next_call_id_def Let_def)
  moreover have "spared 1 [FrameIn ?f] (rpc_life_step (Pinged (Some err_eof)) ?l)" by (simp add: spares_def)
  ultimately have "call_wait 0 (rl_client (fold rpc_life_step [Pinged (Some err_eof), FrameIn ?f] ?l)) = Pending"
    using lost_reply_waits [of ?l 1 0 "[FrameIn ?f]" err_eof 5] by blast
  moreover have "call_wait 0 (rl_client (rpc_life_step (FrameIn ?f) ?l)) \<noteq> Pending"
  proof -
    let ?z = "\<lparr>z_target = ''a'', z_header = reply_header 1, z_payload = [7], z_qos = QosNo\<rparr>"
    have d: "delivered_as ''b'' ?z ?f" by (simp add: delivered_as_def zc_frame_def is_realtime_def)
    from processor_step_reply [OF d, of 1 "Inr [7]" "rl_client ?l" 0 "rl_opts ?l"] l(2)
    obtain ev cl where "processor_step (rl_opts ?l) ?f (rl_client ?l) = Some cl"
      "r_results cl = (r_results (rl_client ?l))(0 \<mapsto> ev)" "call_result ev = Some (Inr ev)"
      by auto
    moreover have "rl_processor ?l" by (simp add: rpc_init_def)
    ultimately show ?thesis by (simp add: rpc_frame_turn_def call_wait_def)
  qed
  ultimately show ?thesis by (simp add: Let_def)
qed

text \<open>
  C28. With the default options a handler may use the client it serves: a call that waits gets its reply as soon
  as the processor has read the frames up to it, whatever the handlers, other calls and new frames do in
  between.  It then returns the payload of the reply, or the error, and a handler that waits for it can go on.
  The reply is the first one to the call, the frames read have a sender and a payload, the processor is not
  aborted, and no call id is issued again while its call waits.
\<close>

theorem spawned_handlers_get_replies:
  assumes opts: "\<not> ro_blocking_notifications (rt_opts s)" "\<not> ro_blocking_frames (rt_opts s)" "ro_task_pool (rt_opts s) = None"
    and run: "rt_processor s = Receiving" "rt_inbox s = pre @ f # rest" "\<forall>g \<in> set (rt_inbox s). readable g"
    and call: "waits_for i t (rt_client s)" "\<forall>g \<in> set pre. \<not> answers i g"
    and reply: "delivered_as sender z f"
      "z_header z = reply_header i \<and> r = Inr (z_payload z) \<or>
       (\<exists>c. z_header z = error_header i c \<and> r = Inl (rpc_error_new c (Some (z_payload z))))"
    and evs: "length pre < count_list evs ProcessorTurn" "ProcessorAborted \<notin> set evs"
      "\<forall>g. FrameQueued g \<in> set evs \<longrightarrow> readable g" "ids_free evs s"
  shows "(case r of
      Inr p \<Rightarrow> \<exists>e. call_wait t (rt_client (fold task_step evs s)) = Done e \<and> event_payload e = Some p
    | Inl x \<Rightarrow> call_wait t (rt_client (fold task_step evs s)) = Bail x) \<and>
    (\<forall>h. task_is h (AwaitingReply t) (fold task_step evs s) \<longrightarrow> task_is h Working (task_resumes h (fold task_step evs s)))"
proof -
  have "reply_within i t f (count_list evs ProcessorTurn) s"
    using opts run call delivered_answers(1) [OF reply] evs(1) by (auto simp: reply_within_def unblocked_def)
  from delivered_answers(2) [OF reply reply_within_run [OF this evs(2,3,4)]]
  have c: "case r of
      Inr p \<Rightarrow> \<exists>e. call_wait t (rt_client (fold task_step evs s)) = Done e \<and> event_payload e = Some p
    | Inl x \<Rightarrow> call_wait t (rt_client (fold task_step evs s)) = Bail x" .
  then have "call_wait t (rt_client (fold task_step evs s)) \<noteq> Pending" by (auto split: sum.splits)
  with c resume_answered show ?thesis by blast
qed

theorem spawned_handlers_get_replies_witness:
  "\<exists>e. call_wait 0 (rt_client (fold task_step [ProcessorTurn, ProcessorTurn] (calling_run plain_options))) = Done e \<and>
     event_payload e = Some [7]"
proof -
  let ?z = "\<lparr>z_target = ''a'', z_header = reply_header 1, z_payload = [7], z_qos = QosNo\<rparr>"
  have d: "delivered_as ''b'' ?z reply_to_1" by (simp add: delivered_as_def zc_frame_def reply_to_1_def is_realtime_def)
  have o: "\<not> ro_blocking_notifications (rt_opts (calling_run plain_options))"
    "\<not> ro_blocking_frames (rt_opts (calling_run plain_options))" "ro_task_pool (rt_opts (calling_run plain_options)) = None"
    unfolding calling_run_def run_opts
    by (simp_all add: rpc_tasks_new_def plain_options_def rpc_options_default_def rpc_options.extend_def)
  have w: "waits_for 1 0 (rt_client (calling_run plain_options))" by (simp add: calling_run_plain(5))
  have "\<not> answers 1 note_frame" by (simp add: answers_def note_frame_def frame_new_def rpc_try_from_def)
  with spawned_handlers_get_replies [OF o calling_run_plain(1), where pre = "[note_frame]" and f = reply_to_1 and rest = "[]",
      OF _ _ w _ d, of "Inr [7]" "[ProcessorTurn, ProcessorTurn]"] calling_run_plain(2)
  show ?thesis by (simp add: readable_def note_frame_def reply_to_1_def frame_new_def)
qed

text \<open>
  C29. Where the processor waits for its handlers, one that calls through the same client waits for ever.  Once
  the processor runs a handler in place that waits for a reply, or has read a frame whose handler needs a slot of
  the pool and all slots are taken by such handlers, no frame is read any more, also not the reply: the
  processor stays where it is, no frame leaves the channel, and every handler that holds a slot, or runs in place,
  goes on waiting, whatever frames arrive and whatever other tasks and handlers do, as long as nobody aborts the processor, the pool does not refuse the handler, and no
  call id is issued again while its call waits.  The documentation warns of the blocking modes only; the pool has the
  same effect without them.
\<close>

theorem waiting_handlers_block_replies:
  assumes "self_blocked s" and "SpawnFailed \<notin> set evs" and "ProcessorAborted \<notin> set evs" and "ids_free evs s"
  shows "rt_processor (fold task_step evs s) = rt_processor s \<and>
    rt_inbox (fold task_step evs s) = rt_inbox s @ concat (map queued_by evs) \<and>
    (case rt_processor s of
       InPlace i \<Rightarrow> unanswered (rt_client (fold task_step evs s)) (ht_state (rt_tasks (fold task_step evs s) ! i))
     | _ \<Rightarrow> \<forall>h \<in> set (rt_tasks (fold task_step evs s)). ht_spawned h \<longrightarrow>
         ht_state h = Through \<or> unanswered (rt_client (fold task_step evs s)) (ht_state h))"
  using self_blocked_run [OF assms]
  by (auto simp: self_blocked_def pool_blocked_def split: processor_state.splits)

theorem waiting_handlers_block_replies_witness:
  "rt_inbox (fold task_step [ProcessorTurn, SlotFreed, TaskResumes 0, FrameQueued note_frame, ProcessorTurn]
     (task_step ProcessorTurn (calling_run pool_of_one))) = [reply_to_1, note_frame]"
  using waiting_handlers_block_replies [OF calling_run_pool(3),
      of "[ProcessorTurn, SlotFreed, TaskResumes 0, FrameQueued note_frame, ProcessorTurn]"]
  by (simp only: calling_run_pool(2)) simp

text \<open>
  C30. Two blocking clients that call each other, each before it has the request of the other, keep each other
  waiting.  Both requests arrive and start the threads of their handlers; but a call holds the lock of its bus
  client until it returns, and the thread needs that lock to send its reply.  Whatever happens then (further calls
  and notifications of either client, frames of other clients, other threads that finish), neither call
  returns and neither client sends anything, until a timeout: the first call to end fails with it.  Without a
  timeout both wait for ever.
\<close>

theorem crossed_calls_wait:
  assumes "nul_free ma" and "nul_free mb"
  shows "\<exists>d ea eb. duo_run ha hb (duo_start (sync_peer_new na ta) (sync_peer_new nb tb)) d \<and>
    r_actions (sp_client (du_b d)) = [HandleRequest ea (Some (1, na))] \<and>
    event_method ea = Some (as_bytes ma) \<and> event_payload ea = Some (cow_slice pa) \<and>
    r_actions (sp_client (du_a d)) = [HandleRequest eb (Some (1, nb))] \<and>
    event_method eb = Some (as_bytes mb) \<and> event_payload eb = Some (cow_slice pb) \<and>
    (\<forall>d'. duo_run ha hb d d' \<longrightarrow>
      sp_returned (du_a d') = [] \<and> sp_returned (du_b d') = [] \<and>
      sp_sent (du_a d') = sp_sent (du_a d) \<and> sp_sent (du_b d') = sp_sent (du_b d) \<and>
      (\<forall>p. peer_timeout (du_a d') p \<or> peer_timeout (du_b d') p \<longrightarrow>
        sp_returned p = [Inl (rpc_error_from err_timeout)]))"
proof -
  obtain d ea eb where d: "duo_run ha hb (duo_start (sync_peer_new na ta) (sync_peer_new nb tb)) d" "crossed d"
      "sp_returned (du_a d) = []" "sp_returned (du_b d) = []"
    and e: "r_actions (sp_client (du_b d)) = [HandleRequest ea (Some (1, na))]"
      "event_method ea = Some (as_bytes ma)" "event_payload ea = Some (cow_slice pa)"
      "r_actions (sp_client (du_a d)) = [HandleRequest eb (Some (1, nb))]"
      "event_method eb = Some (as_bytes mb)" "event_payload eb = Some (cow_slice pb)"
    using calls_cross [OF assms, of ha hb na ta nb tb pa pb] by blast
  have "sp_returned (du_a d') = [] \<and> sp_returned (du_b d') = [] \<and>
      sp_sent (du_a d') = sp_sent (du_a d) \<and> sp_sent (du_b d') = sp_sent (du_b d) \<and>
      (\<forall>p. peer_timeout (du_a d') p \<or> peer_timeout (du_b d') p \<longrightarrow>
        sp_returned p = [Inl (rpc_error_from err_timeout)])" if r: "duo_run ha hb d d'" for d'
  proof -
    note c = crossed_run [OF r d(2)]
    then have s: "stuck (du_a d') (du_to_a d')" "stuck (du_b d') (du_to_b d')" by (auto simp: crossed_def)
    from stuck_timeout [OF s(1)] stuck_timeout [OF s(2)] c d(3,4) show ?thesis by (auto simp: unchanged_def)
  qed
  with d(1) e show ?thesis by (intro exI [of _ d] exI [of _ ea] exI [of _ eb]) blast
qed

theorem crossed_calls_wait_witness:
  "\<exists>d. duo_run (\<lambda>_. Inr None) (\<lambda>_. Inr None) (duo_start (sync_peer_new ''a'' None) (sync_peer_new ''b'' None)) d \<and>
     length (r_actions (sp_client (du_a d))) = 1 \<and> length (r_actions (sp_client (du_b d))) = 1 \<and>
     (\<forall>d'. duo_run (\<lambda>_. Inr None) (\<lambda>_. Inr None) d d' \<longrightarrow> sp_returned (du_a d') = [] \<and> sp_returned (du_b d') = [])"
proof -
  have "nul_free ''m''" "nul_free ''k''" by code_simp+
  from crossed_calls_wait [OF this, of "\<lambda>_. Inr None" "\<lambda>_. Inr None" "''a''" None "''b''" None "Borrowed [1]" "Borrowed [2]"]
  show ?thesis by fastforce
qed

text \<open>
  The RPC code of a bus error is the code of its kind below -32000: no wrap-around, distinct kinds
  have distinct codes, and none is a code of the RPC layer itself.
\<close>

lemma rpc_error_codes:
  "sint (rx_code (rpc_error_from e)) = - 32000 - int (unat (kind_code (e_kind e))) \<and>
   (rx_code (rpc_error_from e) = rx_code (rpc_error_from e') \<longleftrightarrow> e_kind e = e_kind e') \<and>
   rx_code (rpc_error_from e) \<notin> {RPC_ERROR_CODE_NOT_FOUND, RPC_ERROR_CODE_PARSE, RPC_ERROR_CODE_INVALID_REQUEST,
     RPC_ERROR_CODE_METHOD_NOT_FOUND, RPC_ERROR_CODE_INVALID_METHOD_PARAMS, RPC_ERROR_CODE_INTERNAL}"
proof -
  have c: "rx_code (rpc_error_from e) = - 32000 - ucast (kind_code (e_kind e))" for e by (simp add: rpc_error_from_def)
  show ?thesis unfolding c
    by (cases "e_kind e"; cases "e_kind e'") (simp_all add: rpc_code_defs)
qed

section \<open>The synchronous client\<close>

text \<open>
  C31. The synchronous client refines the asynchronous one: sending a frame has the same result, writes the
  same bytes, registers the same acknowledgement, and disconnects on the same failures.
\<close>

theorem sync_send_refines:
  "(case sync_send_zc_frame w target header pl op qos cl of (r, cl') \<Rightarrow> (r, as_ipc cfg cl')) =
     send_zc_frame (map_prod as_outcome as_outcome w) target header pl op qos (as_ipc cfg cl) \<and>
   (case sync_send_frame w target pl op qos cl of (r, cl') \<Rightarrow> (r, as_ipc cfg cl')) =
     send_frame (map_prod as_outcome as_outcome w) target pl op qos (as_ipc cfg cl) \<and>
   (case sync_send_frame_receiver w target receiver pl op qos cl of (r, cl') \<Rightarrow> (r, as_ipc cfg cl')) =
     send_frame_receiver (map_prod as_outcome as_outcome w) target receiver pl op qos (as_ipc cfg cl) \<and>
   (case sync_send_frame_plain w (sync_join_topics [] topics) op qos cl of (r, cl') \<Rightarrow> (r, as_ipc cfg cl')) =
     send_frame_plain (map_prod as_outcome as_outcome w) (bulk_payload [] topics) op qos (as_ipc cfg cl)"
  by (simp add: sync_send_zc_frame_def send_zc_frame_def sync_send_frame_def send_frame_def
      sync_send_frame_receiver_def send_frame_receiver_def sync_send_frame_plain_def send_frame_plain_def
      sync_prepare_as_ipc sync_confirm_as_ipc sync_join_topics_eq Let_def prod.case_eq_if)

section \<open>Tools\<close>

text \<open>
  C32. The topic broker gives a publication to the handler of its topic if there is one, otherwise to the
  handler of the shortest registered prefix of the topic, with the rest of the topic as subtopic, and
  returns it if there is none.
\<close>

theorem topic_broker_dispatch:
  assumes ok: "topic_broker_ok tb" and topic: "f_topic f = Some topic"
  shows "case map_of (tb_topics tb) topic of
      Some (tx, h) \<Rightarrow>
        process_frame out tb f log = send_pub out tx \<lparr>p_subtopic_pos = 0, p_frame = f, p_handler_id = h\<rparr> log
    | None \<Rightarrow>
        (\<forall>pfx tx h. (pfx, tx, h) \<in> set (tb_prefixes tb) \<and> prefix pfx topic \<and>
           (\<forall>q \<in> fst ` set (tb_prefixes tb). prefix q topic \<longrightarrow> length pfx \<le> length q) \<longrightarrow>
           process_frame out tb f log = send_pub out tx \<lparr>p_subtopic_pos = length pfx, p_frame = f, p_handler_id = h\<rparr> log \<and>
           pub_subtopic \<lparr>p_subtopic_pos = length pfx, p_frame = f, p_handler_id = h\<rparr> = Some (drop (length pfx) topic)) \<and>
        ((\<forall>q \<in> fst ` set (tb_prefixes tb). \<not> prefix q topic) \<longrightarrow> process_frame out tb f log = (Done (Some f), log))"
proof (cases "map_of (tb_topics tb) topic")
  case (Some r)
  then show ?thesis using topic by (cases r) (simp add: process_frame_def)
next
  case None
  have p: "process_frame out tb f log = process_prefixes out topic f (tb_prefixes tb) log"
    using None topic by (simp add: process_frame_def)
  have b: "bt_ok (tb_prefixes tb)" using ok by (simp add: topic_broker_ok_def)
  have "process_frame out tb f log = send_pub out tx \<lparr>p_subtopic_pos = length pfx, p_frame = f, p_handler_id = h\<rparr> log \<and>
      pub_subtopic \<lparr>p_subtopic_pos = length pfx, p_frame = f, p_handler_id = h\<rparr> = Some (drop (length pfx) topic)"
    if "(pfx, tx, h) \<in> set (tb_prefixes tb)" "prefix pfx topic"
      "\<forall>q \<in> fst ` set (tb_prefixes tb). prefix q topic \<longrightarrow> length pfx \<le> length q" for pfx tx h
    unfolding p using process_prefixes_first [OF b that(1,2)] that(2,3) topic
    by (simp add: pub_subtopic_def prefix_length_le)
  moreover have "process_frame out tb f log = (Done (Some f), log)"
    if "\<forall>q \<in> fst ` set (tb_prefixes tb). \<not> prefix q topic"
    unfolding p using that by (intro process_prefixes_none) blast
  ultimately show ?thesis unfolding None option.case by blast
qed

theorem topic_broker_dispatch_witness:
  "process_frame (\<lambda>_. ChanSent)
     (snd (register_prefix_tx ''a/b'' 1 (snd (register_prefix_tx ''a/'' 2 topic_broker_new))))
     (frame_new KPublish (Some ''x'') (Some ''a/b/c'') None [] 0 False) [] =
   (Done None, [(2, \<lparr>p_subtopic_pos = 2, p_frame = frame_new KPublish (Some ''x'') (Some ''a/b/c'') None [] 0 False, p_handler_id = 0\<rparr>)])"
proof -
  let ?tb = "snd (register_prefix_tx ''a/b'' 1 (snd (register_prefix_tx ''a/'' 2 topic_broker_new)))"
  let ?f = "frame_new KPublish (Some ''x'') (Some ''a/b/c'') None [] 0 False"
  have "topic_broker_ok topic_broker_new" by (simp add: topic_broker_ok_def topic_broker_new_def bt_ok_def)
  then have ok: "topic_broker_ok ?tb" by (intro registered_ok)
  have p: "tb_prefixes ?tb = [(''a/'', 2, 0), (''a/b'', 1, 0)]" "map_of (tb_topics ?tb) ''a/b/c'' = None" by code_simp+
  have t: "f_topic ?f = Some ''a/b/c''" by (simp add: frame_new_def)
  have "process_frame (\<lambda>_. ChanSent) ?tb ?f [] =
      send_pub (\<lambda>_. ChanSent) 2 \<lparr>p_subtopic_pos = length ''a/'', p_frame = ?f, p_handler_id = 0\<rparr> []"
    using topic_broker_dispatch [OF ok t, of "\<lambda>_. ChanSent" "[]"] unfolding p option.case
    by (elim conjE allE [of _ "''a/''"] allE [of _ 2] allE [of _ 0]) auto
  then show ?thesis by (simp add: send_pub_def numeral_2_eq_2)
qed

text \<open>
  C33. A stream of rows goes through a cursor completely: if the encodings can be undone, and the server's
  cleaner never runs later than the cursor's time to live after a call, both loops of the client (one row per
  call, or up to \<open>n\<close>) end, after at most one call more than needed, with all rows in their order, each once, whatever
  other cursors there are.
\<close>

theorem cursor_transfer_complete:
  assumes "cursor_transfer C customers u n" and "timely now ts" and "0 < n" and "length customers < length ts"
  shows "client_one_by_one C (map row_of customers) u now ts m = Some (Inr customers) \<and>
    client_bulk C n (map row_of customers) u now (take (length customers div n + 1) ts) m = Some (Inr customers)"
proof -
  have "timely now (take k ts)" for k
    using assms(2) by (induction ts arbitrary: now k) (auto simp: take_Cons split: nat.splits)
  moreover have "length customers div n < length ts" using assms(4) div_le_dividend le_less_trans by blast
  ultimately show ?thesis
    using cursor_transfer.client_gets_all [OF assms(1,2,4)]
      cursor_transfer.client_gets_all_bulk [OF assms(1), of now "take (length customers div n + 1) ts"] assms(3,4)
    by simp
qed

theorem cursor_transfer_complete_witness:
  "client_one_by_one demo_codec (map row_of demo_customers) demo_uuid 5 (replicate 6 (9, Some 7)) Map.empty = Some (Inr demo_customers) \<and>
   client_bulk demo_codec 2 (map row_of demo_customers) demo_uuid 5 (replicate 3 (9, Some 7)) Map.empty = Some (Inr demo_customers)"
proof -
  have "timely 9 (replicate k (9, Some 7))" for k by (induction k) (simp_all add: CURSOR_TTL_def)
  moreover have "replicate 6 (9 :: nat, Some (7 :: nat)) = (9, Some 7) # replicate 5 (9, Some 7)" by (simp add: numeral_eq_Suc)
  ultimately have "timely 5 (replicate 6 (9, Some 7))" by (simp add: CURSOR_TTL_def)
  moreover have l: "length demo_customers = 5" by (simp add: demo_customers_def)
  ultimately show ?thesis
    using cursor_transfer_complete [OF demo.cursor_transfer_axioms, of 5 "replicate 6 (9, Some 7)" Map.empty] by simp
qed
section \<open>The core RPC and the FIFO\<close>

text \<open>
  C34. The answer to \<open>client.list\<close> encodes exactly the registered primary clients whose names the filter
  matches, once each, in the order of their names, whatever order the client table is visited in; the
  instances of a client are the registered clients that have it as their primary, and without a filter the
  instances add up to all registered clients.
\<close>

theorem client_list_exact:
  assumes inv: "db_inv X smv bmv N b" and keys: "distinct keys" "set keys = dom (b_clients b)"
    and re: "client_filter CC payload = Inr re"
  shows "\<exists>L. core_method CC X uptime keys ''client.list'' payload b =
      (case enc_clients CC L of Inl e \<Rightarrow> Inl (rpc_error_from_encode e) | Inr v \<Rightarrow> Inr (Some v)) \<and>
    sorted (map ci_name L) \<and> distinct (map ci_name L) \<and>
    set L = (\<lambda>c. client_info_of X (obj b c)) ` {c. listed re b c} \<and>
    (\<forall>i \<in> set L. ci_instances i = card {n \<in> dom (b_clients b). primary_of n = ci_name i}) \<and>
    (re = None \<longrightarrow> sum_list (map ci_instances L) = card (dom (b_clients b)))"
proof -
  let ?L = "client_infos X re keys b"
  have cl: "clients_ok b" using inv by (simp add: db_inv_def db_inv_ex_def)
  have fin: "finite (dom (b_clients b))" using keys(2) by (metis List.finite_set)
  have set: "set ?L = (\<lambda>c. client_info_of X (obj b c)) ` {c. listed re b c}"
    by (rule client_infos_set [OF cl keys(2)])
  moreover have "\<forall>i \<in> set ?L. ci_instances i = card {n \<in> dom (b_clients b). primary_of n = ci_name i}"
    using instances_registered [OF inv _ _ fin] by (auto simp: set listed_def client_info_of_def)
  moreover have "core_method CC X uptime keys ''client.list'' payload b =
      (case enc_clients CC ?L of Inl e \<Rightarrow> Inl (rpc_error_from_encode e) | Inr v \<Rightarrow> Inr (Some v))"
    using re by (simp add: core_method_def client_list_def)
  ultimately show ?thesis
    using sorted_client_infos [of X re keys b] distinct_client_infos [OF cl keys] client_infos_total [OF inv keys]
    by blast
qed

theorem client_list_exact_witness:
  "\<exists>L. core_method run_codec ref_ctx 5 [''c'', ''a'', ''b''] ''client.list'' [] run_full = Inr (Some L) \<and>
     L = as_bytes ''a'' @ [1] @ as_bytes ''b'' @ [1] @ as_bytes ''c'' @ [1] \<and>
     card (dom (b_clients run_full)) = 3"
proof -
  have d: "dom (b_clients run_full) = {''a'', ''b'', ''c''}"
  proof -
    have "clients_ok run_full" using run_inv(4) by (simp add: db_inv_def db_inv_ex_def)
    moreover have "c_name (obj run_full c) \<in> {''a'', ''b'', ''c''}" if "c < 3" for c
    proof -
      have "map c_name (b_objs run_full) = [''a'', ''b'', ''c'']" by code_simp
      then have "c_name (obj run_full c) = [''a'', ''b'', ''c''] ! c" using that run_full_facts(1) by (metis nth_map)
      with that show ?thesis by (auto simp: less_Suc_eq numeral_3_eq_3)
    qed
    ultimately have "dom (b_clients run_full) \<subseteq> {''a'', ''b'', ''c''}"
      using run_full_facts(1) by (simp add: clients_ok_def live_def dom_def subset_eq) metis
    moreover have "b_clients run_full ''a'' \<noteq> None" "b_clients run_full ''b'' \<noteq> None" "b_clients run_full ''c'' \<noteq> None"
      by code_simp+
    ultimately show ?thesis by auto
  qed
  have "client_filter run_codec [] = Inr None" by (simp add: client_filter_def)
  from client_list_exact [OF run_inv(4) _ _ this, of "[''c'', ''a'', ''b'']" 5] d
  have "\<exists>L. core_method run_codec ref_ctx 5 [''c'', ''a'', ''b''] ''client.list'' [] run_full =
      (case enc_clients run_codec L of Inl e \<Rightarrow> Inl (rpc_error_from_encode e) | Inr v \<Rightarrow> Inr (Some v))"
    by auto
  then have "\<exists>L. core_method run_codec ref_ctx 5 [''c'', ''a'', ''b''] ''client.list'' [] run_full = Inr (Some L)"
    by (auto simp: run_codec_def)
  moreover have "core_method run_codec ref_ctx 5 [''c'', ''a'', ''b''] ''client.list'' [] run_full =
      Inr (Some (as_bytes ''a'' @ [1] @ as_bytes ''b'' @ [1] @ as_bytes ''c'' @ [1]))" by code_simp
  ultimately show ?thesis by (simp add: d)
qed





section \<open>Connecting, serving, stopping\<close>



text \<open>
  C38. Hosts are checked on every network listener and only there: a client that connects over TCP or a web
  socket from an address its entry in the access map does not allow is answered with an access error and not
  registered, while over a Unix socket the same entry admits it.
\<close>

theorem hosts_checked_by_transport:
  assumes map: "sc_aaa_map (l_config l) = Some m" "m (primary_of name) = Some a"
    and hello: "str_ok name" "name \<noteq> []" "hd name \<noteq> CHR ''.''" "length name \<le> 65535" "\<forall>k. wres k = Written"
    and conn: "accept_turn show_addr l (Accepted addr prepared tls ws) = Some PP"
  shows "case addr of
      InetAddr ip port \<Rightarrow> \<not> connect_allowed X a ip \<longrightarrow>
        (\<exists>e. handle_peer X wres show_ip PP session
           (feed (GREETINGS @ le16 PROTOCOL_VERSION @ le16 (word_of_nat (length name)) @ as_bytes name) s) (b, []) =
           (Bail e, (b, [GREETINGS @ le16 PROTOCOL_VERSION, [RESPONSE_OK], [ERR_ACCESS]])) \<and> e_kind e = Access)
    | UnixAddr \<Rightarrow> peer_aaa X wres (pp_aaa_map PP) (pp_ip PP) show_ip name out = (Done (Some a), out)"
proof (cases addr)
  case UnixAddr
  then show ?thesis using accept_turn_params [OF conn] map peer_aaa_local [of m name a] by simp
next
  case (InetAddr ip port)
  then show ?thesis
    using handle_peer_denied [OF hello(1-4), of wres PP m a ip X] hello(5) accept_turn_params [OF conn] map
    by simp
qed

theorem hosts_checked_by_transport_witness:
  "\<exists>PP e. accept_turn (\<lambda>_. ''10.0.0.1:5'') \<lparr>l_path = '':7777'',
       l_config = sc_set_aaa_map [''a'' \<mapsto> set_hosts_allow [] (client_aaa_default ref_ctx)] server_config_default,
       l_queue_size = 8, l_direct_alloc_limit = None, l_async_allocator = None, l_kind = Tcp, l_tls = False\<rparr>
       (Accepted (InetAddr (V4 0x0A000001) 5) None HandshakeOk (\<lambda>_. HandshakeOk)) = Some PP \<and>
     handle_peer ref_ctx (\<lambda>_. Written) (\<lambda>_. ''10.0.0.1'') PP (\<lambda>_ _ _ _ b. (Disconnected, b))
       (feed (GREETINGS @ le16 PROTOCOL_VERSION @ le16 (word_of_nat (length ''a'')) @ as_bytes ''a'')
         \<lparr>s_bytes = [], s_end = Closed\<rparr>) (run_ab, []) =
       (Bail e, (run_ab, [GREETINGS @ le16 PROTOCOL_VERSION, [RESPONSE_OK], [ERR_ACCESS]]))"
proof -
  let ?l = "\<lparr>l_path = '':7777'',
       l_config = sc_set_aaa_map [''a'' \<mapsto> set_hosts_allow [] (client_aaa_default ref_ctx)] server_config_default,
       l_queue_size = 8, l_direct_alloc_limit = None, l_async_allocator = None, l_kind = Tcp, l_tls = False\<rparr>"
  let ?ev = "Accepted (InetAddr (V4 0x0A000001) 5) None HandshakeOk (\<lambda>_. HandshakeOk)"
  obtain PP where PP: "accept_turn (\<lambda>_. ''10.0.0.1:5'') ?l ?ev = Some PP" by (simp add: accept_stream_def)
  have p: "primary_of ''a'' = ''a''" "str_ok ''a''" by code_simp+
  have "\<not> connect_allowed ref_ctx (set_hosts_allow [] (client_aaa_default ref_ctx)) (V4 0x0A000001)"
    by (simp add: connect_allowed_def set_hosts_allow_def)
  from hosts_checked_by_transport [where l = ?l and m = "[''a'' \<mapsto> set_hosts_allow [] (client_aaa_default ref_ctx)]"
      and name = "''a''" and a = "set_hosts_allow [] (client_aaa_default ref_ctx)" and wres = "\<lambda>_. Written"
      and show_addr = "\<lambda>_. ''10.0.0.1:5''" and X = ref_ctx and show_ip = "\<lambda>_. ''10.0.0.1''"
      and session = "\<lambda>_ _ _ _ b. (Disconnected, b)" and s = "\<lparr>s_bytes = [], s_end = Closed\<rparr>" and b = run_ab, OF _ _ _ _ _ _ _ PP]
    p this PP
  show ?thesis by (auto simp: sc_set_aaa_map_def)
qed

text \<open>
  C39. The daemon starts one service for every path, in order (a FIFO reader, a Unix or a TCP listener with
  the configured queue size), and serves.  From there, with any signals at any time and whatever becomes of its
  broker, it exits without leaving a file that did not exist before it was started.  But a signal that arrives
  before the paths are bound removes the files too early: the daemon binds all its paths after that, exits, and
  leaves every socket and FIFO behind.
\<close>

theorem daemon_leaves_no_files:
  assumes "daemon_start X E opts fs = Some d"
  shows "(\<exists>k. d_broker d = Some k \<and> ba_services k = map (service_for opts k) (o_path opts) \<and>
      ba_queue_size k = o_queue_size opts) \<and>
    daemon_runs X E opts (daemon_begin opts fs) (serving d) \<and>
    (\<forall>s. daemon_runs X E opts (serving d) s \<longrightarrow> dr_main s = Exited \<longrightarrow> d_fs (dr_daemon s) \<subseteq> fs) \<and>
    (\<exists>s. daemon_runs X E opts (daemon_begin opts fs) s \<and> dr_main s = Exited \<and>
      d_fs (dr_daemon s) = fs - set_option (o_pid_file opts) \<union> set (d_sock_files d))"
proof (intro conjI allI impI)
  show "\<exists>k. d_broker d = Some k \<and> ba_services k = map (service_for opts k) (o_path opts) \<and> ba_queue_size k = o_queue_size opts"
    by (rule daemon_start_services [OF assms])
  let ?s = "daemon_begin opts fs"
  have p: "dr_main ?s = Started" "\<not> broker_locked ?s" "d_sock_files (dr_daemon ?s) = []"
    by (simp_all add: daemon_begin_def broker_locked_def)
  note r = daemon_start_runs(2) [OF assms p]
  then have f: "d_fs d \<subseteq> fs \<union> set_option (d_pid_file d) \<union> set (d_sock_files d)" "d_active d"
    by (metis daemon.select_convs order_refl)+
  have "serving d = ?s\<lparr>dr_main := Waiting, dr_daemon := (dr_daemon ?s)\<lparr>
      d_fs := d_fs (dr_daemon ?s) \<union> set (d_sock_files d), d_sock_files := d_sock_files d, d_broker := d_broker d\<rparr>\<rparr>"
    by (subst r) (simp add: serving_def daemon_begin_def)
  then show "daemon_runs X E opts ?s (serving d)" using daemon_start_runs(1) [OF assms p] by metis
  show "d_fs (dr_daemon s) \<subseteq> fs" if "daemon_runs X E opts (serving d) s" "dr_main s = Exited" for s
    using exits_clean [OF that, of fs] f by (simp add: serving_def)
  show "\<exists>s. daemon_runs X E opts (daemon_begin opts fs) s \<and> dr_main s = Exited \<and>
      d_fs (dr_daemon s) = fs - set_option (o_pid_file opts) \<union> set (d_sock_files d)"
    by (rule early_signal [OF assms])
qed

theorem daemon_leaves_no_files_witness:
  "\<exists>d. daemon_start ref_ctx \<lparr>de_pid = None, de_bind = \<lambda>_. None, de_create = \<lambda>_. None, de_perm = \<lambda>_. None, de_open = \<lambda>_. None\<rparr>
       \<lparr>o_path = [''/run/bus.ipc'', ''fifo:/run/f'', ''0.0.0.0:7777''], o_pid_file = Some ''/run/pid'', o_verbose = False,
        o_daemonize = False, o_log_syslog = False, o_force_register = False, o_workers = 4, o_timeout = 5000000000,
        o_buf_size = 16384, o_buf_ttl = 10, o_queue_size = 8192\<rparr> {''/etc/x''} = Some d \<and>
     d_fs d = {''/etc/x'', ''/run/pid'', ''/run/bus.ipc'', ''/run/f''} \<and>
     (\<exists>s. daemon_runs ref_ctx \<lparr>de_pid = None, de_bind = \<lambda>_. None, de_create = \<lambda>_. None, de_perm = \<lambda>_. None, de_open = \<lambda>_. None\<rparr>
       \<lparr>o_path = [''/run/bus.ipc'', ''fifo:/run/f'', ''0.0.0.0:7777''], o_pid_file = Some ''/run/pid'', o_verbose = False,
        o_daemonize = False, o_log_syslog = False, o_force_register = False, o_workers = 4, o_timeout = 5000000000,
        o_buf_size = 16384, o_buf_ttl = 10, o_queue_size = 8192\<rparr>
       (daemon_begin \<lparr>o_path = [''/run/bus.ipc'', ''fifo:/run/f'', ''0.0.0.0:7777''], o_pid_file = Some ''/run/pid'', o_verbose = False,
        o_daemonize = False, o_log_syslog = False, o_force_register = False, o_workers = 4, o_timeout = 5000000000,
        o_buf_size = 16384, o_buf_ttl = 10, o_queue_size = 8192\<rparr> {''/etc/x''}) s \<and>
       dr_main s = Exited \<and> d_fs (dr_daemon s) = {''/etc/x'', ''/run/bus.ipc'', ''/run/f''})"
proof -
  let ?E = "\<lparr>de_pid = None, de_bind = \<lambda>_. None, de_create = \<lambda>_. None, de_perm = \<lambda>_. None, de_open = \<lambda>_. None\<rparr>"
  let ?o = "\<lparr>o_path = [''/run/bus.ipc'', ''fifo:/run/f'', ''0.0.0.0:7777''], o_pid_file = Some ''/run/pid'', o_verbose = False,
        o_daemonize = False, o_log_syslog = False, o_force_register = False, o_workers = 4, o_timeout = 5000000000,
        o_buf_size = 16384, o_buf_ttl = 10, o_queue_size = 8192\<rparr>"
  let ?a = "broker_app_create ref_ctx (options_force_register False options_default)"
  obtain db where db: "init_default_core_rpc ref_ctx (ba_queue_size ?a) (ba_db ?a) = (Done (), db)"
    "b_rpc_client db = Some 0" "\<not> b_rpc_locked db"
    using init_default_core_rpc_fresh [of ref_ctx "ba_queue_size ?a" False]
    by (auto simp: broker_app_create_def options_force_register_def)
  have p: "unix_path ''/run/bus.ipc''" "\<not> unix_path ''0.0.0.0:7777''" "strip_prefix ''fifo:'' ''/run/bus.ipc'' = None"
    "strip_prefix ''fifo:'' ''fifo:/run/f'' = Some ''/run/f''" "strip_prefix ''fifo:'' ''0.0.0.0:7777'' = None" by code_simp+
  have "\<exists>d. daemon_start ref_ctx ?E ?o {''/etc/x''} = Some d \<and> d_fs d = {''/etc/x'', ''/run/pid'', ''/run/bus.ipc'', ''/run/f''} \<and>
      d_sock_files d = [''/run/bus.ipc'', ''/run/f'']"
    using db p
    by (auto simp: daemon_start_def Let_def bind_path_def spawn_fifo_def spawn_unix_server_def spawn_tcp_server_def
        spawn_server_def push_service_def set_queue_size_def)
  then obtain d where d: "daemon_start ref_ctx ?E ?o {''/etc/x''} = Some d"
    "d_fs d = {''/etc/x'', ''/run/pid'', ''/run/bus.ipc'', ''/run/f''}" "d_sock_files d = [''/run/bus.ipc'', ''/run/f'']" by blast
  have "{''/etc/x''} - set_option (Some ''/run/pid'') \<union> set [''/run/bus.ipc'', ''/run/f''] = {''/etc/x'', ''/run/bus.ipc'', ''/run/f''}" by auto
  with daemon_leaves_no_files [OF d(1)] d show ?thesis by simp
qed

text \<open>
  C40. The termination of the daemon ends, with the server stopped and the shutdown queued once for every
  subscriber of the warning topic, if those have room in their queues.  If a registered primary IPC client
  among them has a full queue it never ends and the server stays active: the announcement unregisters that
  client, which is announced in turn, and waits for the mutex the first announcement holds; from then on every
  announcement waits, and with it every registration of a primary client.
\<close>

theorem terminate_outcome:
  assumes libs: "broker_libs X smv topic_match bmv name_match amv acl_match chq chcap chclosed"
    and app: "d_broker d = Some k" "b = ba_db k" and inv: "db_inv X smv bmv N b" and core: "b_rpc_client b = Some c0"
    and free: "\<not> b_rpc_locked b" "\<not> b_core_locked b" and active: "d_active d"
    and enc: "rmp_event X ''shutdown'' None (now_ns X) = Inr payload"
    and R: "R = recipients smv topic_match (not_excluded X BROKER_WARN_TOPIC) BROKER_WARN_TOPIC b"
  shows "((\<forall>c \<in> R. \<not> ch_is_full X (c_tx (obj b c))) \<longrightarrow>
      (\<exists>d' k'. terminate X d = (Done (), d') \<and> \<not> d_active d' \<and> d_broker d' = Some k' \<and>
        (\<forall>c \<in> R. offered chq chcap chclosed
          (frame_new KPublish (Some (c_name (obj b c0))) (Some BROKER_WARN_TOPIC) None payload 0 False)
          (c_tx (obj b c)) (c_tx (obj (ba_db k') c))))) \<and>
    ((\<exists>c \<in> R. blocks X b c) \<longrightarrow>
      (\<exists>d' k'. terminate X d = (Pending, d') \<and> d_active d' \<and> d_broker d' = Some k' \<and>
        (\<forall>ev. announce X ev (ba_db k') = (Pending, ba_db k'))))"
proof -
  have ev: "ev_s event_shutdown = ''shutdown''" "ev_d event_shutdown = None" "ev_topic event_shutdown = BROKER_WARN_TOPIC"
    by (simp_all add: event_shutdown_def)
  note enc' = enc [folded ev(1,2)]
  have "\<exists>d' k'. terminate X d = (Done (), d') \<and> \<not> d_active d' \<and> d_broker d' = Some k' \<and>
        (\<forall>c \<in> R. offered chq chcap chclosed
          (frame_new KPublish (Some (c_name (obj b c0))) (Some BROKER_WARN_TOPIC) None payload 0 False)
          (c_tx (obj b c)) (c_tx (obj (ba_db k') c)))" if room: "\<forall>c \<in> R. \<not> ch_is_full X (c_tx (obj b c))"
  proof -
    obtain b' where "announce X event_shutdown b = (Done (), b')"
      and "\<forall>c \<in> R. offered chq chcap chclosed
          (frame_new KPublish (Some (c_name (obj b c0))) (Some BROKER_WARN_TOPIC) None payload 0 False)
          (c_tx (obj b c)) (c_tx (obj b' c))"
      using broker_libs.announce_delivers [OF libs inv core free enc'] room R ev(3) by metis
    then show ?thesis by (simp add: terminate_def app(1) app(2) [symmetric] broker_announce_def log_err_def Let_def)
  qed
  moreover have "\<exists>d' k'. terminate X d = (Pending, d') \<and> d_active d' \<and> d_broker d' = Some k' \<and>
        (\<forall>ev. announce X ev (ba_db k') = (Pending, ba_db k'))" if c: "c \<in> R" "blocks X b c" for c
  proof -
    obtain b' where "announce X event_shutdown b = (Pending, b')" "b_rpc_locked b'"
      using broker_libs.announce_blocks [OF libs inv core free enc', of c] c R ev(3) by auto
    then show ?thesis
      using active by (simp add: terminate_def app(1) app(2) [symmetric] broker_announce_def log_err_def Let_def announce_locked)
  qed
  ultimately show ?thesis by blast
qed

theorem terminate_outcome_witness:
  "\<exists>d'. terminate ref_ctx \<lparr>d_fs = {}, d_pid_file = None, d_sock_files = [],
     d_broker = Some \<lparr>ba_db = run_core, ba_services = [], ba_queue_size = 8, ba_direct_alloc_limit = None, ba_async_allocator = None\<rparr>,
     d_active = True\<rparr> = (Pending, d') \<and> d_active d'"
proof -
  let ?k = "\<lparr>ba_db = run_core, ba_services = [], ba_queue_size = 8, ba_direct_alloc_limit = None, ba_async_allocator = None\<rparr>"
  let ?d = "\<lparr>d_fs = {}, d_pid_file = None, d_sock_files = [], d_broker = Some ?k, d_active = True\<rparr>"
  let ?T = "BROKER_WARN_TOPIC"
  let ?R = "recipients ref_smv (mask_match CHR ''/'' ''+'' ''#'') (not_excluded ref_ctx ?T) ?T run_core"
  have s: "map_of (b_subscriptions run_core) (c_digest (obj run_core 1)) = Some (1, [BROKER_INFO_TOPIC, ?T])" by code_simp
  have l: "live run_core 1" "blocks ref_ctx run_core 1" "not_excluded ref_ctx ?T (obj run_core 1)"
    "mask_match CHR ''/'' ''+'' ''#'' ?T ?T" by code_simp+
  have "1 \<in> ?R" using s l by (simp add: recipients_def ref_smv_def)
  moreover have "rmp_event ref_ctx ''shutdown'' None (now_ns ref_ctx) = Inr (as_bytes ''shutdown'')" by (simp add: ref_ctx_def)
  ultimately show ?thesis
    using terminate_outcome [OF ref.broker_libs_axioms _ _ run_inv(5) run_core_facts(2-4), of ?d ?k "as_bytes ''shutdown''" ?R] l(2)
    by auto
qed

end
